(* ===== verification/Go_Float.thy ===== *)
theory Go_Float
  imports Amankan_Prelude "HOL-Library.Log_Nat"
begin

text \<open>
  Go's \<open>float64\<close>: IEEE 754 binary64 with round to nearest, ties to even, executable on
  exact rationals.  \<open>rnd64\<close> rounds a rational to 53 significant bits (with gradual
  underflow); \<open>to_f64\<close> adds the overflow to an infinity; every arithmetic operation is the
  exact operation followed by \<open>to_f64\<close>, as the standard prescribes.  NaN and the infinities
  are values; the two zeros are identified (the program never divides by a computed zero nor
  prints one).  The laws that the components use of rounding are the locale \<open>rounding\<close>,
  interpreted on \<open>rnd64\<close>.
\<close>

section \<open>Rounding a rational to binary64\<close>

definition round_even :: "rat \<Rightarrow> int" where
  "round_even x =
     (let f = \<lfloor>x\<rfloor>; d = x - of_int f
      in if d < 1/2 then f else if 1/2 < d then f + 1 else if even f then f else f + 1)"

text \<open>\<open>bin_exp x\<close> is the integer part of the binary logarithm of a positive \<open>x\<close>.\<close>

definition bin_exp :: "rat \<Rightarrow> int" where
  "bin_exp x =
     (let (n, d) = quotient_of x; e = bitlen n - bitlen d
      in if x < 2 powi e then e - 1 else e)"

definition ulp64 :: "rat \<Rightarrow> rat" where
  "ulp64 x = 2 powi (max (bin_exp \<bar>x\<bar>) (- 1022) - 52)"

definition rnd64 :: "rat \<Rightarrow> rat" where
  "rnd64 x = (if x = 0 then 0 else of_int (round_even (x / ulp64 x)) * ulp64 x)"

subsection \<open>Rounding to an integer\<close>

lemma round_even_of_int [simp]: "round_even (of_int n) = n"
  by (simp add: round_even_def)

lemma round_even_cases: "round_even x = \<lfloor>x\<rfloor> \<or> round_even x = \<lfloor>x\<rfloor> + 1"
  by (simp add: round_even_def Let_def)

lemma round_even_mono:
  assumes "x \<le> y"
  shows "round_even x \<le> round_even y"
proof (cases "\<lfloor>x\<rfloor> = \<lfloor>y\<rfloor>")
  case True
  with assms show ?thesis by (auto simp: round_even_def Let_def)
next
  case False
  with floor_mono [OF assms] have "\<lfloor>x\<rfloor> + 1 \<le> \<lfloor>y\<rfloor>" by linarith
  with round_even_cases [of x] round_even_cases [of y] show ?thesis by linarith
qed

lemma round_even_error: "\<bar>of_int (round_even x) - x\<bar> \<le> 1 / 2"
proof -
  have "of_int \<lfloor>x\<rfloor> \<le> x" and "x < of_int \<lfloor>x\<rfloor> + 1"
    by linarith+
  then show ?thesis unfolding round_even_def Let_def abs_le_iff
    by (simp split: if_split) linarith
qed

lemma round_even_le: "x \<le> of_int n \<Longrightarrow> round_even x \<le> n"
  using round_even_mono [of x "of_int n"] by simp

lemma round_even_ge: "of_int n \<le> x \<Longrightarrow> n \<le> round_even x"
  using round_even_mono [of "of_int n" x] by simp

lemma round_even_neg: "round_even (- x) = - round_even x"
proof (cases "x = of_int \<lfloor>x\<rfloor>")
  case True
  then show ?thesis by (metis of_int_minus round_even_of_int)
next
  case False
  define f where "f = \<lfloor>x\<rfloor>"
  from False have lo: "of_int f < x" and hi: "x < of_int f + 1"
    unfolding f_def by linarith+
  have fx: "\<lfloor>x\<rfloor> = f" and nx: "\<lfloor>- x\<rfloor> = - f - 1"
    using lo hi by (simp_all add: floor_eq_iff)
  show ?thesis unfolding round_even_def Let_def fx nx using lo hi by simp
qed

subsection \<open>The binary exponent\<close>

lemma bitlen_bounds_powi:
  assumes "0 < n"
  shows "2 powi (bitlen n - 1) \<le> (of_int n :: rat)" and "of_int n < (2 :: rat) powi (bitlen n)"
proof -
  have b: "2 ^ nat (bitlen n - 1) \<le> n" "n < 2 ^ nat (bitlen n)"
    using bitlen_bounds [OF assms] by auto
  have pos: "0 < bitlen n"
    using assms bitlen_nonneg [of n] bitlen_eq_zero_iff [of n] by linarith
  have "of_int (2 ^ nat (bitlen n - 1)) \<le> (of_int n :: rat)"
    using b(1) by (simp only: of_int_le_iff)
  with pos show "2 powi (bitlen n - 1) \<le> (of_int n :: rat)"
    by (simp add: power_int_def)
  have "of_int n < (of_int (2 ^ nat (bitlen n)) :: rat)"
    using b(2) by (simp only: of_int_less_iff)
  with pos show "of_int n < (2 :: rat) powi (bitlen n)"
    by (simp add: power_int_def)
qed

lemma bin_exp_bounds:
  assumes "0 < x"
  shows "2 powi (bin_exp x) \<le> x" and "x < 2 powi (bin_exp x + 1)"
proof -
  obtain n d where q: "quotient_of x = (n, d)" by fastforce
  have d: "0 < d" by (rule quotient_of_denom_pos [OF q])
  have x: "x = of_int n / of_int d" by (rule quotient_of_div [OF q])
  have n: "0 < n" using assms x d by (simp add: zero_less_divide_iff)
  define e where "e = bitlen n - bitlen d"
  have rd: "(0 :: rat) < of_int d" and rn: "(0 :: rat) < of_int n" using d n by simp_all
  have lo: "2 powi (e - 1) \<le> x"
  proof -
    have "2 powi (e - 1) * of_int d \<le> (2 :: rat) powi (e - 1) * 2 powi (bitlen d)"
      using bitlen_bounds_powi(2) [OF d] by (intro mult_left_mono) auto
    also have "\<dots> = (2 :: rat) powi (bitlen n - 1)"
      by (simp add: e_def flip: power_int_add)
    also have "\<dots> \<le> of_int n" by (rule bitlen_bounds_powi(1) [OF n])
    finally show ?thesis using rd by (simp add: x field_simps)
  qed
  have hi: "x < 2 powi (e + 1)"
  proof -
    have "(of_int n :: rat) < 2 powi (bitlen n)" by (rule bitlen_bounds_powi(2) [OF n])
    also have "\<dots> = 2 powi (e + 1) * 2 powi (bitlen d - 1)"
      by (simp add: e_def flip: power_int_add)
    also have "\<dots> \<le> 2 powi (e + 1) * of_int d"
      using bitlen_bounds_powi(1) [OF d] by (intro mult_left_mono) auto
    finally show ?thesis using rd by (simp add: x field_simps)
  qed
  have b: "bin_exp x = (if x < 2 powi e then e - 1 else e)"
    by (simp add: bin_exp_def q e_def Let_def)
  show "2 powi (bin_exp x) \<le> x" using lo by (auto simp: b)
  show "x < 2 powi (bin_exp x + 1)" using hi by (auto simp: b)
qed

lemma powi2_less_imp_less: "2 powi m < (2 :: rat) powi n \<Longrightarrow> m < n"
  using power_int_increasing [of n m "2 :: rat"] by (cases "n \<le> m") auto

lemma powi2_mono: "m \<le> n \<Longrightarrow> 2 powi m \<le> (2 :: rat) powi n"
  by (rule power_int_increasing) auto

lemma bin_exp_mono:
  assumes "0 < x" and "x \<le> y"
  shows "bin_exp x \<le> bin_exp y"
proof -
  have "2 powi (bin_exp x) < (2 :: rat) powi (bin_exp y + 1)"
    using bin_exp_bounds [of x] bin_exp_bounds [of y] assms by linarith
  then have "bin_exp x < bin_exp y + 1"
    by (rule powi2_less_imp_less)
  then show ?thesis by linarith
qed

lemma bin_exp_eqI:
  assumes "2 powi e \<le> x" and "x < 2 powi (e + 1)"
  shows "bin_exp x = e"
proof -
  have x: "0 < x" using assms(1) by (rule less_le_trans [rotated]) simp
  have "2 powi e < (2 :: rat) powi (bin_exp x + 1)" and "2 powi bin_exp x < (2 :: rat) powi (e + 1)"
    using bin_exp_bounds [OF x] assms by linarith+
  then show ?thesis using powi2_less_imp_less [of e "bin_exp x + 1"]
      powi2_less_imp_less [of "bin_exp x" "e + 1"] by linarith
qed

subsection \<open>Monotonicity, exactness and accuracy of rounding\<close>

definition exp64 :: "rat \<Rightarrow> int" where
  "exp64 x = max (bin_exp \<bar>x\<bar>) (- 1022)"

lemma ulp64_alt: "ulp64 x = 2 powi (exp64 x - 52)"
  by (simp add: ulp64_def exp64_def)

lemma ulp64_pos [simp]: "0 < ulp64 x"
  by (simp add: ulp64_def)

lemma ulp64_nz [simp]: "ulp64 x \<noteq> 0"
  using ulp64_pos [of x] by linarith

lemma rnd64_0 [simp]: "rnd64 0 = 0"
  by (simp add: rnd64_def)

lemma rnd64_neg: "rnd64 (- x) = - rnd64 x"
  by (simp add: rnd64_def ulp64_def round_even_neg)

lemma rnd64_le_binade:
  assumes "0 < x"
  shows "rnd64 x \<le> 2 powi (exp64 x + 1)"
proof -
  have "x < 2 powi (bin_exp x + 1)" by (rule bin_exp_bounds(2) [OF assms])
  also have "\<dots> \<le> 2 powi (exp64 x + 1)"
    using assms by (intro powi2_mono) (simp add: exp64_def)
  finally have "x \<le> of_int (2 ^ 53) * ulp64 x"
    by (simp add: ulp64_alt power_int_add power_int_diff)
  then have "x / ulp64 x \<le> of_int (2 ^ 53)"
    by (subst pos_divide_le_eq) auto
  then have "round_even (x / ulp64 x) \<le> 2 ^ 53" by (rule round_even_le)
  then have "of_int (round_even (x / ulp64 x)) \<le> (of_int (2 ^ 53) :: rat)"
    by (simp only: of_int_le_iff)
  then have "rnd64 x \<le> of_int (2 ^ 53) * ulp64 x"
    using assms by (simp add: rnd64_def)
  then show ?thesis by (simp add: ulp64_alt power_int_add power_int_diff)
qed

lemma rnd64_ge_binade:
  assumes "0 < x" and "exp64 x = bin_exp x"
  shows "2 powi (exp64 x) \<le> rnd64 x"
proof -
  have "2 powi (exp64 x) \<le> x" using bin_exp_bounds(1) [OF assms(1)] assms(2) by simp
  then have "of_int (2 ^ 52) * ulp64 x \<le> x"
    by (simp add: ulp64_alt power_int_diff)
  then have "of_int (2 ^ 52) \<le> x / ulp64 x"
    by (subst pos_le_divide_eq) auto
  then have "2 ^ 52 \<le> round_even (x / ulp64 x)" by (rule round_even_ge)
  then have "(of_int (2 ^ 52) :: rat) \<le> of_int (round_even (x / ulp64 x))"
    by (simp only: of_int_le_iff)
  then have "of_int (2 ^ 52) * ulp64 x \<le> rnd64 x"
    using assms by (simp add: rnd64_def)
  then show ?thesis by (simp add: ulp64_alt power_int_diff)
qed

lemma rnd64_nonneg: "0 \<le> x \<Longrightarrow> 0 \<le> rnd64 x"
  unfolding rnd64_def using round_even_ge [of 0 "x / ulp64 x"]
  by (simp add: less_imp_le)

lemma rnd64_mono_pos:
  assumes "0 < x" and "x \<le> y"
  shows "rnd64 x \<le> rnd64 y"
proof (cases "exp64 x = exp64 y")
  case True
  then have u: "ulp64 x = ulp64 y" by (simp add: ulp64_alt)
  have "x / ulp64 y \<le> y / ulp64 y"
    using assms(2) by (intro divide_right_mono) (auto simp: less_imp_le)
  then have "round_even (x / ulp64 y) \<le> round_even (y / ulp64 y)"
    by (rule round_even_mono)
  with assms u show ?thesis
    by (simp add: rnd64_def)
next
  case False
  have y: "0 < y" using assms by linarith
  have "bin_exp x \<le> bin_exp y" by (rule bin_exp_mono [OF assms])
  with False assms y have l: "exp64 x + 1 \<le> exp64 y" and e: "exp64 y = bin_exp y"
    by (auto simp: exp64_def max_def split: if_splits)
  have "rnd64 x \<le> 2 powi (exp64 x + 1)" by (rule rnd64_le_binade [OF assms(1)])
  also have "\<dots> \<le> 2 powi (exp64 y)" by (rule powi2_mono [OF l])
  also have "\<dots> \<le> rnd64 y" by (rule rnd64_ge_binade [OF y e])
  finally show ?thesis .
qed

lemma rnd64_mono:
  assumes "x \<le> y"
  shows "rnd64 x \<le> rnd64 y"
proof -
  consider "0 < x" | "x \<le> 0" "0 \<le> y" | "y < 0" by linarith
  then show ?thesis
  proof cases
    case 1
    then show ?thesis by (rule rnd64_mono_pos [OF _ assms])
  next
    case 2
    then show ?thesis using rnd64_nonneg [of "- x"] rnd64_nonneg [of y] rnd64_neg [of x] by linarith
  next
    case 3
    then show ?thesis using rnd64_mono_pos [of "- y" "- x"] assms by (simp add: rnd64_neg)
  qed
qed

lemma rnd64_exact:
  assumes "\<bar>m\<bar> < 2 ^ 53" and "- 1074 \<le> k"
  shows "rnd64 (of_int m * 2 powi k) = of_int m * 2 powi k"
proof (cases "m = 0")
  case False
  define x :: rat where "x = of_int m * 2 powi k"
  have x0: "x \<noteq> 0" using False by (simp add: x_def)
  have "\<bar>of_int m\<bar> < (of_int (2 ^ 53) :: rat)"
    using assms(1) by (simp only: of_int_less_iff flip: of_int_abs)
  then have "\<bar>x\<bar> < of_int (2 ^ 53) * 2 powi k"
    by (simp add: x_def abs_mult)
  also have "\<dots> = 2 powi (k + 53)" by (simp add: power_int_add)
  finally have "bin_exp \<bar>x\<bar> < k + 53"
    using bin_exp_bounds(1) [of "\<bar>x\<bar>"] x0
    by (intro powi2_less_imp_less) simp
  with assms(2) have le: "exp64 x - 52 \<le> k" by (simp add: exp64_def)
  define j where "j = nat (k - (exp64 x - 52))"
  have "2 powi k = (2 :: rat) ^ j * ulp64 x"
    using le by (simp add: j_def ulp64_alt flip: power_int_add power_int_of_nat)
  then have xu: "x = of_int (m * 2 ^ j) * ulp64 x"
    by (simp add: x_def)
  then have "x / ulp64 x = of_int (m * 2 ^ j)"
    by (metis nonzero_mult_div_cancel_right ulp64_nz)
  then have "rnd64 x = of_int (m * 2 ^ j) * ulp64 x"
    using x0 by (simp only: rnd64_def round_even_of_int if_False)
  also have "\<dots> = x" by (rule xu [symmetric])
  finally show ?thesis by (simp add: x_def)
qed simp

lemma rnd64_int: "\<bar>n\<bar> < 2 ^ 53 \<Longrightarrow> rnd64 (of_int n) = of_int n"
  using rnd64_exact [of n 0] by simp

lemma rnd64_half: "\<bar>n\<bar> < 2 ^ 53 \<Longrightarrow> rnd64 (of_int n / 2) = of_int n / 2"
  using rnd64_exact [of n "- 1"] by (simp add: power_int_minus)

lemma rnd64_rel_err:
  assumes "2 powi (- 1022) \<le> \<bar>x\<bar>"
  shows "\<bar>rnd64 x - x\<bar> \<le> \<bar>x\<bar> / 2 ^ 53"
proof -
  have x: "0 < \<bar>x\<bar>" using assms by (rule less_le_trans [rotated]) simp
  have "2 powi (- 1022) < (2 :: rat) powi (bin_exp \<bar>x\<bar> + 1)"
    using bin_exp_bounds(2) [OF x] assms by linarith
  then have "exp64 x = bin_exp \<bar>x\<bar>"
    using powi2_less_imp_less [of "- 1022" "bin_exp \<bar>x\<bar> + 1"] by (simp add: exp64_def)
  then have u: "ulp64 x \<le> \<bar>x\<bar> / 2 ^ 52"
    using bin_exp_bounds(1) [OF x] by (simp add: ulp64_alt power_int_diff field_simps)
  define q where "q = x / ulp64 x"
  have xq: "x = q * ulp64 x" by (simp add: q_def)
  have "rnd64 x - x = (of_int (round_even q) - q) * ulp64 x"
    using x xq by (simp add: rnd64_def q_def left_diff_distrib)
  then have "\<bar>rnd64 x - x\<bar> = \<bar>of_int (round_even q) - q\<bar> * ulp64 x"
    by (simp add: abs_mult less_imp_le)
  also have "\<dots> \<le> 1 / 2 * ulp64 x"
    using round_even_error [of q] by (intro mult_right_mono) (auto simp: less_imp_le)
  also have "\<dots> \<le> \<bar>x\<bar> / 2 ^ 53" using u by simp
  finally show ?thesis .
qed

lemma rnd64_half_ulp: "\<bar>rnd64 x - x\<bar> \<le> ulp64 x / 2"
proof (cases "x = 0")
  case False
  define q where "q = x / ulp64 x"
  have xq: "x = q * ulp64 x" by (simp add: q_def)
  have "rnd64 x - x = (of_int (round_even q) - q) * ulp64 x"
    using False xq by (simp add: rnd64_def q_def left_diff_distrib)
  then have "\<bar>rnd64 x - x\<bar> = \<bar>of_int (round_even q) - q\<bar> * ulp64 x"
    by (simp add: abs_mult less_imp_le)
  also have "\<dots> \<le> 1 / 2 * ulp64 x"
    using round_even_error [of q] by (intro mult_right_mono) (auto simp: less_imp_le)
  finally show ?thesis by simp
qed (simp add: less_imp_le)

lemma rnd64_abs_err:
  assumes "\<bar>x\<bar> \<le> b" and "1 \<le> b"
  shows "\<bar>rnd64 x - x\<bar> \<le> b / 2 ^ 53"
proof (cases "x = 0")
  case True
  with assms show ?thesis by simp
next
  case False
  have "2 powi (- 1022) \<le> (1 :: rat)" using powi2_mono [of "- 1022" 0] by (simp only: power_int_0_right)
  with assms bin_exp_bounds(1) [of "\<bar>x\<bar>"] False have "2 powi (exp64 x) \<le> b"
    unfolding exp64_def max_def by (auto simp del: power_int_minus)
  then have "ulp64 x \<le> b / 2 ^ 52" by (simp add: ulp64_alt power_int_diff divide_right_mono)
  with rnd64_half_ulp [of x] show ?thesis by simp
qed

section \<open>The laws of rounding as an interface\<close>

text \<open>
  Components that compute with floats use three laws only: rounding is monotone, small
  integers and half integers are exact, and the relative error of a normal result is at most
  \<open>2^-53\<close>.  The lemmas the scores and weights share are proved once from these laws.
\<close>

locale rounding =
  fixes rnd :: "rat \<Rightarrow> rat"
  assumes mono: "x \<le> y \<Longrightarrow> rnd x \<le> rnd y"
    and exact_int: "\<bar>n\<bar> < 2 ^ 53 \<Longrightarrow> rnd (of_int n) = of_int n"
    and exact_half: "\<bar>n\<bar> < 2 ^ 53 \<Longrightarrow> rnd (of_int n / 2) = of_int n / 2"
    and rel_err: "2 powi (- 1022) \<le> \<bar>x\<bar> \<Longrightarrow> \<bar>rnd x - x\<bar> \<le> \<bar>x\<bar> / 2 ^ 53"
begin

lemma le_int: "\<bar>n\<bar> < 2 ^ 53 \<Longrightarrow> x \<le> of_int n \<Longrightarrow> rnd x \<le> of_int n"
  using mono [of x "of_int n"] exact_int [of n] by simp

lemma ge_int: "\<bar>n\<bar> < 2 ^ 53 \<Longrightarrow> of_int n \<le> x \<Longrightarrow> of_int n \<le> rnd x"
  using mono [of "of_int n" x] exact_int [of n] by simp

lemma le_half: "\<bar>n\<bar> < 2 ^ 53 \<Longrightarrow> x \<le> of_int n / 2 \<Longrightarrow> rnd x \<le> of_int n / 2"
  using mono [of x "of_int n / 2"] exact_half [of n] by simp

lemma ge_half: "\<bar>n\<bar> < 2 ^ 53 \<Longrightarrow> of_int n / 2 \<le> x \<Longrightarrow> of_int n / 2 \<le> rnd x"
  using mono [of "of_int n / 2" x] exact_half [of n] by simp

lemma nonneg: "0 \<le> x \<Longrightarrow> 0 \<le> rnd x"
  using ge_int [of 0 x] by simp

lemma nonpos: "x \<le> 0 \<Longrightarrow> rnd x \<le> 0"
  using le_int [of 0 x] by simp

text \<open>
  The decimal rounding idiom \<open>float64(int(f*s+0.5))/s\<close> of the program, on the exact values:
  for \<open>0 \<le> f \<le> b\<close> with integers \<open>s\<close>, \<open>b\<close> the result stays in \<open>[0, b]\<close>.
\<close>

lemma decimal_scaled:
  assumes "0 \<le> f" and "f \<le> of_int b" and "0 < s" and "2 * (s * b) + 1 < 2 ^ 53"
  shows "0 \<le> \<lfloor>rnd (rnd (f * of_int s) + 1 / 2)\<rfloor>"
    and "\<lfloor>rnd (rnd (f * of_int s) + 1 / 2)\<rfloor> \<le> s * b"
proof -
  have b: "0 \<le> b" using assms(1,2) by (metis of_int_0_le_iff order_trans)
  then have sb: "0 \<le> s * b" using assms(3) by simp
  have "0 \<le> f * of_int s" using assms(1,3) by simp
  then have lo: "0 \<le> rnd (f * of_int s)" by (rule nonneg)
  then show "0 \<le> \<lfloor>rnd (rnd (f * of_int s) + 1 / 2)\<rfloor>" using nonneg by simp
  have "f * of_int s \<le> of_int (s * b)"
    using assms(2,3) by (simp add: mult.commute mult_right_mono)
  then have "rnd (f * of_int s) \<le> of_int (s * b)"
    using sb assms(4) by (intro le_int) auto
  then have "rnd (f * of_int s) + 1 / 2 \<le> of_int (2 * (s * b) + 1) / 2" by simp
  then have "rnd (rnd (f * of_int s) + 1 / 2) \<le> of_int (2 * (s * b) + 1) / 2"
    using sb assms(4) by (intro le_half) auto
  then show "\<lfloor>rnd (rnd (f * of_int s) + 1 / 2)\<rfloor> \<le> s * b"
    by (simp add: floor_le_iff)
qed

end

interpretation r64: rounding rnd64
  by (unfold_locales; (rule rnd64_mono rnd64_int rnd64_half rnd64_rel_err; assumption))

section \<open>The type of Go's float64\<close>

datatype f64 = NaN | PInf | NInf | Fin rat

text \<open>The binary64 value of a real number, a Go constant or the exact result of an operation.\<close>

definition f64_limit :: int where
  "f64_limit = 2 ^ 1024"

definition to_f64 :: "rat \<Rightarrow> f64" where
  "to_f64 x =
     (let r = rnd64 x
      in if f64_limit \<le> \<lfloor>r\<rfloor> then PInf else if \<lceil>r\<rceil> \<le> - f64_limit then NInf else Fin r)"

definition f64_of_int :: "int \<Rightarrow> f64" where
  "f64_of_int n = to_f64 (of_int n)"

instantiation f64 :: "{plus, minus, times, ord}"
begin

definition plus_f64 :: "f64 \<Rightarrow> f64 \<Rightarrow> f64" where
  "plus_f64 x y =
     (case (x, y) of
        (NaN, _) \<Rightarrow> NaN | (_, NaN) \<Rightarrow> NaN
      | (PInf, NInf) \<Rightarrow> NaN | (NInf, PInf) \<Rightarrow> NaN
      | (PInf, _) \<Rightarrow> PInf | (_, PInf) \<Rightarrow> PInf
      | (NInf, _) \<Rightarrow> NInf | (_, NInf) \<Rightarrow> NInf
      | (Fin a, Fin b) \<Rightarrow> to_f64 (a + b))"

definition minus_f64 :: "f64 \<Rightarrow> f64 \<Rightarrow> f64" where
  "minus_f64 x y =
     (case y of NaN \<Rightarrow> NaN | PInf \<Rightarrow> x + NInf | NInf \<Rightarrow> x + PInf
      | Fin b \<Rightarrow> x + Fin (- b))"

text \<open>\<open>Inf * x\<close> takes the sign of \<open>x\<close>, and is NaN for \<open>x = 0\<close>.\<close>

definition times_f64 :: "f64 \<Rightarrow> f64 \<Rightarrow> f64" where
  "times_f64 x y =
     (case (x, y) of
        (NaN, _) \<Rightarrow> NaN | (_, NaN) \<Rightarrow> NaN
      | (Fin a, Fin b) \<Rightarrow> to_f64 (a * b)
      | (PInf, PInf) \<Rightarrow> PInf | (NInf, NInf) \<Rightarrow> PInf
      | (PInf, NInf) \<Rightarrow> NInf | (NInf, PInf) \<Rightarrow> NInf
      | (PInf, Fin b) \<Rightarrow> (if b = 0 then NaN else if 0 < b then PInf else NInf)
      | (Fin a, PInf) \<Rightarrow> (if a = 0 then NaN else if 0 < a then PInf else NInf)
      | (NInf, Fin b) \<Rightarrow> (if b = 0 then NaN else if 0 < b then NInf else PInf)
      | (Fin a, NInf) \<Rightarrow> (if a = 0 then NaN else if 0 < a then NInf else PInf))"

text \<open>Go's comparisons: false as soon as one side is NaN.\<close>

definition less_f64 :: "f64 \<Rightarrow> f64 \<Rightarrow> bool" where
  "less_f64 x y =
     (case (x, y) of
        (NaN, _) \<Rightarrow> False | (_, NaN) \<Rightarrow> False
      | (Fin a, Fin b) \<Rightarrow> a < b
      | (PInf, _) \<Rightarrow> False | (_, NInf) \<Rightarrow> False
      | _ \<Rightarrow> True)"

definition less_eq_f64 :: "f64 \<Rightarrow> f64 \<Rightarrow> bool" where
  "less_eq_f64 x y = (x < y \<or> (x = y \<and> x \<noteq> NaN))"

instance ..

end

text \<open>Go's \<open>==\<close>: NaN differs from itself.\<close>

definition f64_eq :: "f64 \<Rightarrow> f64 \<Rightarrow> bool" where
  "f64_eq x y = (x = y \<and> x \<noteq> NaN)"

definition f64_div :: "f64 \<Rightarrow> f64 \<Rightarrow> f64" where
  "f64_div x y =
     (case (x, y) of
        (NaN, _) \<Rightarrow> NaN | (_, NaN) \<Rightarrow> NaN
      | (Fin a, Fin b) \<Rightarrow>
          (if b = 0 then (if a = 0 then NaN else if 0 < a then PInf else NInf)
           else to_f64 (a / b))
      | (Fin a, _) \<Rightarrow> Fin 0
      | (PInf, Fin b) \<Rightarrow> (if 0 \<le> b then PInf else NInf)
      | (NInf, Fin b) \<Rightarrow> (if 0 \<le> b then NInf else PInf)
      | _ \<Rightarrow> NaN)"

text \<open>
  \<open>int(x)\<close>: truncation towards zero.  Out of the range of \<open>int64\<close> (and for NaN) the language
  leaves the result to the implementation; the amd64 instruction returns \<open>-2^63\<close>.
\<close>

definition trunc_rat :: "rat \<Rightarrow> int" where
  "trunc_rat x = (if 0 \<le> x then \<lfloor>x\<rfloor> else \<lceil>x\<rceil>)"

definition go_int :: "f64 \<Rightarrow> int" where
  "go_int x =
     (case x of
        Fin q \<Rightarrow> (let t = trunc_rat q in if - (2 ^ 63) \<le> t \<and> t < 2 ^ 63 then t else - (2 ^ 63))
      | _ \<Rightarrow> - (2 ^ 63))"

fun is_finite_f64 :: "f64 \<Rightarrow> bool" where
  "is_finite_f64 (Fin q) = True"
| "is_finite_f64 _ = False"

fun val_f64 :: "f64 \<Rightarrow> rat" where
  "val_f64 (Fin q) = q"
| "val_f64 _ = 0"
subsection \<open>Computing with finite values\<close>

lemma f64_add_Fin [simp]: "Fin a + Fin b = to_f64 (a + b)"
  by (simp add: plus_f64_def)

lemma f64_sub_Fin [simp]: "Fin a - Fin b = to_f64 (a - b)"
  by (simp add: minus_f64_def)

lemma f64_mul_Fin [simp]: "Fin a * Fin b = to_f64 (a * b)"
  by (simp add: times_f64_def)

lemma f64_div_Fin [simp]: "b \<noteq> 0 \<Longrightarrow> f64_div (Fin a) (Fin b) = to_f64 (a / b)"
  by (simp add: f64_div_def)

lemma f64_less_Fin [simp]: "Fin a < Fin b \<longleftrightarrow> a < b"
  by (simp add: less_f64_def)

lemma f64_le_Fin [simp]: "Fin a \<le> Fin b \<longleftrightarrow> a \<le> b"
  by (auto simp: less_eq_f64_def)

lemma f64_NaN_less [simp]: "\<not> NaN < x" "\<not> x < NaN"
  by (simp_all add: less_f64_def split: f64.splits)

lemma f64_NaN_le [simp]: "\<not> NaN \<le> x" "\<not> x \<le> NaN"
  by (auto simp: less_eq_f64_def)

lemma f64_eq_Fin [simp]: "f64_eq (Fin a) (Fin b) \<longleftrightarrow> a = b"
  by (simp add: f64_eq_def)

lemma to_f64_Fin:
  assumes "\<bar>x\<bar> \<le> of_int n" and "n < 2 ^ 53"
  shows "to_f64 x = Fin (rnd64 x)"
proof -
  have n: "\<bar>n\<bar> < 2 ^ 53" "\<bar>- n\<bar> < 2 ^ 53"
    using assms by (auto simp: abs_if split: if_splits)
  have "rnd64 x \<le> of_int n" and "of_int (- n) \<le> rnd64 x"
    using assms(1) by ((intro r64.le_int n; simp), (intro r64.ge_int n; auto))
  then have "\<lfloor>rnd64 x\<rfloor> \<le> n" and "- n \<le> \<lceil>rnd64 x\<rceil>"
    by linarith+
  moreover have "n < f64_limit"
    using assms(2) by (rule less_le_trans) (simp add: f64_limit_def)
  ultimately have "\<not> f64_limit \<le> \<lfloor>rnd64 x\<rfloor>" and "\<not> \<lceil>rnd64 x\<rceil> \<le> - f64_limit"
    by linarith+
  then show ?thesis by (simp only: to_f64_def Let_def if_False)
qed

lemma to_f64_of_int: "\<bar>n\<bar> < 2 ^ 53 \<Longrightarrow> to_f64 (of_int n) = Fin (of_int n)"
  using to_f64_Fin [of "of_int n" "\<bar>n\<bar>"] r64.exact_int [of n] by simp

lemma to_f64_numeral [simp]: "(numeral k :: int) < 2 ^ 53 \<Longrightarrow> to_f64 (numeral k) = Fin (numeral k)"
  using to_f64_of_int [of "numeral k"] by simp

lemma to_f64_0 [simp]: "to_f64 0 = Fin 0"
  using to_f64_of_int [of 0] by simp

lemma to_f64_1 [simp]: "to_f64 1 = Fin 1"
  using to_f64_of_int [of 1] by simp

lemma to_f64_half: "\<bar>n\<bar> < 2 ^ 52 \<Longrightarrow> to_f64 (of_int n / 2) = Fin (of_int n / 2)"
  using to_f64_Fin [of "of_int n / 2" "\<bar>n\<bar>"] r64.exact_half [of n]
  by (simp add: abs_if split: if_splits)

lemma to_f64_one_half [simp]: "to_f64 (1 / 2) = Fin (1 / 2)"
  using to_f64_half [of 1] by simp

lemma f64_of_int_small: "\<bar>n\<bar> < 2 ^ 53 \<Longrightarrow> f64_of_int n = Fin (of_int n)"
  by (simp add: f64_of_int_def to_f64_of_int)

lemma go_int_Fin:
  assumes "0 \<le> q" and "q < 2 ^ 63"
  shows "go_int (Fin q) = \<lfloor>q\<rfloor>"
proof -
  have "0 \<le> \<lfloor>q\<rfloor>" and "\<lfloor>q\<rfloor> < 2 ^ 63"
    using assms by (simp_all add: floor_less_iff)
  with assms(1) show ?thesis by (simp add: go_int_def trunc_rat_def Let_def)
qed

lemma round_dec:
  assumes "0 \<le> f" and "f \<le> of_int b" and "0 < s" and "2 * (s * b) + 1 < 2 ^ 53" and "s < 2 ^ 53"
    and k: "k = \<lfloor>rnd64 (rnd64 (f * of_int s) + 1 / 2)\<rfloor>"
  shows "f64_div (f64_of_int (go_int (Fin f * Fin (of_int s) + Fin (1 / 2)))) (Fin (of_int s))
           = Fin (rnd64 (of_int k / of_int s))"
    and "0 \<le> k" and "k \<le> s * b"
proof -
  note kb = r64.decimal_scaled [OF assms(1-4), folded k]
  show "0 \<le> k" and "k \<le> s * b" by (rule kb)+
  have fs: "0 \<le> f * of_int s" "f * of_int s \<le> of_int (s * b)"
    using assms(1-3) by (simp_all add: mult.commute mult_right_mono)
  have sb: "0 \<le> s * b" "s * b < 2 ^ 53" using kb assms(4) by linarith+
  have m: "Fin f * Fin (of_int s) = Fin (rnd64 (f * of_int s))"
    using fs sb(2) to_f64_Fin [of "f * of_int s" "s * b"] by simp
  have r: "0 \<le> rnd64 (f * of_int s)" "rnd64 (f * of_int s) \<le> of_int (s * b)"
    using r64.nonneg [OF fs(1)] r64.le_int [OF _ fs(2)] sb by auto
  have r2: "0 \<le> rnd64 (f * of_int s) + 1 / 2" "rnd64 (f * of_int s) + 1 / 2 \<le> of_int (s * b + 1)"
    using r by auto
  have sb1: "s * b + 1 < 2 ^ 53" using assms(4) sb(1) by linarith
  have a: "Fin (rnd64 (f * of_int s)) + Fin (1 / 2) = Fin (rnd64 (rnd64 (f * of_int s) + 1 / 2))"
    using r2 sb1 to_f64_Fin [of "rnd64 (f * of_int s) + 1 / 2" "s * b + 1"] by simp
  have z: "0 \<le> rnd64 (rnd64 (f * of_int s) + 1 / 2)" by (rule r64.nonneg [OF r2(1)])
  have "rnd64 (rnd64 (f * of_int s) + 1 / 2) \<le> of_int (s * b + 1)"
    using sb(1) sb1 r2(2) by (intro r64.le_int) auto
  also have "\<dots> < of_int (2 ^ 63)"
    unfolding of_int_less_iff using sb1 by (rule less_trans) simp
  finally have zu: "rnd64 (rnd64 (f * of_int s) + 1 / 2) < 2 ^ 63" by simp
  have i: "go_int (Fin f * Fin (of_int s) + Fin (1 / 2)) = k"
    by (simp only: m a go_int_Fin [OF z zu] k)
  have kk: "\<bar>k\<bar> < 2 ^ 53" using kb sb by linarith
  have q: "\<bar>of_int k / of_int s\<bar> \<le> (of_int k :: rat)"
    using kb(1) assms(3) by (simp add: divide_le_eq mult_le_cancel_left1)
  show "f64_div (f64_of_int (go_int (Fin f * Fin (of_int s) + Fin (1 / 2)))) (Fin (of_int s))
           = Fin (rnd64 (of_int k / of_int s))"
    unfolding i using assms(3) kk to_f64_Fin [OF q] by (simp add: f64_of_int_small)
qed

subsection \<open>Order and monotonicity of the operations\<close>

lemma f64_le_iff:
  "x \<le> y \<longleftrightarrow> x \<noteq> NaN \<and> y \<noteq> NaN \<and>
     (x = NInf \<or> y = PInf \<or> (\<exists>a b. x = Fin a \<and> y = Fin b \<and> a \<le> b))"
  by (cases x; cases y) (auto simp: less_eq_f64_def less_f64_def)

lemma f64_le_refl: "x \<noteq> NaN \<Longrightarrow> x \<le> (x :: f64)"
  by (simp add: less_eq_f64_def)

lemma f64_le_trans: "x \<le> y \<Longrightarrow> y \<le> z \<Longrightarrow> x \<le> (z :: f64)"
  by (cases x; cases y; cases z) (auto simp: f64_le_iff)

lemma f64_less_le: "x < y \<longleftrightarrow> x \<noteq> NaN \<and> y \<noteq> NaN \<and> \<not> y \<le> (x :: f64)"
  by (cases x; cases y) (auto simp: f64_le_iff less_f64_def)

lemma to_f64_not_NaN [simp]: "to_f64 q \<noteq> NaN"
  by (simp add: to_f64_def Let_def)

lemma to_f64_mono:
  assumes "p \<le> q"
  shows "to_f64 p \<le> to_f64 q"
proof -
  have r: "rnd64 p \<le> rnd64 q" by (rule rnd64_mono [OF assms])
  then have "\<lfloor>rnd64 p\<rfloor> \<le> \<lfloor>rnd64 q\<rfloor>" and "\<lceil>rnd64 p\<rceil> \<le> \<lceil>rnd64 q\<rceil>"
    by (rule floor_mono, rule ceiling_mono)
  moreover have "0 < f64_limit" by (simp add: f64_limit_def)
  moreover have "\<lceil>rnd64 p\<rceil> \<le> \<lfloor>rnd64 p\<rfloor> + 1" "\<lceil>rnd64 q\<rceil> \<le> \<lfloor>rnd64 q\<rfloor> + 1" "\<lfloor>rnd64 p\<rfloor> \<le> \<lceil>rnd64 p\<rceil>"
    by linarith+
  ultimately show ?thesis using r
    unfolding to_f64_def Let_def f64_le_iff by (auto simp del: le_floor_iff ceiling_le_iff)
qed

lemma f64_mult_right_mono:
  assumes "x \<le> y" and "0 < w"
  shows "x * Fin w \<le> y * Fin w"
proof (cases "\<exists>a b. x = Fin a \<and> y = Fin b")
  case True
  then obtain a b where xy: "x = Fin a" "y = Fin b" by blast
  with assms have "a * w \<le> b * w" by (intro mult_right_mono) auto
  with xy show ?thesis by (simp add: to_f64_mono)
next
  case False
  with assms show ?thesis
    by (cases x; cases y) (auto simp: f64_le_iff times_f64_def)
qed

lemma f64_mult_left_mono:
  assumes "Fin 0 \<le> x" and "v \<le> w" and "0 < v"
  shows "x * Fin v \<le> x * Fin w"
proof (cases x)
  case (Fin a)
  with assms have "a * v \<le> a * w" by (intro mult_left_mono) auto
  with Fin show ?thesis by (simp add: to_f64_mono)
qed (use assms in \<open>auto simp: f64_le_iff times_f64_def\<close>)

lemma f64_mult_nonneg: "Fin 0 \<le> x \<Longrightarrow> 0 < w \<Longrightarrow> Fin 0 \<le> x * Fin w"
  using f64_mult_right_mono [of "Fin 0" x w] by simp

lemma f64_mult_not_NaN: "x \<noteq> NaN \<Longrightarrow> 0 < w \<Longrightarrow> x * Fin w \<noteq> NaN"
  by (cases x) (auto simp: times_f64_def)

subsection \<open>Subtracting one is exact\<close>

lemma rnd64_sub_one:
  assumes "rnd64 x = x" and "1 \<le> x" and "x < 2 ^ 53"
  shows "rnd64 (x - 1) = x - 1"
proof -
  define k where "k = max (bin_exp x) (- 1022) - 52"
  define m where "m = round_even (x / 2 powi k)"
  have x: "x = of_int m * 2 powi k"
    using assms(1,2) by (simp add: rnd64_def ulp64_def k_def m_def split: if_splits)
  have "2 powi (bin_exp x) \<le> x" using bin_exp_bounds(1) [of x] assms(2) by simp
  also have "\<dots> < 2 powi 53" using assms(3) by (simp add: power_int_def)
  finally have e: "bin_exp x < 53" by (rule powi2_less_imp_less)
  have "(2 :: rat) powi 0 \<le> x" using assms(2) by simp
  also have "x < 2 powi (bin_exp x + 1)" using bin_exp_bounds(2) [of x] assms(2) by simp
  finally have e0: "0 \<le> bin_exp x" using powi2_less_imp_less [of 0 "bin_exp x + 1"] by simp
  then have k: "k = bin_exp x - 52" "- 52 \<le> k" "k \<le> 0" using e by (simp_all add: k_def)
  have p: "(0 :: rat) < 2 powi k" by simp
  have u: "of_int (2 ^ nat (- k)) * 2 powi k = (1 :: rat)"
    using k(3) by (simp add: power_int_def power_mult_distrib [symmetric])
  have "(x :: rat) < 2 powi (53 + k)" using bin_exp_bounds(2) [of x] assms(2) k(1) by (simp add: add.commute)
  also have "\<dots> = of_int (2 ^ 53) * 2 powi k" by (subst power_int_add) simp_all
  finally have "of_int m * 2 powi k < of_int (2 ^ 53) * (2 :: rat) powi k" unfolding x .
  then have m: "m < 2 ^ 53" using p by (simp only: mult_less_cancel_right_pos of_int_less_iff)
  have "of_int (2 ^ nat (- k)) * (2 :: rat) powi k \<le> of_int m * 2 powi k" using assms(2) unfolding u x .
  then have m1: "2 ^ nat (- k) \<le> m" using p by (simp only: mult_le_cancel_right_pos of_int_le_iff)
  have "x - 1 = of_int (m - 2 ^ nat (- k)) * 2 powi k" using x u by (simp add: algebra_simps)
  moreover have "\<bar>m - 2 ^ nat (- k)\<bar> < 2 ^ 53" using m m1 zero_less_power [of "2 :: int" "nat (- k)"] by linarith
  ultimately show ?thesis using rnd64_exact [of "m - 2 ^ nat (- k)" k] k(2) by simp
qed

lemma f64_dec:
  assumes "rnd64 x = x" and "1 \<le> x" and "x < 2 ^ 53"
  shows "Fin x - to_f64 1 = Fin (x - 1)"
  using to_f64_Fin [of "x - 1" "2 ^ 53 - 1"] rnd64_sub_one [OF assms] assms(2,3)
  by simp

end
