(* ===== verification/Go_Strings.thy ===== *)
theory Go_Strings
  imports Amankan_Prelude
begin

text \<open>
  The functions of Go's \<open>strings\<close> and \<open>strconv\<close> packages that the program calls, on Go strings
  as byte lists (a HOL \<open>char\<close> is a byte).  \<open>TrimSpace\<close> knows the UTF-8 encodings of every
  Unicode white-space character.  \<open>ToLower\<close> is exact on ASCII and on the two characters outside
  ASCII whose lower case is an ASCII letter; other multi-byte sequences are left alone, which
  decides every comparison of the result with an ASCII constant as Go does.
\<close>

section \<open>White space and trimming\<close>

definition white_space :: "string list" where
  "white_space =
     [[CHR 0x09], [CHR 0x0A], [CHR 0x0B], [CHR 0x0C], [CHR 0x0D], [CHR 0x20],
      [CHR 0xC2, CHR 0x85], [CHR 0xC2, CHR 0xA0], [CHR 0xE1, CHR 0x9A, CHR 0x80],
      [CHR 0xE2, CHR 0x80, CHR 0x80], [CHR 0xE2, CHR 0x80, CHR 0x81],
      [CHR 0xE2, CHR 0x80, CHR 0x82], [CHR 0xE2, CHR 0x80, CHR 0x83],
      [CHR 0xE2, CHR 0x80, CHR 0x84], [CHR 0xE2, CHR 0x80, CHR 0x85],
      [CHR 0xE2, CHR 0x80, CHR 0x86], [CHR 0xE2, CHR 0x80, CHR 0x87],
      [CHR 0xE2, CHR 0x80, CHR 0x88], [CHR 0xE2, CHR 0x80, CHR 0x89],
      [CHR 0xE2, CHR 0x80, CHR 0x8A], [CHR 0xE2, CHR 0x80, CHR 0xA8],
      [CHR 0xE2, CHR 0x80, CHR 0xA9], [CHR 0xE2, CHR 0x80, CHR 0xAF],
      [CHR 0xE2, CHR 0x81, CHR 0x9F], [CHR 0xE3, CHR 0x80, CHR 0x80]]"

text \<open>The first of the (non-empty) words \<open>ws\<close> that the string starts with.\<close>

definition leading :: "string list \<Rightarrow> string \<Rightarrow> string option" where
  "leading ws s = find (\<lambda>w. w \<noteq> [] \<and> take (length w) s = w) ws"

lemma leading_Some: "leading ws s = Some w \<Longrightarrow> w \<noteq> [] \<and> w \<in> set ws \<and> (\<exists>t. s = w @ t)"
  unfolding leading_def by (drule find_SomeD) (metis append_take_drop_id)

lemma leading_None_append: "leading ws (s @ t) = None \<Longrightarrow> leading ws s = None"
proof -
  assume h: "leading ws (s @ t) = None"
  have "\<not> (w \<noteq> [] \<and> take (length w) s = w)" if w: "w \<in> set ws" for w
  proof
    assume p: "w \<noteq> [] \<and> take (length w) s = w"
    then have "length w \<le> length s" by (metis length_take min.cobounded1)
    with p have "take (length w) (s @ t) = w" by simp
    with p w h show False by (auto simp: leading_def find_None_iff)
  qed
  then show ?thesis by (auto simp: leading_def find_None_iff)
qed

function drop_leading :: "string list \<Rightarrow> string \<Rightarrow> string" where
  "drop_leading ws s =
     (case leading ws s of None \<Rightarrow> s | Some w \<Rightarrow> drop_leading ws (drop (length w) s))"
  by pat_completeness auto
termination
  by (relation "measure (\<lambda>(ws, s). length s)") (auto dest!: leading_Some)

declare drop_leading.simps [simp del]

lemma drop_leading_id: "leading ws s = None \<Longrightarrow> drop_leading ws s = s"
  by (subst drop_leading.simps) simp

lemma leading_drop_leading: "leading ws (drop_leading ws s) = None"
proof (induction ws s rule: drop_leading.induct)
  case (1 ws s)
  then show ?case by (subst drop_leading.simps) (auto split: option.split)
qed

lemma drop_leading_suffix: "\<exists>p. s = p @ drop_leading ws s"
proof (induction ws s rule: drop_leading.induct)
  case (1 ws s)
  show ?case
  proof (cases "leading ws s")
    case None
    then show ?thesis by (simp add: drop_leading_id)
  next
    case (Some w)
    with 1 obtain p where "drop (length w) s = p @ drop_leading ws (drop (length w) s)" by blast
    with Some have "s = (take (length w) s @ p) @ drop_leading ws s"
      by (subst drop_leading.simps) (metis append.assoc append_take_drop_id option.simps(5))
    then show ?thesis by blast
  qed
qed

definition trim_left :: "string \<Rightarrow> string" where
  "trim_left s = drop_leading white_space s"

definition trim_right :: "string \<Rightarrow> string" where
  "trim_right s = rev (drop_leading (map rev white_space) (rev s))"

text \<open>\<open>strings.TrimSpace\<close>.\<close>

definition trim_space :: "string \<Rightarrow> string" where
  "trim_space s = trim_right (trim_left s)"

lemma trim_right_prefix: "\<exists>p. s = trim_right s @ p"
proof -
  obtain p where "rev s = p @ drop_leading (map rev white_space) (rev s)"
    using drop_leading_suffix by blast
  then have "s = trim_right s @ rev p" unfolding trim_right_def
    by (metis rev_append rev_rev_ident)
  then show ?thesis by blast
qed

lemma trim_space_idem [simp]: "trim_space (trim_space s) = trim_space s"
proof -
  let ?l = "trim_left s" and ?t = "trim_space s"
  obtain p where p: "?l = ?t @ p" using trim_right_prefix by (auto simp: trim_space_def)
  have "leading white_space ?l = None" by (simp add: trim_left_def leading_drop_leading)
  then have "leading white_space ?t = None" unfolding p by (rule leading_None_append)
  then have "trim_left ?t = ?t" by (simp add: trim_left_def drop_leading_id)
  moreover have "trim_right ?t = ?t"
    by (simp add: trim_space_def trim_right_def drop_leading_id leading_drop_leading)
  ultimately show ?thesis by (simp add: trim_space_def)
qed

lemma trim_space_Nil [simp]: "trim_space [] = []"
  by (simp add: trim_space_def trim_left_def trim_right_def drop_leading_id leading_def
      white_space_def)

text \<open>A string of visible ASCII characters has nothing to trim.\<close>

definition visible :: "char \<Rightarrow> bool" where
  "visible c = (33 \<le> (of_char c :: nat) \<and> (of_char c :: nat) \<le> 126)"

lemma white_space_not_visible:
  "w \<in> set white_space \<Longrightarrow> w \<noteq> [] \<and> \<not> visible (hd w) \<and> \<not> visible (last w)"
  by (auto simp: white_space_def visible_def)

lemma leading_None_hd:
  assumes "\<And>w. w \<in> set ws \<Longrightarrow> w \<noteq> [] \<and> \<not> P (hd w)" and "s \<noteq> [] \<longrightarrow> P (hd s)"
  shows "leading ws s = None"
  unfolding leading_def find_None_iff
proof
  assume "\<exists>w. w \<in> set ws \<and> w \<noteq> [] \<and> take (length w) s = w"
  then obtain w where w: "w \<in> set ws" "w \<noteq> []" "take (length w) s = w" by blast
  then have "s \<noteq> []" and "hd w = hd s"
    by (auto, metis append_take_drop_id hd_append2)
  with assms w show False by metis
qed

lemma trim_space_visible_ends:
  assumes "s \<noteq> [] \<longrightarrow> visible (hd s) \<and> visible (last s)"
  shows "trim_space s = s"
proof -
  have "leading white_space s = None"
    using assms by (intro leading_None_hd [where P = visible]) (auto dest: white_space_not_visible)
  then have l: "trim_left s = s" by (simp add: trim_left_def drop_leading_id)
  have "leading (map rev white_space) (rev s) = None"
    using assms by (intro leading_None_hd [where P = visible])
      (auto dest: white_space_not_visible simp: hd_rev)
  then have "trim_right s = s" by (simp add: trim_right_def drop_leading_id)
  with l show ?thesis by (simp add: trim_space_def)
qed

text \<open>Trimming never removes a visible character.\<close>

lemma drop_leading_keeps:
  assumes "\<And>w c. w \<in> set ws \<Longrightarrow> c \<in> set w \<Longrightarrow> \<not> P c"
  shows "P c \<Longrightarrow> c \<in> set s \<Longrightarrow> c \<in> set (drop_leading ws s)"
  using assms
proof (induction ws s rule: drop_leading.induct)
  case (1 ws s)
  show ?case
  proof (cases "leading ws s")
    case None
    with 1 show ?thesis by (simp add: drop_leading_id)
  next
    case (Some w)
    note w = leading_Some [OF Some]
    have "set s = set (take (length w) s) \<union> set (drop (length w) s)"
      by (metis append_take_drop_id set_append)
    with w 1 have "c \<in> set (drop (length w) s)" by auto
    with 1 Some show ?thesis by (subst drop_leading.simps) simp
  qed
qed

lemma white_space_chars: "w \<in> set white_space \<Longrightarrow> c \<in> set w \<Longrightarrow> \<not> visible c"
  by (auto simp: white_space_def visible_def)

lemma trim_space_keeps: "visible c \<Longrightarrow> c \<in> set s \<Longrightarrow> c \<in> set (trim_space s)"
proof -
  assume v: "visible c" and "c \<in> set s"
  then have "c \<in> set (drop_leading white_space s)"
    by (rule drop_leading_keeps [where P = visible, rotated]) (rule white_space_chars)
  then have "c \<in> set (rev (drop_leading white_space s))" by simp
  with v have "c \<in> set (drop_leading (map rev white_space) (rev (drop_leading white_space s)))"
    by (rule drop_leading_keeps [where P = visible, rotated]) (auto dest: white_space_chars)
  then show ?thesis by (simp add: trim_space_def trim_right_def trim_left_def)
qed

lemma trim_space_visible: "(\<And>c. c \<in> set s \<Longrightarrow> visible c) \<Longrightarrow> trim_space s = s"
  by (rule trim_space_visible_ends) auto

section \<open>Case conversion\<close>

definition lower_char :: "char \<Rightarrow> char" where
  "lower_char c =
     (let n = (of_char c :: nat) in if 65 \<le> n \<and> n \<le> 90 then char_of (n + 32) else c)"

definition upper_char :: "char \<Rightarrow> char" where
  "upper_char c =
     (let n = (of_char c :: nat) in if 97 \<le> n \<and> n \<le> 122 then char_of (n - 32) else c)"

text \<open>
  \<open>strings.ToLower\<close>.  U+0130 (bytes C4 B0) lowers to \<open>i\<close> and U+212A (E2 84 AA) to \<open>k\<close>: the only
  characters outside ASCII whose lower case is ASCII.
\<close>

function to_lower :: "string \<Rightarrow> string" where
  "to_lower [] = []"
| "to_lower (c # s) =
     (if c = CHR 0xC4 \<and> take 1 s = [CHR 0xB0] then CHR ''i'' # to_lower (drop 1 s)
      else if c = CHR 0xE2 \<and> take 2 s = [CHR 0x84, CHR 0xAA] then CHR ''k'' # to_lower (drop 2 s)
      else lower_char c # to_lower s)"
  by pat_completeness auto
termination
  by (relation "measure length") auto

text \<open>\<open>strings.ToUpper\<close> on ASCII, for comparison with ASCII prefixes.\<close>

definition to_upper :: "string \<Rightarrow> string" where
  "to_upper s = map upper_char s"

text \<open>\<open>strings.EqualFold\<close> with an ASCII word that has no \<open>k\<close> and no \<open>s\<close>.\<close>

definition equal_fold :: "string \<Rightarrow> string \<Rightarrow> bool" where
  "equal_fold s t = (map lower_char s = map lower_char t)"

lemma lower_char_visible: "visible c \<Longrightarrow> visible (lower_char c)"
  by (auto simp: visible_def lower_char_def Let_def)

lemma visible_not_lead: "visible c \<Longrightarrow> c \<noteq> CHR 0xC4 \<and> c \<noteq> CHR 0xE2"
  by (auto simp: visible_def)

lemma to_lower_ascii: "(\<And>c. c \<in> set s \<Longrightarrow> visible c) \<Longrightarrow> to_lower s = map lower_char s"
proof (induction s)
  case (Cons c s)
  then have "c \<noteq> CHR 0xC4" and "c \<noteq> CHR 0xE2"
    using visible_not_lead [of c] by simp_all
  with Cons show ?case by (simp only: to_lower.simps) simp
qed simp

section \<open>Prefixes, searching, splitting and joining\<close>

definition has_prefix :: "string \<Rightarrow> string \<Rightarrow> bool" where
  "has_prefix s p = (take (length p) s = p)"

definition has_suffix :: "string \<Rightarrow> string \<Rightarrow> bool" where
  "has_suffix s p = has_prefix (rev s) (rev p)"

definition trim_prefix :: "string \<Rightarrow> string \<Rightarrow> string" where
  "trim_prefix s p = (if has_prefix s p then drop (length p) s else s)"

text \<open>\<open>strings.Contains\<close>.\<close>

fun contains :: "string \<Rightarrow> string \<Rightarrow> bool" where
  "contains [] p = has_prefix [] p"
| "contains (c # s) p = (has_prefix (c # s) p \<or> contains s p)"

text \<open>\<open>s[:strings.IndexAny(s, cs)]\<close> when there is such an index, else \<open>s\<close>.\<close>

definition cut_any :: "char list \<Rightarrow> string \<Rightarrow> string" where
  "cut_any cs s = takeWhile (\<lambda>c. c \<notin> set cs) s"

text \<open>\<open>strings.TrimRight\<close> with a one-character cut set.\<close>

definition trim_right_char :: "char \<Rightarrow> string \<Rightarrow> string" where
  "trim_right_char c s = rev (dropWhile (\<lambda>x. x = c) (rev s))"

text \<open>\<open>strings.Split\<close> and \<open>strings.SplitN\<close> (for \<open>n > 0\<close>) with a one-character separator.\<close>

fun split_on :: "char \<Rightarrow> string \<Rightarrow> string list" where
  "split_on c [] = [[]]"
| "split_on c (x # xs) =
     (if x = c then [] # split_on c xs
      else (case split_on c xs of [] \<Rightarrow> [[x]] | y # ys \<Rightarrow> (x # y) # ys))"

fun split_n :: "nat \<Rightarrow> char \<Rightarrow> string \<Rightarrow> string list" where
  "split_n 0 c s = []"
| "split_n (Suc 0) c s = [s]"
| "split_n (Suc (Suc n)) c s =
     (let a = takeWhile (\<lambda>x. x \<noteq> c) s; r = dropWhile (\<lambda>x. x \<noteq> c) s
      in (case r of [] \<Rightarrow> [a] | _ # t \<Rightarrow> a # split_n (Suc n) c t))"

text \<open>\<open>strings.Join\<close>.\<close>

fun join :: "string \<Rightarrow> string list \<Rightarrow> string" where
  "join sep [] = []"
| "join sep [x] = x"
| "join sep (x # y # ys) = x @ sep @ join sep (y # ys)"

lemma split_on_nonempty [simp]: "split_on c s \<noteq> []"
  by (cases s) (auto split: list.split)

lemma join_split_on: "join [c] (split_on c s) = s"
proof (induction s)
  case (Cons x s)
  obtain y ys where e: "split_on c s = y # ys" by (cases "split_on c s") auto
  with Cons show ?case by (cases ys) auto
qed simp

lemma split_on_none: "c \<notin> set s \<Longrightarrow> split_on c s = [s]"
  by (induction s) auto

lemma split_on_append: "c \<notin> set a \<Longrightarrow> split_on c (a @ c # s) = a # split_on c s"
  by (induction a) auto

lemma split_on_join:
  assumes "xs \<noteq> []" and "\<And>x. x \<in> set xs \<Longrightarrow> c \<notin> set x"
  shows "split_on c (join [c] xs) = xs"
  using assms
proof (induction xs rule: induct_list012)
  case (3 x y zs)
  then show ?case by (simp add: split_on_append)
qed (auto simp: split_on_none)

lemma split_n_append:
  assumes "c \<notin> set a"
  shows "split_n (Suc (Suc n)) c (a @ c # s) = a # split_n (Suc n) c s"
proof -
  have "\<And>x. x \<in> set a \<Longrightarrow> x \<noteq> c" using assms by blast
  then show ?thesis by (simp add: takeWhile_append2 dropWhile_append2 Let_def)
qed

section \<open>Decimal numerals\<close>

definition digit_char :: "nat \<Rightarrow> char" where
  "digit_char d = char_of (48 + d)"

definition is_digit :: "char \<Rightarrow> bool" where
  "is_digit c = (48 \<le> (of_char c :: nat) \<and> (of_char c :: nat) \<le> 57)"

definition digit_val :: "char \<Rightarrow> nat" where
  "digit_val c = of_char c - 48"

fun show_nat :: "nat \<Rightarrow> string" where
  "show_nat n =
     (if n < 10 then [digit_char n] else show_nat (n div 10) @ [digit_char (n mod 10)])"

declare show_nat.simps [simp del]

text \<open>\<open>strconv.Itoa\<close>.\<close>

definition itoa :: "int \<Rightarrow> string" where
  "itoa n = (if n < 0 then CHR ''-'' # show_nat (nat (- n)) else show_nat (nat n))"

definition digits_val :: "string \<Rightarrow> nat" where
  "digits_val s = foldl (\<lambda>a c. 10 * a + digit_val c) 0 s"

text \<open>
  \<open>strconv.Atoi\<close> (base 10, 64 bits): \<open>None\<close> is the error, a syntax error or a value out of the
  range of \<open>int64\<close>.
\<close>

definition atoi :: "string \<Rightarrow> int option" where
  "atoi s =
     (let neg = (take 1 s = ''-'');
          ds = (if take 1 s = ''-'' \<or> take 1 s = ''+'' then drop 1 s else s);
          v = (if neg then - int (digits_val ds) else int (digits_val ds))
      in if ds = [] \<or> \<not> list_all is_digit ds then None
         else if - (2 ^ 63) \<le> v \<and> v < 2 ^ 63 then Some v else None)"

text \<open>\<open>strconv.ParseBool\<close>.\<close>

definition parse_bool :: "string \<Rightarrow> bool option" where
  "parse_bool s =
     (if s \<in> {''1'', ''t'', ''T'', ''TRUE'', ''true'', ''True''} then Some True
      else if s \<in> {''0'', ''f'', ''F'', ''FALSE'', ''false'', ''False''} then Some False
      else None)"

lemma digit_char_props:
  assumes "d < 10"
  shows "is_digit (digit_char d)" and "digit_val (digit_char d) = d" and "visible (digit_char d)"
  using assms by (simp_all add: is_digit_def digit_val_def digit_char_def visible_def)

lemma show_nat_digits: "list_all is_digit (show_nat n)"
proof (induction n rule: show_nat.induct)
  case (1 n)
  then show ?case by (subst show_nat.simps) (auto simp: digit_char_props)
qed

lemma show_nat_nonempty [simp]: "show_nat n \<noteq> []"
  by (subst show_nat.simps) simp

lemma digits_val_show_nat [simp]: "digits_val (show_nat n) = n"
proof (induction n rule: show_nat.induct)
  case (1 n)
  then show ?case by (subst show_nat.simps) (auto simp: digits_val_def digit_char_props)
qed

lemma show_nat_inject [simp]: "show_nat m = show_nat n \<longleftrightarrow> m = n"
  by (metis digits_val_show_nat)

lemma is_digit_visible: "is_digit c \<Longrightarrow> visible c"
  by (simp add: is_digit_def visible_def)

lemma show_nat_visible: "c \<in> set (show_nat n) \<Longrightarrow> is_digit c"
  using show_nat_digits [of n] by (simp add: list_all_iff)

lemma not_digit_sign: "\<not> is_digit (CHR ''-'')" "\<not> is_digit (CHR ''+'')" "\<not> is_digit (CHR ''|'')"
  by (simp_all add: is_digit_def)

lemma show_nat_hd: "take 1 (show_nat n) \<noteq> ''-''" "take 1 (show_nat n) \<noteq> ''+''"
  using show_nat_visible [of "hd (show_nat n)" n] not_digit_sign
  by (cases "show_nat n"; force)+

lemma show_nat_no_sign [simp]:
  "CHR ''-'' # s \<noteq> show_nat n" "show_nat n \<noteq> CHR ''-'' # s"
  using show_nat_hd(1) [of n] by (metis One_nat_def take0 take_Suc_Cons)+

lemma itoa_inject [simp]: "itoa m = itoa n \<longleftrightarrow> m = n"
  by (auto simp: itoa_def split: if_splits)

lemma itoa_no_bar: "CHR ''|'' \<notin> set (itoa n)"
  using show_nat_visible [of "CHR ''|''"] not_digit_sign by (auto simp: itoa_def)

text \<open>Printing and parsing back an \<open>int64\<close>.\<close>

lemma atoi_itoa:
  assumes "- (2 ^ 63) \<le> n" and "n < 2 ^ 63"
  shows "atoi (itoa n) = Some n"
proof (cases "n < 0")
  case True
  with assms show ?thesis
    by (simp add: atoi_def itoa_def Let_def show_nat_digits)
next
  case False
  with assms show ?thesis
    using show_nat_hd [of "nat n"] by (simp add: atoi_def itoa_def Let_def show_nat_digits)
qed

lemma atoi_range: "atoi s = Some n \<Longrightarrow> - (2 ^ 63) \<le> n \<and> n < 2 ^ 63"
  by (auto simp: atoi_def Let_def split: if_splits)

text \<open>The zero-padded numerals of \<open>time.Format\<close>: at least \<open>w\<close> digits.\<close>

definition pad_nat :: "nat \<Rightarrow> nat \<Rightarrow> string" where
  "pad_nat w n = replicate (w - length (show_nat n)) (CHR ''0'') @ show_nat n"

lemma digits_val_zeros: "digits_val (replicate k (CHR ''0'') @ s) = digits_val s"
proof -
  have "foldl (\<lambda>a c. 10 * a + digit_val c) 0 (replicate k (CHR ''0'')) = 0"
    by (induction k) (simp_all add: digit_val_def)
  then show ?thesis by (simp add: digits_val_def)
qed

lemma pad_nat_inject [simp]: "pad_nat w m = pad_nat w n \<longleftrightarrow> m = n"
  by (metis digits_val_show_nat digits_val_zeros pad_nat_def)

lemma pad_nat_digit: "c \<in> set (pad_nat w n) \<Longrightarrow> is_digit c"
  by (auto simp: pad_nat_def is_digit_def dest!: show_nat_visible)

end
