(* ===== verification/Go_Time.thy ===== *)
theory Go_Time
  imports Go_Float Go_Strings "HOL-Library.Signed_Division"
begin

text \<open>
  The part of Go's \<open>time\<close> package the program uses.  An instant is the number of nanoseconds
  since the Unix epoch (UTC); a duration is an \<open>int64\<close> number of nanoseconds.  \<open>Time.Sub\<close>
  saturates at the ends of the duration range; \<open>Duration.Hours\<close> is a \<open>float64\<close>; the two
  layouts in use (RFC3339Nano and \<open>2006-01-02\<close>) print the proleptic Gregorian calendar.
\<close>

type_synonym time = int
type_synonym duration = int

definition Second :: duration where "Second = 1000000000"

definition Minute :: duration where "Minute = 60 * Second"

definition Hour :: duration where "Hour = 60 * Minute"

definition time_add :: "time \<Rightarrow> duration \<Rightarrow> time" where
  "time_add t d = t + d"

text \<open>\<open>t.Sub(u)\<close>, saturating at \<open>math.MinInt64\<close> and \<open>math.MaxInt64\<close> nanoseconds.\<close>

definition time_sub :: "time \<Rightarrow> time \<Rightarrow> duration" where
  "time_sub t u = max (- (2 ^ 63)) (min (2 ^ 63 - 1) (t - u))"

definition time_after :: "time \<Rightarrow> time \<Rightarrow> bool" where
  "time_after t u = (u < t)"

text \<open>\<open>d.Hours()\<close> and \<open>d.Seconds()\<close>: whole part plus fraction, both as floats.\<close>

definition duration_in :: "duration \<Rightarrow> duration \<Rightarrow> f64" where
  "duration_in unit d =
     f64_of_int (d sdiv unit) + f64_div (f64_of_int (d smod unit)) (f64_of_int unit)"

definition duration_hours :: "duration \<Rightarrow> f64" where
  "duration_hours d = duration_in Hour d"

definition duration_seconds :: "duration \<Rightarrow> f64" where
  "duration_seconds d = duration_in Second d"

section \<open>The calendar and the layouts\<close>

text \<open>Year, month and day of a day number counted from the epoch.\<close>

definition civil_of_days :: "int \<Rightarrow> int \<times> int \<times> int" where
  "civil_of_days days =
     (let z = days + 719468;
          era = z div 146097;
          doe = z mod 146097;
          yoe = (doe - doe div 1460 + doe div 36524 - doe div 146096) div 365;
          doy = doe - (365 * yoe + yoe div 4 - yoe div 100);
          mp = (5 * doy + 2) div 153;
          d = doy - (153 * mp + 2) div 5 + 1;
          m = (if mp < 10 then mp + 3 else mp - 9);
          y = yoe + era * 400 + (if m \<le> 2 then 1 else 0)
      in (y, m, d))"

definition pad_int :: "nat \<Rightarrow> int \<Rightarrow> string" where
  "pad_int w n = (if n < 0 then CHR ''-'' # pad_nat w (nat (- n)) else pad_nat w (nat n))"

text \<open>\<open>t.Unix()\<close>.\<close>

definition unix_seconds :: "time \<Rightarrow> int" where
  "unix_seconds t = t div Second"

text \<open>\<open>t.Format("2006-01-02")\<close>.\<close>

definition format_date :: "time \<Rightarrow> string" where
  "format_date t =
     (let (y, m, d) = civil_of_days (unix_seconds t div 86400)
      in pad_int 4 y @ ''-'' @ pad_int 2 m @ ''-'' @ pad_int 2 d)"

definition format_clock :: "time \<Rightarrow> string" where
  "format_clock t =
     (let s = unix_seconds t mod 86400
      in pad_int 2 (s div 3600) @ '':'' @ pad_int 2 (s mod 3600 div 60) @ '':''
           @ pad_int 2 (s mod 60))"

text \<open>The fraction \<open>.999999999\<close> drops trailing zeros, and the point when nothing is left.\<close>

definition format_frac :: "nat \<Rightarrow> string" where
  "format_frac n = (if n = 0 then [] else CHR ''.'' # trim_right_char (CHR ''0'') (pad_nat 9 n))"

text \<open>\<open>t.UTC().Format(time.RFC3339Nano)\<close>.\<close>

definition rfc3339nano :: "time \<Rightarrow> string" where
  "rfc3339nano t =
     format_date t @ ''T'' @ format_clock t @ format_frac (nat (t mod Second)) @ ''Z''"

subsection \<open>Timestamps contain no separator, and nanoseconds are legible\<close>

lemma pad_int_no_bar: "CHR ''|'' \<notin> set (pad_int w n)"
  using pad_nat_digit [of "CHR ''|''"] not_digit_sign by (auto simp: pad_int_def)

lemma trim_right_char_subset: "set (trim_right_char c s) \<subseteq> set s"
  using set_dropWhileD [of _ _ "rev s"] by (fastforce simp: trim_right_char_def)

lemma format_frac_no_bar: "CHR ''|'' \<notin> set (format_frac n)"
  using pad_nat_digit [of "CHR ''|''" 9 n] not_digit_sign trim_right_char_subset
  by (auto simp: format_frac_def)

lemma rfc3339nano_no_bar: "CHR ''|'' \<notin> set (rfc3339nano t)"
  by (simp add: rfc3339nano_def format_date_def format_clock_def Let_def pad_int_no_bar
      format_frac_no_bar split: prod.split)

lemma length_show_nat: "n < 10 ^ Suc k \<Longrightarrow> length (show_nat n) \<le> Suc k"
proof (induction k arbitrary: n)
  case 0
  then show ?case by (subst show_nat.simps) simp
next
  case (Suc k)
  then have "n div 10 < 10 ^ Suc k" by simp
  then have "length (show_nat (n div 10)) \<le> Suc k" by (rule Suc.IH)
  then show ?case by (subst show_nat.simps) simp
qed

lemma length_pad_nat: "n < 10 ^ Suc k \<Longrightarrow> length (pad_nat (Suc k) n) = Suc k"
  using length_show_nat [of n k] by (simp add: pad_nat_def)

lemma trim_right_char_decomp: "\<exists>k. s = trim_right_char c s @ replicate k c"
proof -
  have "rev s = takeWhile (\<lambda>x. x = c) (rev s) @ dropWhile (\<lambda>x. x = c) (rev s)" by simp
  moreover have "takeWhile (\<lambda>x. x = c) (rev s) = replicate (length (takeWhile (\<lambda>x. x = c) (rev s))) c"
    by (metis (full_types) replicate_length_same set_takeWhileD)
  ultimately have "s = trim_right_char c s @ replicate (length (takeWhile (\<lambda>x. x = c) (rev s))) c"
    unfolding trim_right_char_def by (metis rev_append rev_replicate rev_rev_ident)
  then show ?thesis by blast
qed

lemma trim_right_char_inject:
  assumes "length a = length b" and "trim_right_char c a = trim_right_char c b"
  shows "a = b"
proof -
  obtain i j where a: "a = trim_right_char c a @ replicate i c"
    and b: "b = trim_right_char c b @ replicate j c"
    using trim_right_char_decomp by metis
  have "i = j" using assms arg_cong [OF a, of length] arg_cong [OF b, of length] by simp
  with a b assms show ?thesis by metis
qed

lemma format_frac_inject:
  assumes "m < 10 ^ 9" and "n < 10 ^ 9" and "format_frac m = format_frac n"
  shows "m = n"
proof (cases "m = 0 \<or> n = 0")
  case True
  with assms(3) show ?thesis by (auto simp: format_frac_def split: if_splits)
next
  case False
  with assms(3) have "trim_right_char (CHR ''0'') (pad_nat 9 m) = trim_right_char (CHR ''0'') (pad_nat 9 n)"
    by (simp add: format_frac_def)
  moreover have "length (pad_nat 9 m) = length (pad_nat 9 n)"
    using assms length_pad_nat [of m 8] length_pad_nat [of n 8] by simp
  ultimately have "pad_nat 9 m = pad_nat 9 n" by (rule trim_right_char_inject [rotated])
  then show ?thesis by simp
qed

text \<open>Two instants of the same second print differently.\<close>

lemma rfc3339nano_same_second:
  assumes "unix_seconds t = unix_seconds u" and "rfc3339nano t = rfc3339nano u"
  shows "t = u"
proof -
  have S: "t = Second * (t div Second) + t mod Second" "u = Second * (t div Second) + u mod Second"
    using assms(1) unfolding unix_seconds_def by (metis mult_div_mod_eq)+
  have b: "0 \<le> t mod Second" "t mod Second < Second" "0 \<le> u mod Second" "u mod Second < Second"
    by (simp_all add: Second_def)
  have "format_frac (nat (t mod Second)) = format_frac (nat (u mod Second))"
    using assms by (simp add: rfc3339nano_def format_date_def format_clock_def)
  then have "nat (t mod Second) = nat (u mod Second)"
    using b by (intro format_frac_inject) (simp_all add: Second_def nat_less_iff)
  with b S show ?thesis by (metis eq_nat_nat_iff)
qed

subsection \<open>Timestamps are injective\<close>

text \<open>
  The calendar computation can be undone.  \<open>days_before y\<close> counts the days of an era before its year
  \<open>y\<close>; the year the code computes from a day is the one the day lies in, because the estimate
  \<open>year_days\<close> is monotone and right at the ends of every year.
\<close>

definition days_before :: "int \<Rightarrow> int" where
  "days_before y = 365 * y + y div 4 - y div 100 + y div 400"

definition year_days :: "int \<Rightarrow> int" where
  "year_days doe = doe - doe div 1460 + doe div 36524 - doe div 146096"

lemma year_days_step:
  assumes "0 \<le> x" and "x < 146096"
  shows "year_days x \<le> year_days (x + 1)"
proof (cases "x = 146095")
  case True
  then show ?thesis by (simp add: year_days_def)
next
  case False
  with assms have e: "x div 146096 = 0" "(x + 1) div 146096 = 0" by simp_all
  have "(x + 1) div 1460 \<le> (x + 1460) div 1460" by (rule zdiv_mono1) simp_all
  then have "(x + 1) div 1460 \<le> x div 1460 + 1" by simp
  moreover have "x div 36524 \<le> (x + 1) div 36524" by (rule zdiv_mono1) simp_all
  ultimately show ?thesis unfolding year_days_def e by linarith
qed

lemma year_days_mono:
  assumes "0 \<le> x" and "x \<le> y" and "y < 146097"
  shows "year_days x \<le> year_days y"
  using assms(2,3,1)
proof (induction rule: int_ge_induct)
  case (step i)
  then show ?case using year_days_step [of i] by linarith
qed simp

lemma year_ends:
  "list_all (\<lambda>y. 365 * y \<le> year_days (days_before y) \<and>
                 year_days (days_before (y + 1) - 1) < 365 * (y + 1)) (map int [0..<400])"
  unfolding days_before_def year_days_def by code_simp

lemma year_starts:
  "list_all (\<lambda>y. days_before (y + 1) \<le> 146097 \<and> days_before (y + 1) \<le> days_before y + 366) (map int [0..<400])"
  unfolding days_before_def by code_simp

lemma year_of_day:
  assumes "0 \<le> doe" and "doe < 146097"
  shows "0 \<le> year_days doe div 365" and "year_days doe div 365 < 400"
    and "days_before (year_days doe div 365) \<le> doe"
    and "doe < days_before (year_days doe div 365 + 1)"
proof -
  have "\<exists>y < n. days_before (int y) \<le> doe \<and> doe < days_before (int y + 1)"
    if "doe < days_before (int n)" for n
    using that
  proof (induction n)
    case 0
    with assms show ?case by (simp add: days_before_def)
  next
    case (Suc n)
    then show ?case by (cases "doe < days_before (int n)") (auto simp: less_Suc_eq algebra_simps)
  qed
  moreover have "doe < days_before (int 400)" using assms(2) by (simp add: days_before_def)
  ultimately obtain y where y: "y < 400" "days_before (int y) \<le> doe" "doe < days_before (int y + 1)"
    by blast
  have b: "0 \<le> days_before (int y)" by (simp add: days_before_def)
  have "int y \<in> set (map int [0..<400])" using y(1) by auto
  with year_ends have e: "365 * int y \<le> year_days (days_before (int y))"
    "year_days (days_before (int y + 1) - 1) < 365 * (int y + 1)"
    by (auto simp: list_all_iff)
  have "days_before (int y + 1) \<le> 146097"
    using year_starts \<open>int y \<in> set (map int [0..<400])\<close> unfolding list_all_iff by blast
  then have "365 * int y \<le> year_days doe" "year_days doe < 365 * (int y + 1)"
    using year_days_mono [OF b y(2) assms(2)] year_days_mono [of doe "days_before (int y + 1) - 1"] y assms e
    by linarith+
  then have "year_days doe div 365 = int y" 
    by (intro int_div_pos_eq [where r = "year_days doe - 365 * int y"]) simp_all
  with y show "0 \<le> year_days doe div 365" "year_days doe div 365 < 400"
    "days_before (year_days doe div 365) \<le> doe" "doe < days_before (year_days doe div 365 + 1)"
    by simp_all
qed

lemma days_before_year_length:
  assumes "0 \<le> y" and "y < 400"
  shows "days_before (y + 1) \<le> days_before y + 366"
proof -
  have "y = int (nat y)" "nat y < 400" using assms by auto
  then have "y \<in> set (map int [0..<400])" by (metis atLeastLessThan_iff bot_nat_0.extremum imageI set_map set_upt)
  with year_starts show ?thesis unfolding list_all_iff by blast
qed

definition days_of_civil :: "int \<times> int \<times> int \<Rightarrow> int" where
  "days_of_civil c =
     (let (y, m, d) = c;
          y' = (if m \<le> 2 then y - 1 else y);
          mp = (if m > 2 then m - 3 else m + 9)
      in 146097 * (y' div 400) + days_before (y' mod 400) + (153 * mp + 2) div 5 + d - 1 - 719468)"

lemma days_of_civil_of_days: "days_of_civil (civil_of_days n) = n"
proof -
  define z where "z = n + 719468"
  define doe where "doe = z mod 146097"
  define yoe where "yoe = year_days doe div 365"
  define doy where "doy = doe - days_before yoe"
  define mp where "mp = (5 * doy + 2) div 153"
  have z: "z = 146097 * (z div 146097) + doe" and doe: "0 \<le> doe" "doe < 146097"
    by (simp_all add: doe_def)
  note y = year_of_day [OF doe, folded yoe_def]
  have doy: "0 \<le> doy" "doy \<le> 365"
    using y(3,4) days_before_year_length [OF y(1,2)] by (simp_all add: doy_def)
  have mp: "0 \<le> mp" "mp \<le> 11"
    using doy zdiv_mono1 [of "5 * doy + 2" 1827 153] by (simp_all add: mp_def pos_imp_zdiv_nonneg_iff)
  have db: "days_before yoe = 365 * yoe + yoe div 4 - yoe div 100"
    using y(1,2) by (simp add: days_before_def)
  have yy: "(yoe + z div 146097 * 400) div 400 = z div 146097" "(yoe + z div 146097 * 400) mod 400 = yoe"
    using y(1,2) by simp_all
  have c: "civil_of_days n =
      (yoe + z div 146097 * 400 + (if mp < 10 then 0 else 1), (if mp < 10 then mp + 3 else mp - 9),
       doy - (153 * mp + 2) div 5 + 1)"
    using mp unfolding civil_of_days_def Let_def
    unfolding z_def [symmetric] doe_def [symmetric] year_days_def [symmetric] yoe_def [symmetric]
      db [symmetric] doy_def [symmetric] mp_def [symmetric]
    by auto
  have "days_of_civil (civil_of_days n) = 146097 * (z div 146097) + doe - 719468"
    using mp y(1,2) unfolding c days_of_civil_def by (simp add: Let_def yy doy_def add.commute)
  also have "\<dots> = n" using z by (simp add: z_def)
  finally show ?thesis .
qed

lemma civil_of_days_inject: "civil_of_days m = civil_of_days n \<Longrightarrow> m = n"
  by (metis days_of_civil_of_days)

text \<open>Digits up to a separator.\<close>

lemma digits_sep:
  assumes "list_all is_digit a" "list_all is_digit b" "\<not> is_digit c" "\<not> is_digit d"
    and "a @ c # s = b @ d # t"
  shows "a = b \<and> c # s = d # t"
proof -
  have "takeWhile is_digit (a @ c # s) = a" "takeWhile is_digit (b @ d # t) = b"
    using assms(1-4) by (simp_all add: takeWhile_append2 list_all_iff)
  with assms(5) have "a = b" by metis
  with assms(5) show ?thesis by simp
qed

lemma pad_nat_digits: "list_all is_digit (pad_nat w n)"
  using pad_nat_digit by (auto simp: list_all_iff)

lemma pad_int_sep:
  assumes "\<not> is_digit c" and "\<not> is_digit d" and "pad_int w m @ c # s = pad_int w n @ d # t"
  shows "m = n \<and> c # s = d # t"
proof -
  have h: "pad_nat w k \<noteq> []" "hd (pad_nat w k) \<noteq> CHR ''-''" for k
  proof -
    show "pad_nat w k \<noteq> []" by (simp add: pad_nat_def)
    then have "is_digit (hd (pad_nat w k))" using pad_nat_digit [of _ w k] by simp
    then show "hd (pad_nat w k) \<noteq> CHR ''-''" using not_digit_sign by metis
  qed
  have "pad_nat w k @ c # s \<noteq> CHR ''-'' # x" "CHR ''-'' # x \<noteq> pad_nat w k @ d # t" for k x
    using h [of k] by (metis hd_append2 list.sel(1))+
  with assms show ?thesis
    by (auto simp: pad_int_def dest!: digits_sep [OF pad_nat_digits pad_nat_digits assms(1,2)]
        split: if_splits)
qed

lemma format_frac_head: "\<exists>c s. format_frac n @ ''Z'' = c # s \<and> \<not> is_digit c"
  by (auto simp: format_frac_def is_digit_def)

lemma rfc3339nano_seconds:
  assumes "rfc3339nano t = rfc3339nano u"
  shows "unix_seconds t = unix_seconds u"
proof -
  let ?s = unix_seconds
  obtain ct st cu su where f: "format_frac (nat (t mod Second)) @ ''Z'' = ct # st" "\<not> is_digit ct"
      "format_frac (nat (u mod Second)) @ ''Z'' = cu # su" "\<not> is_digit cu"
    using format_frac_head by metis
  obtain y m d where ct: "civil_of_days (?s t div 86400) = (y, m, d)" by (cases "civil_of_days (?s t div 86400)")
  obtain y' m' d' where cu: "civil_of_days (?s u div 86400) = (y', m', d')" by (cases "civil_of_days (?s u div 86400)")
  have nd: "\<not> is_digit (CHR ''-'')" "\<not> is_digit (CHR '':'')" "\<not> is_digit (CHR ''T'')"
    by (simp_all add: is_digit_def)
  note sep = pad_int_sep [OF nd(1) nd(1)] pad_int_sep [OF nd(2) nd(2)] pad_int_sep [OF nd(3) nd(3)]
    pad_int_sep [OF f(2) f(4)]
  define h where "h t = ?s t mod 86400" for t
  have "pad_int 4 y @ CHR ''-'' # pad_int 2 m @ CHR ''-'' # pad_int 2 d @ CHR ''T'' #
        pad_int 2 (h t div 3600) @ CHR '':'' # pad_int 2 (h t mod 3600 div 60) @ CHR '':'' #
        pad_int 2 (?s t mod 60) @ ct # st =
        pad_int 4 y' @ CHR ''-'' # pad_int 2 m' @ CHR ''-'' # pad_int 2 d' @ CHR ''T'' #
        pad_int 2 (h u div 3600) @ CHR '':'' # pad_int 2 (h u mod 3600 div 60) @ CHR '':'' #
        pad_int 2 (?s u mod 60) @ cu # su"
    using assms f(1,3) unfolding rfc3339nano_def format_date_def format_clock_def ct cu h_def
    by (simp add: Let_def mod_mod_cancel)
  then have e: "(y, m, d) = (y', m', d')" "h t div 3600 = h u div 3600"
    "h t mod 3600 div 60 = h u mod 3600 div 60" "?s t mod 60 = ?s u mod 60"
    by (auto dest!: sep)
  have "?s t div 86400 = ?s u div 86400" using e(1) ct cu by (metis civil_of_days_inject)
  moreover have "h t = h u"
  proof -
    have "x = 3600 * (x div 3600) + 60 * (x mod 3600 div 60) + x mod 60" for x :: int
    proof -
      have "x mod 3600 mod 60 = x mod 60" by (simp add: mod_mod_cancel)
      with div_mult_mod_eq [of x 3600] div_mult_mod_eq [of "x mod 3600" 60] show ?thesis by linarith
    qed
    moreover have "h t mod 60 = h u mod 60" using e(4) by (simp add: h_def mod_mod_cancel)
    ultimately show ?thesis using e(2,3) by metis
  qed
  ultimately show ?thesis unfolding h_def by (metis div_mult_mod_eq)
qed

lemma rfc3339nano_inject [simp]: "rfc3339nano t = rfc3339nano u \<longleftrightarrow> t = u"
  using rfc3339nano_seconds rfc3339nano_same_second by blast

end
