(* ===== verification/Models.thy ===== *)
theory Models
  imports Go_Time
begin

text \<open>
  \<open>internal/models/models.go\<close>: the domain types.  Go's string enumerations stay strings, because
  values outside the listed constants do occur (request bodies, database rows) and the code
  decides about them; the constants are abbreviations.  A \<open>float64\<close> is \<open>f64\<close>, a \<open>time.Time\<close> is
  \<open>time\<close>, a pointer that may be nil is an option.  Field names carry the initial of their type.
\<close>

type_synonym AssetType = string
type_synonym Criticality = string
type_synonym ScanProfile = string
type_synonym ScannerType = string
type_synonym ScanStatus = string
type_synonym Severity = string
type_synonym FindingStatus = string

abbreviation AssetIP :: AssetType where "AssetIP \<equiv> ''ip''"
abbreviation AssetDomain :: AssetType where "AssetDomain \<equiv> ''domain''"
abbreviation AssetRepo :: AssetType where "AssetRepo \<equiv> ''repo''"

abbreviation CritLow :: Criticality where "CritLow \<equiv> ''low''"
abbreviation CritMedium :: Criticality where "CritMedium \<equiv> ''medium''"
abbreviation CritHigh :: Criticality where "CritHigh \<equiv> ''high''"
abbreviation CritCritical :: Criticality where "CritCritical \<equiv> ''critical''"

abbreviation ProfileQuick :: ScanProfile where "ProfileQuick \<equiv> ''quick''"
abbreviation ProfileWeb :: ScanProfile where "ProfileWeb \<equiv> ''web''"
abbreviation ProfileCritical :: ScanProfile where "ProfileCritical \<equiv> ''critical''"

abbreviation ScannerNmap :: ScannerType where "ScannerNmap \<equiv> ''nmap''"
abbreviation ScannerNuclei :: ScannerType where "ScannerNuclei \<equiv> ''nuclei''"
abbreviation ScannerCrypto :: ScannerType where "ScannerCrypto \<equiv> ''crypto''"
abbreviation ScannerSecrets :: ScannerType where "ScannerSecrets \<equiv> ''secrets''"

abbreviation StatusQueued :: ScanStatus where "StatusQueued \<equiv> ''queued''"
abbreviation StatusRunning :: ScanStatus where "StatusRunning \<equiv> ''running''"
abbreviation StatusCompleted :: ScanStatus where "StatusCompleted \<equiv> ''completed''"
abbreviation StatusFailed :: ScanStatus where "StatusFailed \<equiv> ''failed''"

abbreviation SevInfo :: Severity where "SevInfo \<equiv> ''info''"
abbreviation SevLow :: Severity where "SevLow \<equiv> ''low''"
abbreviation SevMedium :: Severity where "SevMedium \<equiv> ''medium''"
abbreviation SevHigh :: Severity where "SevHigh \<equiv> ''high''"
abbreviation SevCritical :: Severity where "SevCritical \<equiv> ''critical''"

abbreviation FindingOpen :: FindingStatus where "FindingOpen \<equiv> ''open''"
abbreviation FindingValidated :: FindingStatus where "FindingValidated \<equiv> ''validated''"
abbreviation FindingFalsePositive :: FindingStatus where "FindingFalsePositive \<equiv> ''false_positive''"
abbreviation FindingRemediated :: FindingStatus where "FindingRemediated \<equiv> ''remediated''"

record Asset =
  a_ID :: string
  a_Name :: string
  a_Type :: AssetType
  a_Target :: string
  a_Criticality :: Criticality
  a_Tags :: "string list"
  a_ScanAuthorized :: bool
  a_CreatedAt :: time

record ScanJob =
  j_ID :: string
  j_AssetID :: string
  j_Profile :: ScanProfile
  j_Scanners :: "ScannerType list"
  j_Status :: ScanStatus
  j_Error :: string
  j_UsedMock :: bool
  j_CreatedAt :: time
  j_StartedAt :: "time option"
  j_FinishedAt :: "time option"

record ComplianceRef =
  c_Framework :: string
  c_Control :: string
  c_Title :: string

record RemediationGuide =
  g_Summary :: string
  g_Steps :: "string list"
  g_Refs :: "string list"

record Finding =
  f_ID :: string
  f_ScanJobID :: string
  f_AssetID :: string
  f_Scanner :: ScannerType
  f_Title :: string
  f_Desc :: string
  f_Severity :: Severity
  f_CVSS :: f64
  f_CVSSVector :: string
  f_CVE :: string
  f_CWE :: string
  f_Port :: int
  f_Service :: string
  f_Evidence :: string
  f_Status :: FindingStatus
  f_RiskScore :: f64
  f_KnownExploit :: bool
  f_Compliance :: "ComplianceRef list"
  f_Remediation :: "RemediationGuide option"
  f_EPSS :: f64
  f_DueDate :: "time option"
  f_SLABreached :: bool
  f_SLADaysLeft :: int
  f_Principal :: string
  f_CredFP :: string
  f_CreatedAt :: time

text \<open>The zero value \<open>models.Finding{}\<close> that composite literals start from.\<close>

definition Finding_zero :: Finding where
  "Finding_zero =
     \<lparr>f_ID = [], f_ScanJobID = [], f_AssetID = [], f_Scanner = [], f_Title = [], f_Desc = [],
      f_Severity = [], f_CVSS = Fin 0, f_CVSSVector = [], f_CVE = [], f_CWE = [], f_Port = 0,
      f_Service = [], f_Evidence = [], f_Status = [], f_RiskScore = Fin 0, f_KnownExploit = False,
      f_Compliance = [], f_Remediation = None, f_EPSS = Fin 0, f_DueDate = None,
      f_SLABreached = False, f_SLADaysLeft = 0, f_Principal = [], f_CredFP = [], f_CreatedAt = 0\<rparr>"

end
