(* ===== verification/Sla.thy ===== *)
theory Sla
  imports Models
begin

text \<open>
  \<open>internal/sla/sla.go\<close>: severity-driven remediation deadlines.  Instants and durations are exact
  nanosecond counts; \<open>DaysRemaining\<close> goes through \<open>Duration.Hours\<close>, a float.
\<close>

definition Window :: "(Severity \<times> duration) list" where
  "Window =
     [(SevCritical, 7 * 24 * Hour), (SevHigh, 30 * 24 * Hour), (SevMedium, 90 * 24 * Hour),
      (SevLow, 180 * 24 * Hour), (SevInfo, 365 * 24 * Hour)]"

definition DueDate :: "Severity \<Rightarrow> time \<Rightarrow> time" where
  "DueDate sev createdAt =
     time_add createdAt
       (case map_of Window sev of
          Some w \<Rightarrow> w
        | None \<Rightarrow> (case map_of Window SevMedium of Some w \<Rightarrow> w | None \<Rightarrow> 0))"

definition Breached :: "FindingStatus \<Rightarrow> Severity \<Rightarrow> time \<Rightarrow> time \<Rightarrow> bool" where
  "Breached status sev createdAt now =
     (if status = FindingFalsePositive \<or> status = FindingRemediated then False
      else time_after now (DueDate sev createdAt))"

definition DaysRemaining :: "Severity \<Rightarrow> time \<Rightarrow> time \<Rightarrow> int" where
  "DaysRemaining sev createdAt now =
     go_int (f64_div (duration_hours (time_sub (DueDate sev createdAt) now)) (to_f64 24))"

section \<open>Deadlines\<close>

definition window_days :: "Severity \<Rightarrow> int" where
  "window_days sev =
     (if sev = SevCritical then 7 else if sev = SevHigh then 30 else if sev = SevLow then 180
      else if sev = SevInfo then 365 else 90)"

text \<open>The deadline is 7, 30, 90, 180 or 365 days after the first observation, by severity, and a severity
  outside the table gets the window of a medium one.\<close>

theorem due_date_window: "DueDate sev createdAt = createdAt + window_days sev * (24 * Hour)"
  by (simp add: DueDate_def Window_def time_add_def window_days_def)

lemma DueDate_days: "DueDate sev createdAt = createdAt + window_days sev * (24 * Hour)"
  by (simp add: DueDate_def Window_def time_add_def window_days_def)

section \<open>Days remaining through floats\<close>

lemma Hour_val: "Hour = 3600000000000"
  by (simp add: Hour_def Minute_def Second_def)

text \<open>The float computation for a non-negative duration, on exact values.\<close>

definition hours_val :: "duration \<Rightarrow> rat" where
  "hours_val d = rnd64 (of_int (d div Hour) + rnd64 (of_int (d mod Hour) / of_int Hour))"

lemma frac_hour:
  "0 \<le> rnd64 (of_int (d mod Hour) / of_int Hour)" "rnd64 (of_int (d mod Hour) / of_int Hour) \<le> 1"
proof -
  have b: "0 \<le> d mod Hour" "d mod Hour < Hour" by (simp_all add: Hour_val)
  then show "0 \<le> rnd64 (of_int (d mod Hour) / of_int Hour)" by (intro r64.nonneg) (simp add: Hour_val)
  have "of_int (d mod Hour) / of_int Hour \<le> (of_int 1 :: rat)"
    using b by (simp add: divide_le_eq Hour_val)
  then show "rnd64 (of_int (d mod Hour) / of_int Hour) \<le> 1"
    using r64.le_int [of 1] by simp
qed

lemma hours_in_range:
  assumes "0 \<le> d" and "d < 2 ^ 63"
  shows "0 \<le> d div Hour" and "d div Hour < 2 ^ 22"
  using assms by (simp_all add: Hour_val)

text \<open>Both signs at once: \<open>sg\<close> is 1 or -1.\<close>

lemma duration_hours_signed:
  assumes "0 \<le> d" and "d < 2 ^ 63" and sg: "sg = 1 \<or> sg = - 1"
  shows "duration_hours (sg * d) = Fin (of_int sg * hours_val d)"
proof -
  have q: "(sg * d) sdiv Hour = sg * (d div Hour)" "(sg * d) smod Hour = sg * (d mod Hour)"
    using assms(1) sg
    by (cases "d = 0"; auto simp: Hour_val signed_divide_int_def signed_modulo_int_def)+
  have m: "0 \<le> d mod Hour" "d mod Hour < Hour" by (simp_all add: Hour_val)
  note h = hours_in_range [OF assms(1,2)]
  have f1: "f64_of_int (sg * (d div Hour)) = Fin (of_int sg * of_int (d div Hour))"
    using h sg f64_of_int_small [of "sg * (d div Hour)"] by auto
  have f2: "f64_of_int (sg * (d mod Hour)) = Fin (of_int sg * of_int (d mod Hour))"
    using m sg f64_of_int_small [of "sg * (d mod Hour)"] by (auto simp: Hour_val)
  have f3: "f64_of_int Hour = Fin (of_int Hour)"
    by (intro f64_of_int_small) (simp add: Hour_val)
  define fr :: rat where "fr = of_int (d mod Hour) / of_int Hour"
  have fr: "0 \<le> fr" "fr \<le> 1" using m by (simp_all add: fr_def divide_le_eq Hour_val)
  have rs: "rnd64 (of_int sg * x) = of_int sg * rnd64 x" for x
    using sg by (auto simp: rnd64_neg)
  have abs: "\<bar>of_int sg * x\<bar> = \<bar>x\<bar>" for x :: rat using sg by auto
  have "f64_div (Fin (of_int sg * of_int (d mod Hour))) (Fin (of_int Hour)) = to_f64 (of_int sg * fr)"
    by (simp add: fr_def Hour_val)
  also have "\<dots> = Fin (of_int sg * rnd64 fr)"
    using to_f64_Fin [of "of_int sg * fr" 1] fr by (simp add: rs abs)
  finally have f4: "f64_div (Fin (of_int sg * of_int (d mod Hour))) (Fin (of_int Hour)) = \<dots>" .
  define s where "s = of_int (d div Hour) + rnd64 fr"
  have rf: "0 \<le> rnd64 fr" "rnd64 fr \<le> 1" unfolding fr_def by (rule frac_hour)+
  have hh: "(of_int (d div Hour) :: rat) \<le> of_int (2 ^ 22)" "(0 :: rat) \<le> of_int (d div Hour)"
    using h unfolding of_int_le_iff by simp_all
  then have "\<bar>of_int sg * s\<bar> \<le> of_int (2 ^ 22 + 1)" using rf unfolding abs by (simp add: s_def)
  then have "to_f64 (of_int sg * s) = Fin (rnd64 (of_int sg * s))" by (rule to_f64_Fin) simp
  also have "\<dots> = Fin (of_int sg * hours_val d)" by (simp add: rs s_def hours_val_def fr_def)
  finally have f5: "to_f64 (of_int sg * of_int (d div Hour) + of_int sg * rnd64 fr) = \<dots>"
    by (simp add: s_def distrib_left)
  show ?thesis
    by (simp only: duration_hours_def duration_in_def q f1 f2 f3 f4 f5 f64_add_Fin)
qed

lemma duration_hours_nonneg: "0 \<le> d \<Longrightarrow> d < 2 ^ 63 \<Longrightarrow> duration_hours d = Fin (hours_val d)"
  using duration_hours_signed [of d 1] by simp

lemma hours_val_bounds:
  assumes "0 \<le> d" and "d < 2 ^ 63"
  shows "of_int (d div Hour) \<le> hours_val d" and "hours_val d \<le> of_int (d div Hour + 1)"
proof -
  have h: "\<bar>d div Hour\<bar> < 2 ^ 53" "\<bar>d div Hour + 1\<bar> < 2 ^ 53"
    using hours_in_range [OF assms] by auto
  show "of_int (d div Hour) \<le> hours_val d"
    unfolding hours_val_def using frac_hour [of d] h by (intro r64.ge_int) auto
  show "hours_val d \<le> of_int (d div Hour + 1)"
    unfolding hours_val_def using frac_hour [of d] h by (intro r64.le_int) auto
qed

definition days_val :: "duration \<Rightarrow> int" where
  "days_val d = go_int (f64_div (duration_hours d) (to_f64 24))"

lemma days_val_signed:
  assumes "0 \<le> d" and "d < 2 ^ 63" and sg: "sg = 1 \<or> sg = - 1"
  shows "days_val (sg * d) = sg * \<lfloor>rnd64 (hours_val d / 24)\<rfloor>"
proof -
  note h = hours_in_range [OF assms(1,2)]
  note hv = hours_val_bounds [OF assms(1,2)]
  have p: "0 \<le> hours_val d" using h hv(1) by (metis of_int_0_le_iff order_trans)
  have "(of_int (d div Hour + 1) :: rat) \<le> of_int (2 ^ 22)" using h unfolding of_int_le_iff by simp
  with hv(2) have u: "hours_val d \<le> of_int (2 ^ 22)" by linarith
  then have u24: "hours_val d / 24 \<le> of_int (2 ^ 22)" using p by simp
  define z where "z = rnd64 (hours_val d / 24)"
  have z: "0 \<le> z" "z \<le> of_int (2 ^ 22)"
    using p u24 unfolding z_def by ((intro r64.nonneg; simp), (intro r64.le_int; simp))
  have "f64_div (Fin (of_int sg * hours_val d)) (Fin 24) = to_f64 (of_int sg * (hours_val d / 24))"
    by simp
  also have "\<dots> = Fin (of_int sg * z)"
    using to_f64_Fin [of "of_int sg * (hours_val d / 24)" "2 ^ 22"] p u24 sg
    by (auto simp: z_def rnd64_neg)
  finally have f: "f64_div (Fin (of_int sg * hours_val d)) (Fin 24) = Fin (of_int sg * z)" .
  have "trunc_rat (of_int sg * z) = sg * \<lfloor>z\<rfloor>"
    using sg z(1) by (auto simp: trunc_rat_def ceiling_minus)
  then have t: "trunc_rat (of_int sg * z) = sg * k" if "\<lfloor>z\<rfloor> = k" for k using that by simp
  have "go_int (Fin (of_int sg * z)) = sg * k" if k: "k = \<lfloor>z\<rfloor>" for k
  proof -
    have "0 \<le> k" "k < 2 ^ 63" using z unfolding k by (simp_all add: floor_less_iff)
    then show ?thesis unfolding go_int_def using t [OF k [symmetric]] sg by (auto simp: Let_def)
  qed
  then have "go_int (Fin (of_int sg * z)) = sg * \<lfloor>z\<rfloor>" by blast
  then show ?thesis
    by (simp add: days_val_def duration_hours_signed [OF assms] f z_def)
qed

lemma days_val_nonneg: "0 \<le> d \<Longrightarrow> d < 2 ^ 63 \<Longrightarrow> days_val d = \<lfloor>rnd64 (hours_val d / 24)\<rfloor>"
  using days_val_signed [of d 1] by simp

lemma days_val_neg: "0 \<le> d \<Longrightarrow> d < 2 ^ 63 \<Longrightarrow> days_val (- d) = - days_val d"
  using days_val_signed [of d "- 1"] days_val_signed [of d 1] by simp

text \<open>
  The day count of a non-negative duration is the whole number of days, or one more; it is exact
  unless less than an hour is missing to the next whole day.
\<close>

lemma day_hours: "d div (24 * Hour) = d div Hour div 24"
  by (simp add: zdiv_zmult2_eq Hour_val mult.commute)

lemma days_val_lower:
  assumes "0 \<le> d" and "d < 2 ^ 63"
  shows "d div (24 * Hour) \<le> days_val d"
proof -
  define n where "n = d div (24 * Hour)"
  have n: "0 \<le> n" "n < 2 ^ 22" "24 * n \<le> d div Hour"
    using hours_in_range [OF assms] by (simp_all add: n_def day_hours)
  have "(of_int (24 * n) :: rat) \<le> of_int (d div Hour)" using n(3) unfolding of_int_le_iff .
  with hours_val_bounds(1) [OF assms] have "of_int n \<le> hours_val d / 24" by simp
  then have "of_int n \<le> rnd64 (hours_val d / 24)" using n by (intro r64.ge_int) auto
  then show ?thesis by (simp add: days_val_nonneg [OF assms] n_def le_floor_iff)
qed

lemma days_val_upper:
  assumes "0 \<le> d" and "d < 2 ^ 63"
  shows "days_val d \<le> d div (24 * Hour) + 1"
proof -
  define n where "n = d div (24 * Hour)"
  have n: "0 \<le> n" "n < 2 ^ 22" "d div Hour + 1 \<le> 24 * (n + 1)"
    using hours_in_range [OF assms] by (simp_all add: n_def day_hours)
  have "(of_int (d div Hour + 1) :: rat) \<le> of_int (24 * (n + 1))" using n(3) unfolding of_int_le_iff .
  with hours_val_bounds(2) [OF assms] have "hours_val d / 24 \<le> of_int (n + 1)" by simp
  then have "rnd64 (hours_val d / 24) \<le> of_int (n + 1)" using n by (intro r64.le_int) auto
  then show ?thesis by (simp add: days_val_nonneg [OF assms] n_def floor_le_iff)
qed

lemma days_val_exact:
  assumes "0 \<le> d" and "d < 2 ^ 63" and "d div Hour mod 24 \<noteq> 23"
  shows "days_val d = d div (24 * Hour)"
proof -
  define n where "n = d div (24 * Hour)"
  have "d div Hour = 24 * n + d div Hour mod 24" "d div Hour mod 24 < 24"
    by (simp_all add: n_def day_hours)
  with assms(3) have le: "d div Hour + 1 \<le> 24 * n + 23" by linarith
  have n: "0 \<le> n" "n < 2 ^ 22"
    using hours_in_range [OF assms(1,2)] by (simp_all add: n_def day_hours)
  have "(of_int (d div Hour + 1) :: rat) \<le> of_int (24 * n + 23)" using le unfolding of_int_le_iff .
  with hours_val_bounds(2) [OF assms(1,2)] have a: "hours_val d / 24 \<le> of_int n + 23 / 24" by simp
  have n1: "(of_int n + 1 :: rat) \<le> 2 ^ 22"
    using n(2) by (metis of_int_1 of_int_add of_int_le_numeral_power_cancel_iff zless_imp_add1_zle)
  have e: "\<bar>rnd64 (of_int n + 23 / 24) - (of_int n + 23 / 24)\<bar> \<le> 2 ^ 22 / 2 ^ 53"
    using n(1) n1 by (intro rnd64_abs_err) auto
  have "rnd64 (hours_val d / 24) \<le> rnd64 (of_int n + 23 / 24)" using a by (rule r64.mono)
  also have "\<dots> < of_int n + 1" using e unfolding abs_le_iff by simp
  finally have "\<lfloor>rnd64 (hours_val d / 24)\<rfloor> < n + 1" by linarith
  with days_val_lower [OF assms(1,2)] show ?thesis
    by (simp add: days_val_nonneg [OF assms(1,2)] n_def)
qed

section \<open>Breaches and the day counter\<close>

text \<open>A finding counts as breached exactly when it is neither a false positive nor remediated and the
  whole window of its severity has passed since it was first observed.\<close>

theorem breached_iff:
  "Breached status sev createdAt now \<longleftrightarrow>
     status \<notin> {FindingFalsePositive, FindingRemediated} \<and>
     now - createdAt > window_days sev * (24 * Hour)"
  unfolding Breached_def time_after_def DueDate_days by auto

lemma DaysRemaining_val:
  assumes "\<bar>DueDate sev createdAt - now\<bar> < 2 ^ 63"
  shows "DaysRemaining sev createdAt now = days_val (DueDate sev createdAt - now)"
  using assms by (simp add: DaysRemaining_def days_val_def time_sub_def)

lemma days_val_sign:
  assumes "\<bar>d\<bar> < 2 ^ 63"
  shows "days_val d = (if 0 \<le> d then days_val \<bar>d\<bar> else - days_val \<bar>d\<bar>)"
  using assms days_val_neg [of "\<bar>d\<bar>"] by (cases "0 \<le> d") simp_all

lemma days_val_ge_0: "0 \<le> d \<Longrightarrow> d < 2 ^ 63 \<Longrightarrow> 0 \<le> days_val d"
  using days_val_lower [of d] by (simp add: Hour_val pos_imp_zdiv_nonneg_iff order_trans)

text \<open>C23: The day counter, computed by the code through a floating-point division of hours, is the number of
  whole days left (negated when the deadline is past) or one more, and is exactly the number of
  whole days unless less than one hour is missing to the next one; a breached finding never
  shows a positive count.\<close>

theorem days_remaining_whole_days:
  assumes "\<bar>DueDate sev createdAt - now\<bar> < 2 ^ 63"
  defines "left \<equiv> \<bar>DueDate sev createdAt - now\<bar>" and "sg \<equiv> (if now > DueDate sev createdAt then - 1 else 1 :: int)"
  shows "\<exists>n \<in> {left div (24 * Hour), left div (24 * Hour) + 1}.
           DaysRemaining sev createdAt now = sg * n \<and>
           (left div Hour mod 24 \<noteq> 23 \<longrightarrow> n = left div (24 * Hour)) \<and>
           (Breached status sev createdAt now \<longrightarrow> DaysRemaining sev createdAt now \<le> 0)"
proof -
  have l: "0 \<le> left" "left < 2 ^ 63" using assms(1) by (simp_all add: left_def)
  have v: "DaysRemaining sev createdAt now = sg * days_val left"
    unfolding DaysRemaining_val [OF assms(1)] by (subst days_val_sign [OF assms(1)]) (auto simp: left_def sg_def)
  have b: "DaysRemaining sev createdAt now \<le> 0" if "Breached status sev createdAt now"
  proof -
    have "sg = - 1" using that by (auto simp: Breached_def time_after_def sg_def split: if_splits)
    then show ?thesis using v days_val_ge_0 [OF l] by simp
  qed
  have r: "days_val left \<in> {left div (24 * Hour), left div (24 * Hour) + 1}"
    using days_val_lower [OF l] days_val_upper [OF l] by auto
  show ?thesis using v b days_val_exact [OF l] by (intro bexI [OF _ r]) blast
qed

theorem days_remaining_whole_days_witness: "DaysRemaining SevCritical 0 (50 * Hour) = 4"
  using days_remaining_whole_days [of SevCritical 0 "50 * Hour"]
  by (simp add: DueDate_days window_days_def Hour_val)

end
