(* ===== verification/Go_Strconv.thy ===== *)
theory Go_Strconv
  imports Go_Float Go_Strings
begin

text \<open>
  \<open>strconv.ParseFloat(s, 64)\<close>: decimal and hexadecimal floating-point literals with the
  underscores Go's syntax allows, the infinities and NaN, correctly rounded.  \<open>None\<close> is the
  error (a syntax error, or a literal out of the range of \<open>float64\<close>).
\<close>

definition is_hex_digit :: "char \<Rightarrow> bool" where
  "is_hex_digit c =
     (is_digit c \<or> (let n = (of_char (lower_char c) :: nat) in 97 \<le> n \<and> n \<le> 102))"

definition hex_val :: "char \<Rightarrow> nat" where
  "hex_val c = (if is_digit c then digit_val c else of_char (lower_char c) - 87)"

definition strip_sign :: "string \<Rightarrow> bool \<times> string" where
  "strip_sign s =
     (if take 1 s = ''-'' then (True, drop 1 s)
      else if take 1 s = ''+'' then (False, drop 1 s) else (False, s))"

text \<open>Underscores only between digits, or between a base prefix and a digit.\<close>

fun underscores_scan :: "bool \<Rightarrow> char \<Rightarrow> string \<Rightarrow> bool" where
  "underscores_scan hex i [] = (i \<noteq> CHR ''_'')"
| "underscores_scan hex i (c # s) =
     (if is_digit c \<or> (hex \<and> is_hex_digit c) then underscores_scan hex (CHR ''0'') s
      else if c = CHR ''_'' then i = CHR ''0'' \<and> underscores_scan hex (CHR ''_'') s
      else if i = CHR ''_'' then False
      else underscores_scan hex (CHR ''!'') s)"

definition underscores_ok :: "string \<Rightarrow> bool" where
  "underscores_ok s =
     (if map lower_char (take 2 s) = ''0x'' then underscores_scan True (CHR ''0'') (drop 2 s)
      else if map lower_char (take 2 s) \<in> {''0b'', ''0o''}
        then underscores_scan False (CHR ''0'') (drop 2 s)
      else underscores_scan False (CHR ''^'') s)"

text \<open>The exponent: empty, or a mark, an optional sign and at least one digit.\<close>

definition parse_exponent :: "char \<Rightarrow> string \<Rightarrow> int option" where
  "parse_exponent mark s =
     (if s = [] then Some 0
      else if lower_char (hd s) \<noteq> mark then None
      else (let (neg, ds) = strip_sign (tl s)
            in if ds = [] \<or> \<not> list_all is_digit ds then None
               else Some (if neg then - int (digits_val ds) else int (digits_val ds))))"

text \<open>Mantissa digits before and after at most one point.\<close>

definition split_point :: "string \<Rightarrow> (string \<times> string) option" where
  "split_point m =
     (case split_on (CHR ''.'') m of
        [a] \<Rightarrow> if a = [] then None else Some (a, [])
      | [a, b] \<Rightarrow> if a @ b = [] then None else Some (a, b)
      | _ \<Rightarrow> None)"

definition parse_decimal :: "string \<Rightarrow> rat option" where
  "parse_decimal s =
     (let m = takeWhile (\<lambda>c. is_digit c \<or> c = CHR ''.'') s;
          r = dropWhile (\<lambda>c. is_digit c \<or> c = CHR ''.'') s
      in (case (split_point m, parse_exponent (CHR ''e'') r) of
            (Some (a, b), Some e) \<Rightarrow>
              Some (of_nat (digits_val (a @ b)) * 10 powi (e - int (length b)))
          | _ \<Rightarrow> None))"

definition parse_hexadecimal :: "string \<Rightarrow> rat option" where
  "parse_hexadecimal s =
     (let m = takeWhile (\<lambda>c. is_hex_digit c \<or> c = CHR ''.'') s;
          r = dropWhile (\<lambda>c. is_hex_digit c \<or> c = CHR ''.'') s
      in if r = [] then None
         else (case (split_point m, parse_exponent (CHR ''p'') r) of
            (Some (a, b), Some e) \<Rightarrow>
              Some (of_nat (foldl (\<lambda>v c. 16 * v + hex_val c) 0 (a @ b))
                      * 2 powi (e - 4 * int (length b)))
          | _ \<Rightarrow> None))"

definition parse_float :: "string \<Rightarrow> f64 option" where
  "parse_float s =
     (let (neg, r) = strip_sign s; l = map lower_char r; t = filter (\<lambda>c. c \<noteq> CHR ''_'') r
      in if l \<in> {''inf'', ''infinity''} then Some (if neg then NInf else PInf)
         else if map lower_char s = ''nan'' then Some NaN
         else if \<not> underscores_ok r then None
         else (case (if map lower_char (take 2 t) = ''0x'' then parse_hexadecimal (drop 2 t)
                     else parse_decimal t) of
                 None \<Rightarrow> None
               | Some q \<Rightarrow> (let v = to_f64 (if neg then - q else q)
                            in if v = PInf \<or> v = NInf then None else Some v)))"

lemma parse_float_examples:
  "parse_float ''NaN'' = Some NaN" "parse_float ''-Inf'' = Some NInf"
  "parse_float ''12'' = Some (Fin 12)" "parse_float ''1e1'' = Some (Fin 10)"
  "parse_float ''x'' = None" "parse_float '''' = None"
  by code_simp+

end
