(* ===== verification/Go_Json.thy ===== *)
theory Go_Json
  imports Go_Strconv
begin

text \<open>
  The part of \<open>encoding/json\<close> the program uses.  A text is parsed to a syntax tree, in which numbers
  keep their literal; decoding into a struct then walks the tree the way \<open>Unmarshal\<close> does: unknown
  keys are skipped (or reported, with \<open>DisallowUnknownFields\<close>), keys match exactly or up to case, the
  last of several equal keys wins, \<open>null\<close> leaves a field as it is, and a value of the wrong kind is an
  error that does not stop the decoding of the rest.  So a decoder maps a tree and the current value
  to the new value and whether an error was met.  Two limits are not modelled: the nesting depth at
  which the package gives up (10000), and the texts of its errors.
\<close>

datatype json =
    JNull
  | JBool bool
  | JNum string
  | JStr string
  | JArr "json list"
  | JObj "(string \<times> json) list"

section \<open>Bytes and runes\<close>

definition byte :: "char \<Rightarrow> nat" where
  "byte c = of_char c"

definition byte_in :: "nat \<Rightarrow> nat \<Rightarrow> char \<Rightarrow> bool" where
  "byte_in a b c \<longleftrightarrow> a \<le> byte c \<and> byte c \<le> b"

text \<open>The length of the UTF-8 sequence a string starts with, 0 if it is not a valid one.\<close>

definition rune_len :: "string \<Rightarrow> nat" where
  "rune_len s =
     (case s of
        [] \<Rightarrow> 0
      | c # r \<Rightarrow>
          if byte c < 128 then 1
          else if byte_in 0xC2 0xDF c then (if list_all (byte_in 0x80 0xBF) (take 1 r) \<and> 1 \<le> length r then 2 else 0)
          else if byte_in 0xE0 0xEF c then
            (case r of
               d # e # _ \<Rightarrow>
                 if byte_in (if byte c = 0xE0 then 0xA0 else 0x80) (if byte c = 0xED then 0x9F else 0xBF) d
                    \<and> byte_in 0x80 0xBF e then 3 else 0
             | _ \<Rightarrow> 0)
          else if byte_in 0xF0 0xF4 c then
            (case r of
               d # e # f # _ \<Rightarrow>
                 if byte_in (if byte c = 0xF0 then 0x90 else 0x80) (if byte c = 0xF4 then 0x8F else 0xBF) d
                    \<and> byte_in 0x80 0xBF e \<and> byte_in 0x80 0xBF f then 4 else 0
             | _ \<Rightarrow> 0)
          else 0)"

lemma rune_len_le: "rune_len s \<le> length s"
  by (auto simp: rune_len_def split: list.split)

definition rune_error :: string where
  "rune_error = [CHR 0xEF, CHR 0xBF, CHR 0xBD]"

text \<open>Invalid bytes become the replacement character.\<close>

function utf8_fix :: "string \<Rightarrow> string" where
  "utf8_fix s =
     (if s = [] then []
      else if rune_len s = 0 then rune_error @ utf8_fix (tl s)
      else take (rune_len s) s @ utf8_fix (drop (rune_len s) s))"
  by pat_completeness auto
termination
  by (relation "measure length") auto

declare utf8_fix.simps [simp del]

lemma utf8_fix_ascii: "(\<And>c. c \<in> set s \<Longrightarrow> byte c < 128) \<Longrightarrow> utf8_fix s = s"
proof (induction s)
  case Nil
  then show ?case by (simp add: utf8_fix.simps)
next
  case (Cons c s)
  then have "rune_len (c # s) = 1" by (simp add: rune_len_def)
  with Cons show ?case by (subst utf8_fix.simps) simp
qed

definition utf8_rune :: "nat \<Rightarrow> string" where
  "utf8_rune n =
     map char_of
       (if n < 0x80 then [n]
        else if n < 0x800 then [0xC0 + n div 0x40, 0x80 + n mod 0x40]
        else if n < 0x10000 then [0xE0 + n div 0x1000, 0x80 + n div 0x40 mod 0x40, 0x80 + n mod 0x40]
        else [0xF0 + n div 0x40000, 0x80 + n div 0x1000 mod 0x40, 0x80 + n div 0x40 mod 0x40, 0x80 + n mod 0x40])"

section \<open>Parsing\<close>

definition json_space :: "char \<Rightarrow> bool" where
  "json_space c \<longleftrightarrow> c = CHR '' '' \<or> c = CHR 0x09 \<or> c = CHR 0x0A \<or> c = CHR 0x0D"

definition skip_space :: "string \<Rightarrow> string" where
  "skip_space s = dropWhile json_space s"

definition hex4 :: "string \<Rightarrow> nat option" where
  "hex4 s =
     (let h = take 4 s
      in if length h = 4 \<and> list_all is_hex_digit h then Some (fold (\<lambda>c n. 16 * n + hex_val c) h 0) else None)"

text \<open>The rune of a \<open>\u\<close> escape whose digits start the string, with the text after it; a surrogate needs its
  other half in a second escape.\<close>

definition parse_u :: "string \<Rightarrow> (string \<times> nat) option" where
  "parse_u s =
     (case hex4 s of
        None \<Rightarrow> None
      | Some n \<Rightarrow>
          if 0xD800 \<le> n \<and> n < 0xE000 then
            (case (take 2 (drop 4 s), hex4 (drop 6 s)) of
               (b # u # [], Some m) \<Rightarrow>
                 if n < 0xDC00 \<and> b = CHR 0x5C \<and> u = CHR ''u'' \<and> 0xDC00 \<le> m \<and> m < 0xE000
                 then Some (utf8_rune (0x10000 + (n - 0xD800) * 0x400 + (m - 0xDC00)), 10)
                 else Some (rune_error, 4)
             | _ \<Rightarrow> Some (rune_error, 4))
          else Some (utf8_rune n, 4))"

definition simple_escape :: "char \<Rightarrow> string option" where
  "simple_escape c =
     (if c = CHR 0x22 \<or> c = CHR 0x5C \<or> c = CHR ''/'' then Some [c]
      else if c = CHR ''b'' then Some [CHR 0x08]
      else if c = CHR ''f'' then Some [CHR 0x0C]
      else if c = CHR ''n'' then Some [CHR 0x0A]
      else if c = CHR ''r'' then Some [CHR 0x0D]
      else if c = CHR ''t'' then Some [CHR 0x09]
      else None)"

text \<open>The rest of a string literal after its opening quote: the characters it denotes, and what follows.\<close>

function scan_string :: "string \<Rightarrow> (string \<times> string) option" where
  "scan_string [] = None"
| "scan_string (c # s) =
     (if c = CHR 0x22 then Some ([], s)
      else if byte c < 32 then None
      else if c = CHR 0x5C then
        (case s of
           [] \<Rightarrow> None
         | e # s' \<Rightarrow>
             if e = CHR ''u'' then
               (case parse_u s' of
                  None \<Rightarrow> None
                | Some (r, k) \<Rightarrow>
                    (case scan_string (drop k s') of None \<Rightarrow> None | Some (t, rest) \<Rightarrow> Some (r @ t, rest)))
             else
               (case simple_escape e of
                  None \<Rightarrow> None
                | Some r \<Rightarrow>
                    (case scan_string s' of None \<Rightarrow> None | Some (t, rest) \<Rightarrow> Some (r @ t, rest))))
      else (case scan_string s of None \<Rightarrow> None | Some (t, rest) \<Rightarrow> Some (c # t, rest)))"
  by pat_completeness auto
termination
  by (relation "measure length") auto

definition parse_string :: "string \<Rightarrow> (string \<times> string) option" where
  "parse_string s = (case scan_string s of None \<Rightarrow> None | Some (t, rest) \<Rightarrow> Some (utf8_fix t, rest))"

text \<open>A number literal; what follows it is left to the caller.\<close>

definition digits_of :: "string \<Rightarrow> string \<times> string" where
  "digits_of s = (takeWhile is_digit s, dropWhile is_digit s)"

definition number_int :: "string \<Rightarrow> (string \<times> string) option" where
  "number_int s =
     (let (d, r) = digits_of s
      in if d = [] then None else if hd d = CHR ''0'' then Some (''0'', drop 1 s) else Some (d, r))"

definition number_frac :: "string \<Rightarrow> (string \<times> string) option" where
  "number_frac s =
     (if take 1 s = ''.'' then
        (let (d, r) = digits_of (drop 1 s) in if d = [] then None else Some (CHR ''.'' # d, r))
      else Some ([], s))"

definition number_exp :: "string \<Rightarrow> (string \<times> string) option" where
  "number_exp s =
     (if take 1 s = ''e'' \<or> take 1 s = ''E'' then
        (let sg = (if take 1 (drop 1 s) \<in> {''+'', ''-''} then 1 else 0);
             (d, r) = digits_of (drop (1 + sg) s)
         in if d = [] then None else Some (take (1 + sg) s @ d, r))
      else Some ([], s))"

definition parse_number :: "string \<Rightarrow> (string \<times> string) option" where
  "parse_number s =
     (let (sg, s1) = (if take 1 s = ''-'' then (''-'', drop 1 s) else ([], s))
      in case number_int s1 of None \<Rightarrow> None | Some (i, s2) \<Rightarrow>
         (case number_frac s2 of None \<Rightarrow> None | Some (f, s3) \<Rightarrow>
         (case number_exp s3 of None \<Rightarrow> None | Some (e, s4) \<Rightarrow> Some (sg @ i @ f @ e, s4))))"

text \<open>
  Values, with fuel for the nesting.  A call on a value hands one unit less to the call on its
  elements, which hands one unit less to each element; every such pair of calls has consumed a
  bracket or a comma, so twice the length of the text plus one is enough (\<open>parse_enc\<close> below).
\<close>

fun parse_value :: "nat \<Rightarrow> string \<Rightarrow> (json \<times> string) option"
  and parse_elems :: "nat \<Rightarrow> string \<Rightarrow> (json list \<times> string) option"
  and parse_members :: "nat \<Rightarrow> string \<Rightarrow> ((string \<times> json) list \<times> string) option" where
  "parse_value 0 s = None"
| "parse_value (Suc n) s =
     (case skip_space s of
        [] \<Rightarrow> None
      | c # r \<Rightarrow>
          if c = CHR 0x22 then (case parse_string r of None \<Rightarrow> None | Some (t, rest) \<Rightarrow> Some (JStr t, rest))
          else if c = CHR ''['' then
            (if take 1 (skip_space r) = '']'' then Some (JArr [], drop 1 (skip_space r))
             else (case parse_elems n r of None \<Rightarrow> None | Some (vs, rest) \<Rightarrow> Some (JArr vs, rest)))
          else if c = CHR ''{'' then
            (if take 1 (skip_space r) = ''}'' then Some (JObj [], drop 1 (skip_space r))
             else (case parse_members n r of None \<Rightarrow> None | Some (ms, rest) \<Rightarrow> Some (JObj ms, rest)))
          else if take 4 (c # r) = ''null'' then Some (JNull, drop 4 (c # r))
          else if take 4 (c # r) = ''true'' then Some (JBool True, drop 4 (c # r))
          else if take 5 (c # r) = ''false'' then Some (JBool False, drop 5 (c # r))
          else (case parse_number (c # r) of None \<Rightarrow> None | Some (t, rest) \<Rightarrow> Some (JNum t, rest)))"
| "parse_elems 0 s = None"
| "parse_elems (Suc n) s =
     (case parse_value n s of
        None \<Rightarrow> None
      | Some (v, r) \<Rightarrow>
          (case skip_space r of
             [] \<Rightarrow> None
           | c # r' \<Rightarrow>
               if c = CHR '','' then (case parse_elems n r' of None \<Rightarrow> None | Some (vs, rest) \<Rightarrow> Some (v # vs, rest))
               else if c = CHR '']'' then Some ([v], r')
               else None))"
| "parse_members 0 s = None"
| "parse_members (Suc n) s =
     (case skip_space s of
        [] \<Rightarrow> None
      | q # r0 \<Rightarrow>
          if q \<noteq> CHR 0x22 then None
          else (case parse_string r0 of
              None \<Rightarrow> None
            | Some (k, r1) \<Rightarrow>
                if take 1 (skip_space r1) \<noteq> '':'' then None
                else (case parse_value n (drop 1 (skip_space r1)) of
                    None \<Rightarrow> None
                  | Some (v, r) \<Rightarrow>
                      (case skip_space r of
                         [] \<Rightarrow> None
                       | c # r' \<Rightarrow>
                           if c = CHR '','' then
                             (case parse_members n r' of None \<Rightarrow> None | Some (ms, rest) \<Rightarrow> Some ((k, v) # ms, rest))
                           else if c = CHR ''}'' then Some ([(k, v)], r')
                           else None))))"

text \<open>The first value of a stream (\<open>Decoder.Decode\<close>), and a text that is one value (\<open>Unmarshal\<close>).\<close>

definition parse_first :: "string \<Rightarrow> (json \<times> string) option" where
  "parse_first s = parse_value (2 * length s + 1) s"

definition parse_json :: "string \<Rightarrow> json option" where
  "parse_json s =
     (case parse_first s of
        None \<Rightarrow> None
      | Some (v, rest) \<Rightarrow> if skip_space rest = [] then Some v else None)"

section \<open>Decoding into Go values\<close>

type_synonym 'a decoder = "json \<Rightarrow> 'a \<Rightarrow> 'a \<times> bool"

fun dec_string :: "string decoder" where
  "dec_string (JStr s) x = (s, False)"
| "dec_string JNull x = (x, False)"
| "dec_string _ x = (x, True)"

fun dec_bool :: "bool decoder" where
  "dec_bool (JBool b) x = (b, False)"
| "dec_bool JNull x = (x, False)"
| "dec_bool _ x = (x, True)"

fun dec_int :: "int decoder" where
  "dec_int (JNum t) x = (case atoi t of Some n \<Rightarrow> (n, False) | None \<Rightarrow> (x, True))"
| "dec_int JNull x = (x, False)"
| "dec_int _ x = (x, True)"

fun dec_float :: "f64 decoder" where
  "dec_float (JNum t) x = (case parse_float t of Some q \<Rightarrow> (q, False) | None \<Rightarrow> (x, True))"
| "dec_float JNull x = (x, False)"
| "dec_float _ x = (x, True)"

text \<open>A slice is filled from its start; its elements begin as the zero value (a key given twice, whose second
  list has \<open>null\<close> elements, would show values of the first, which is not modelled).\<close>

fun dec_list :: "'a \<Rightarrow> 'a decoder \<Rightarrow> 'a list decoder" where
  "dec_list z d (JArr vs) xs = (map (\<lambda>v. fst (d v z)) vs, list_ex (\<lambda>v. snd (d v z)) vs)"
| "dec_list z d JNull xs = ([], False)"
| "dec_list z d _ xs = (xs, True)"

text \<open>A struct is a list of named fields, each with a decoder of the whole record.\<close>

definition find_field :: "(string \<times> 'a decoder) list \<Rightarrow> string \<Rightarrow> 'a decoder option" where
  "find_field fields k =
     (case map_of fields k of
        Some d \<Rightarrow> Some d
      | None \<Rightarrow> map_option snd (find (\<lambda>(n, _). equal_fold n k) fields))"

fun dec_struct :: "bool \<Rightarrow> (string \<times> 'a decoder) list \<Rightarrow> 'a decoder" where
  "dec_struct strict fields (JObj ms) x =
     fold (\<lambda>(k, v) (y, e).
             case find_field fields k of
               None \<Rightarrow> (y, e \<or> strict)
             | Some d \<Rightarrow> (let (y', e') = d v y in (y', e \<or> e')))
       ms (x, False)"
| "dec_struct strict fields JNull x = (x, False)"
| "dec_struct strict fields _ x = (x, True)"

text \<open>\<open>on get put d\<close> decodes one field of a record.\<close>

definition on_field :: "('r \<Rightarrow> 'a) \<Rightarrow> ('a \<Rightarrow> 'r \<Rightarrow> 'r) \<Rightarrow> 'a decoder \<Rightarrow> 'r decoder" where
  "on_field get put d v r = (let (x, e) = d v (get r) in (put x r, e))"

definition unmarshal :: "'a decoder \<Rightarrow> string \<Rightarrow> 'a \<Rightarrow> 'a \<times> bool" where
  "unmarshal d s x = (case parse_json s of None \<Rightarrow> (x, True) | Some v \<Rightarrow> d v x)"

definition decode_first :: "'a decoder \<Rightarrow> string \<Rightarrow> 'a \<Rightarrow> 'a \<times> bool" where
  "decode_first d s x = (case parse_first s of None \<Rightarrow> (x, True) | Some (v, _) \<Rightarrow> d v x)"

section \<open>Encoding\<close>

definition hex_lower :: "nat \<Rightarrow> char" where
  "hex_lower d = ''0123456789abcdef'' ! d"

definition hex_digits2 :: "nat \<Rightarrow> string" where
  "hex_digits2 n = [hex_lower (n div 16), hex_lower (n mod 16)]"

text \<open>One ASCII character inside a string literal, with the characters that HTML gives a meaning escaped.\<close>

definition enc_char :: "char \<Rightarrow> string" where
  "enc_char c =
     (if c = CHR 0x22 \<or> c = CHR 0x5C then [CHR 0x5C, c]
      else if c = CHR 0x08 then [CHR 0x5C, CHR ''b'']
      else if c = CHR 0x0C then [CHR 0x5C, CHR ''f'']
      else if c = CHR 0x0A then [CHR 0x5C, CHR ''n'']
      else if c = CHR 0x0D then [CHR 0x5C, CHR ''r'']
      else if c = CHR 0x09 then [CHR 0x5C, CHR ''t'']
      else if byte c < 32 \<or> c = CHR ''<'' \<or> c = CHR ''>'' \<or> c = CHR ''&''
      then CHR 0x5C # ''u00'' @ hex_digits2 (byte c)
      else [c])"

function enc_chars :: "string \<Rightarrow> string" where
  "enc_chars s =
     (if s = [] then []
      else if rune_len s = 0 then CHR 0x5C # ''ufffd'' @ enc_chars (tl s)
      else if rune_len s = 1 then enc_char (hd s) @ enc_chars (tl s)
      else if take 3 s = [CHR 0xE2, CHR 0x80, CHR 0xA8] then CHR 0x5C # ''u2028'' @ enc_chars (drop 3 s)
      else if take 3 s = [CHR 0xE2, CHR 0x80, CHR 0xA9] then CHR 0x5C # ''u2029'' @ enc_chars (drop 3 s)
      else take (rune_len s) s @ enc_chars (drop (rune_len s) s))"
  by pat_completeness auto
termination
  by (relation "measure length") (auto simp: rune_len_def split: if_splits)

declare enc_chars.simps [simp del]

definition enc_string :: "string \<Rightarrow> string" where
  "enc_string s = CHR 0x22 # enc_chars s @ [CHR 0x22]"

fun enc :: "json \<Rightarrow> string" and enc_elems :: "json list \<Rightarrow> string"
  and enc_members :: "(string \<times> json) list \<Rightarrow> string" where
  "enc JNull = ''null''"
| "enc (JBool b) = (if b then ''true'' else ''false'')"
| "enc (JNum t) = t"
| "enc (JStr s) = enc_string s"
| "enc (JArr vs) = CHR ''['' # enc_elems vs @ '']''"
| "enc (JObj ms) = CHR ''{'' # enc_members ms @ ''}''"
| "enc_elems [] = []"
| "enc_elems [v] = enc v"
| "enc_elems (v # w # vs) = enc v @ CHR '','' # enc_elems (w # vs)"
| "enc_members [] = []"
| "enc_members [(k, v)] = enc_string k @ CHR '':'' # enc v"
| "enc_members ((k, v) # m # ms) = enc_string k @ CHR '':'' # enc v @ CHR '','' # enc_members (m # ms)"

section \<open>Reading back what was written\<close>

subsection \<open>Strings\<close>

lemma byte_simps: "byte c = of_char c"
  by (simp add: byte_def)

lemma scan_string_raw:
  assumes "c \<noteq> CHR 0x22" and "c \<noteq> CHR 0x5C" and "32 \<le> byte c"
  shows "scan_string (c # s) = map_option (\<lambda>(t, r). (c # t, r)) (scan_string s)"
  using assms by (simp split: option.split)

lemma scan_string_high:
  assumes "list_all (\<lambda>c. 128 \<le> byte c) xs"
  shows "scan_string (xs @ s) = map_option (\<lambda>(t, r). (xs @ t, r)) (scan_string s)"
  using assms
proof (induction xs)
  case Nil
  then show ?case by (cases "scan_string s") auto
next
  case (Cons c xs)
  then have "c \<noteq> CHR 0x22" "c \<noteq> CHR 0x5C" "32 \<le> byte c" by (auto simp: byte_def)
  then show ?case using Cons scan_string_raw [of c "xs @ s"] by (auto simp: option.map_comp o_def case_prod_unfold)
qed

lemma scan_string_simple:
  assumes "simple_escape e = Some r"
  shows "scan_string (CHR 0x5C # e # s) = map_option (\<lambda>(t, x). (r @ t, x)) (scan_string s)"
proof -
  have "e \<noteq> CHR ''u''" using assms by (auto simp: simple_escape_def)
  with assms show ?thesis by (simp add: byte_def split: option.split)
qed

lemma scan_string_u:
  assumes "parse_u (h @ s) = Some (r, 4)" and "length h = 4"
  shows "scan_string (CHR 0x5C # CHR ''u'' # h @ s) = map_option (\<lambda>(t, x). (r @ t, x)) (scan_string s)"
  using assms by (simp add: byte_def split: option.split)

lemma hex4_prefix: "length h = 4 \<Longrightarrow> hex4 (h @ s) = hex4 h"
  by (simp add: hex4_def)

lemma parse_u_plain:
  assumes "length h = 4" and "hex4 h = Some n" and "n < 0xD800 \<or> 0xE000 \<le> n"
  shows "parse_u (h @ s) = Some (utf8_rune n, 4)"
  using assms by (auto simp: parse_u_def hex4_prefix)

lemma hex_lower_val:
  assumes "d < 16"
  shows "is_hex_digit (hex_lower d) \<and> hex_val (hex_lower d) = d"
proof -
  have "list_all (\<lambda>d. is_hex_digit (hex_lower d) \<and> hex_val (hex_lower d) = d) [0..<16]" by code_simp
  moreover have "d \<in> set [0..<16]" using assms by simp
  ultimately show ?thesis by (simp only: list_all_iff)
qed

lemma hex_digits2_val: "n < 256 \<Longrightarrow> hex4 (''00'' @ hex_digits2 n) = Some n"
proof -
  assume n: "n < 256"
  have z: "is_hex_digit (CHR ''0'')" "hex_val (CHR ''0'') = 0"
    by (simp_all add: is_hex_digit_def is_digit_def hex_val_def digit_val_def)
  have "n div 16 < 16" "n mod 16 < 16" using n by simp_all
  then show ?thesis using hex_lower_val by (simp add: hex4_def hex_digits2_def z Let_def)
qed

lemma enc_char_cases:
  "(\<exists>e. enc_char c = [CHR 0x5C, e] \<and> simple_escape e = Some [c]) \<or>
   (enc_char c = CHR 0x5C # CHR ''u'' # ''00'' @ hex_digits2 (byte c) \<and> byte c < 64) \<or>
   (enc_char c = [c] \<and> c \<noteq> CHR 0x22 \<and> c \<noteq> CHR 0x5C \<and> 32 \<le> byte c)"
  unfolding enc_char_def simple_escape_def byte_def by simp

lemma scan_enc_char:
  "scan_string (enc_char c @ s) = map_option (\<lambda>(t, r). (c # t, r)) (scan_string s)"
proof -
  consider (simple) e where "enc_char c = [CHR 0x5C, e]" "simple_escape e = Some [c]"
    | (hex) "enc_char c = CHR 0x5C # CHR ''u'' # ''00'' @ hex_digits2 (byte c)" "byte c < 64"
    | (raw) "enc_char c = [c]" "c \<noteq> CHR 0x22" "c \<noteq> CHR 0x5C" "32 \<le> byte c"
    using enc_char_cases [of c] by blast
  then show ?thesis
  proof cases
    case simple
    then show ?thesis using scan_string_simple [OF simple(2), of s] by simp
  next
    case hex
    have c: "c = char_of (byte c)" by (simp add: byte_def)
    have h: "hex4 (''00'' @ hex_digits2 (byte c)) = Some (byte c)" "utf8_rune (byte c) = [c]"
      using hex(2) c hex_digits2_val by (simp_all add: utf8_rune_def)
    have l: "length (''00'' @ hex_digits2 (byte c)) = 4" by (simp add: hex_digits2_def)
    have "parse_u ((''00'' @ hex_digits2 (byte c)) @ s) = Some ([c], 4)"
      using parse_u_plain [OF l h(1)] h(2) hex(2) by simp
    from scan_string_u [OF this l] show ?thesis by (simp add: hex(1))
  next
    case raw
    then show ?thesis using scan_string_raw [OF raw(2-4)] by simp
  qed
qed

subsection \<open>Runes\<close>

lemma rune_len_split:
  assumes "rune_len s \<noteq> 0"
  obtains p r where "s = p @ r" and "length p = rune_len s" and "\<And>t. rune_len (p @ t) = rune_len s"
    and "rune_len s = 1 \<or> list_all (\<lambda>c. 128 \<le> byte c) p"
proof -
  obtain c r where s: "s = c # r" using assms by (cases s) (auto simp: rune_len_def)
  consider (one) "byte c < 128" | (two) "\<not> byte c < 128" "byte_in 0xC2 0xDF c"
    | (three) "\<not> byte c < 128" "\<not> byte_in 0xC2 0xDF c" "byte_in 0xE0 0xEF c"
    | (four) "\<not> byte c < 128" "\<not> byte_in 0xC2 0xDF c" "\<not> byte_in 0xE0 0xEF c" "byte_in 0xF0 0xF4 c"
    using assms by (fastforce simp: s rune_len_def)
  then show ?thesis
  proof cases
    case one
    then show ?thesis by (intro that [of "[c]" r]) (simp_all add: s rune_len_def)
  next
    case two
    then obtain d r' where r: "r = d # r'" "byte_in 0x80 0xBF d"
      using assms by (cases r) (auto simp: s rune_len_def split: if_splits)
    then have "128 \<le> byte d" by (simp add: byte_in_def)
    with two r show ?thesis by (intro that [of "[c, d]" r']) (simp_all add: s rune_len_def)
  next
    case three
    then obtain d e r' where r: "r = d # e # r'"
      using assms by (cases r; cases "tl r") (auto simp: s rune_len_def)
    with three have b: "byte_in (if byte c = 0xE0 then 0xA0 else 0x80) (if byte c = 0xED then 0x9F else 0xBF) d" "byte_in 0x80 0xBF e"
      using assms by (auto simp: s rune_len_def split: if_splits)
    then have "128 \<le> byte d" "128 \<le> byte e" by (auto simp: byte_in_def split: if_splits)
    with three r b show ?thesis by (intro that [of "[c, d, e]" r']) (simp_all add: s rune_len_def)
  next
    case four
    then obtain d e f r' where r: "r = d # e # f # r'"
      using assms by (cases r; cases "tl r"; cases "tl (tl r)") (auto simp: s rune_len_def)
    with four have b: "byte_in (if byte c = 0xF0 then 0x90 else 0x80) (if byte c = 0xF4 then 0x8F else 0xBF) d"
        "byte_in 0x80 0xBF e" "byte_in 0x80 0xBF f"
      using assms by (auto simp: s rune_len_def split: if_splits)
    then have "128 \<le> byte d" "128 \<le> byte e" "128 \<le> byte f" by (auto simp: byte_in_def split: if_splits)
    with four r b show ?thesis by (intro that [of "[c, d, e, f]" r']) (simp_all add: s rune_len_def)
  qed
qed

lemma rune_len_high:
  assumes "2 \<le> rune_len s"
  shows "list_all (\<lambda>c. 128 \<le> byte c) (take (rune_len s) s)"
proof -
  have "rune_len s \<noteq> 0" using assms by simp
  then obtain p r where "s = p @ r" "length p = rune_len s" "rune_len s = 1 \<or> list_all (\<lambda>c. 128 \<le> byte c) p"
    by (rule rune_len_split)
  with assms show ?thesis by auto
qed

lemma rune_len_prefix:
  assumes "rune_len s \<noteq> 0"
  shows "rune_len (take (rune_len s) s @ t) = rune_len s"
proof -
  obtain p r where "s = p @ r" "length p = rune_len s" "\<And>t. rune_len (p @ t) = rune_len s"
    using rune_len_split [OF assms] by metis
  then show ?thesis by (metis append_eq_conv_conj)
qed

lemma rune_len_3: "2 \<le> rune_len s \<Longrightarrow> take 3 s = [CHR 0xE2, b, c] \<Longrightarrow> rune_len s = 3"
  by (cases s) (auto simp: rune_len_def byte_in_def byte_def split: list.splits if_splits)

lemma rune_len_error [simp]: "rune_len (rune_error @ t) = 3"
  by (simp add: rune_error_def rune_len_def byte_in_def byte_def)

lemma utf8_fix_Nil [simp]: "utf8_fix [] = []"
  by (simp add: utf8_fix.simps)

lemma utf8_fix_rune:
  assumes "rune_len s \<noteq> 0"
  shows "utf8_fix s = take (rune_len s) s @ utf8_fix (drop (rune_len s) s)"
proof -
  have "s \<noteq> []" using assms by (auto simp: rune_len_def)
  with assms show ?thesis by (subst utf8_fix.simps) simp
qed

lemma utf8_fix_error: "utf8_fix (rune_error @ t) = rune_error @ utf8_fix t"
proof -
  have "length rune_error = 3" by (simp add: rune_error_def)
  then show ?thesis using utf8_fix_rune [of "rune_error @ t"] by simp
qed

lemma utf8_fix_idem [simp]: "utf8_fix (utf8_fix s) = utf8_fix s"
proof (induction s rule: utf8_fix.induct)
  case (1 s)
  show ?case
  proof (cases "s = []")
    case True
    then show ?thesis by simp
  next
    case ne: False
    show ?thesis
    proof (cases "rune_len s = 0")
      case True
      let ?u = "utf8_fix (tl s)"
      have s: "utf8_fix s = rune_error @ ?u" using True ne by (subst utf8_fix.simps) simp
      with s True ne 1 show ?thesis by (simp add: utf8_fix_error)
    next
      case False
      let ?k = "rune_len s" and ?u = "utf8_fix (drop (rune_len s) s)"
      have "?k \<le> length s" by (rule rune_len_le)
      moreover have "rune_len (take ?k s @ ?u) = ?k" using False by (rule rune_len_prefix)
      ultimately have "utf8_fix (take ?k s @ ?u) = take ?k s @ utf8_fix ?u" using False by (subst utf8_fix_rune) simp_all
      with False ne 1 show ?thesis by (simp add: utf8_fix_rune [OF False])
    qed
  qed
qed

lemma scan_enc_chars: "scan_string (enc_chars s @ CHR 0x22 # rest) = Some (utf8_fix s, rest)"
proof (induction s rule: enc_chars.induct)
  case (1 s)
  have u: "scan_string (CHR 0x5C # CHR ''u'' # h @ t) = map_option (\<lambda>(x, r). (utf8_rune n @ x, r)) (scan_string t)"
    if "length h = 4" "hex4 h = Some n" "n < 0xD800 \<or> 0xE000 \<le> n" for h n t
    by (rule scan_string_u [OF parse_u_plain [OF that] that(1)])
  have hex: "hex4 ''fffd'' = Some 0xFFFD" "hex4 ''2028'' = Some 0x2028" "hex4 ''2029'' = Some 0x2029"
    by (simp_all add: hex4_def is_hex_digit_def is_digit_def hex_val_def digit_val_def lower_char_def Let_def)
  have run: "utf8_rune 0xFFFD = rune_error" "utf8_rune 0x2028 = [CHR 0xE2, CHR 0x80, CHR 0xA8]"
    "utf8_rune 0x2029 = [CHR 0xE2, CHR 0x80, CHR 0xA9]"
    by (simp_all add: utf8_rune_def rune_error_def char_of_def bit_0)
  consider (nil) "s = []" | (bad) "s \<noteq> []" "rune_len s = 0" | (ascii) "rune_len s = 1"
    | (ls) "2 \<le> rune_len s" "take 3 s = [CHR 0xE2, CHR 0x80, CHR 0xA8]"
    | (ps) "2 \<le> rune_len s" "take 3 s = [CHR 0xE2, CHR 0x80, CHR 0xA9]"
    | (other) "2 \<le> rune_len s" "take 3 s \<noteq> [CHR 0xE2, CHR 0x80, CHR 0xA8]" "take 3 s \<noteq> [CHR 0xE2, CHR 0x80, CHR 0xA9]"
    by fastforce
  then show ?case
  proof cases
    case nil
    then show ?thesis by (simp add: enc_chars.simps)
  next
    case bad
    have "utf8_fix s = rune_error @ utf8_fix (tl s)" using bad by (subst utf8_fix.simps) simp
    then show ?thesis using bad 1(1) u [of "''fffd''" "0xFFFD"] by (subst enc_chars.simps) (simp add: hex run)
  next
    case ascii
    then have "s \<noteq> []" by (auto simp: rune_len_def)
    then obtain c t where s: "s = c # t" by (cases s) auto
    then have "utf8_fix s = c # utf8_fix t" using ascii utf8_fix_rune [of s] by simp
    then show ?thesis using ascii 1(2) s by (subst enc_chars.simps) (simp add: scan_enc_char)
  next
    case ls
    then have k: "rune_len s = 3" and ne: "s \<noteq> []"
      using rune_len_3 by (auto simp: rune_len_def)
    then have "utf8_fix s = [CHR 0xE2, CHR 0x80, CHR 0xA8] @ utf8_fix (drop 3 s)" using utf8_fix_rune [of s] ls by simp
    then show ?thesis using ls k ne 1(3) u [of "''2028''" "0x2028"] by (subst enc_chars.simps) (simp add: hex run)
  next
    case ps
    then have k: "rune_len s = 3" and ne: "s \<noteq> []"
      using rune_len_3 by (auto simp: rune_len_def)
    then have "utf8_fix s = [CHR 0xE2, CHR 0x80, CHR 0xA9] @ utf8_fix (drop 3 s)" using utf8_fix_rune [of s] ps by simp
    then show ?thesis using ps k ne 1(4) u [of "''2029''" "0x2029"] by (subst enc_chars.simps) (simp add: hex run)
  next
    case other
    then have ne: "s \<noteq> []" by (auto simp: rune_len_def)
    have e: "enc_chars s = take (rune_len s) s @ enc_chars (drop (rune_len s) s)"
      using other ne by (subst enc_chars.simps) simp
    have "utf8_fix s = take (rune_len s) s @ utf8_fix (drop (rune_len s) s)" using other by (intro utf8_fix_rune) simp
    then show ?thesis using other ne 1(5) scan_string_high [OF rune_len_high [OF other(1)]] by (simp add: e)
  qed
qed

lemma parse_enc_string: "parse_string (enc_chars s @ CHR 0x22 # rest) = Some (utf8_fix s, rest)"
  by (simp add: parse_string_def scan_enc_chars)

subsection \<open>Numbers\<close>

text \<open>A literal, and what may follow it inside a text or a stream of lines.\<close>

definition number_lit :: "string \<Rightarrow> bool" where
  "number_lit t \<longleftrightarrow> parse_number t = Some (t, [])"

definition delimited :: "string \<Rightarrow> bool" where
  "delimited r \<longleftrightarrow> r = [] \<or> hd r = CHR '','' \<or> hd r = CHR '']'' \<or> hd r = CHR ''}'' \<or> hd r = CHR 0x0A"

lemma delimited_Nil [simp]: "delimited []"
  by (simp add: delimited_def)

lemma delimited_Cons [simp]: "delimited (c # r) \<longleftrightarrow> c = CHR '','' \<or> c = CHR '']'' \<or> c = CHR ''}'' \<or> c = CHR 0x0A"
  by (simp add: delimited_def)

lemma takeWhile_delimited:
  assumes "delimited r"
  shows "takeWhile is_digit (s @ r) = takeWhile is_digit s" and "dropWhile is_digit (s @ r) = dropWhile is_digit s @ r"
proof -
  have "takeWhile is_digit r = []" "dropWhile is_digit r = r"
    using assms by (cases r, auto simp: is_digit_def)+
  then show "takeWhile is_digit (s @ r) = takeWhile is_digit s" "dropWhile is_digit (s @ r) = dropWhile is_digit s @ r"
    by (induction s) auto
qed

lemma digits_of_append: "delimited r \<Longrightarrow> digits_of (s @ r) = (fst (digits_of s), snd (digits_of s) @ r)"
  by (simp add: digits_of_def takeWhile_delimited)

lemma number_int_append:
  "delimited r \<Longrightarrow> number_int s = Some (i, s') \<Longrightarrow> number_int (s @ r) = Some (i, s' @ r)"
  by (cases s) (auto simp: number_int_def Let_def digits_of_def takeWhile_delimited split: if_splits)

lemma take1_append: "delimited r \<Longrightarrow> x \<notin> {CHR '','', CHR '']'', CHR ''}'', CHR 0x0A} \<Longrightarrow> take 1 (s @ r) = [x] \<longleftrightarrow> take 1 s = [x]"
  by (cases s; cases r) auto

lemma number_frac_append:
  assumes "delimited r" and "number_frac s = Some (f, s')"
  shows "number_frac (s @ r) = Some (f, s' @ r)"
proof -
  have "take 1 (s @ r) = ''.'' \<longleftrightarrow> take 1 s = ''.''" using assms(1) by (rule take1_append) simp
  moreover have "drop 1 (s @ r) = drop 1 s @ r" if "take 1 s = ''.''" using that by (cases s) auto
  ultimately show ?thesis using assms
    by (auto simp: number_frac_def digits_of_append case_prod_unfold Let_def simp del: drop_append split: if_splits)
qed

lemma number_exp_append:
  assumes "delimited r" and "number_exp s = Some (e, s')"
  shows "number_exp (s @ r) = Some (e, s' @ r)"
proof (cases "take 1 s = ''e'' \<or> take 1 s = ''E''")
  case True
  then obtain c t where s: "s = c # t" by (cases s) auto
  show ?thesis
  proof (cases t)
    case Nil
    then show ?thesis using assms True s by (simp add: number_exp_def digits_of_def Let_def)
  next
    case (Cons d u)
    then show ?thesis using assms True s digits_of_append [OF assms(1), of "d # u"]
      by (auto simp: number_exp_def digits_of_append case_prod_unfold Let_def split: if_splits)
  qed
next
  case False
  moreover have "take 1 (s @ r) = ''e'' \<longleftrightarrow> take 1 s = ''e''" "take 1 (s @ r) = ''E'' \<longleftrightarrow> take 1 s = ''E''"
    using assms(1) by (rule take1_append, simp)+
  ultimately show ?thesis using assms by (simp add: number_exp_def)
qed

lemma parse_number_append:
  assumes "number_lit t" and "delimited r"
  shows "parse_number (t @ r) = Some (t, r)"
proof -
  have p: "parse_number t = Some (t, [])" using assms(1) by (simp add: number_lit_def)
  define sg s1 where "sg = (if take 1 t = ''-'' then ''-'' else [])" and "s1 = (if take 1 t = ''-'' then drop 1 t else t)"
  have m: "take 1 (t @ r) = ''-'' \<longleftrightarrow> take 1 t = ''-''" using assms(2) by (rule take1_append) simp
  have d: "take 1 t = ''-'' \<Longrightarrow> drop 1 (t @ r) = drop 1 t @ r" by (cases t) auto
  obtain i s2 f s3 e where n: "number_int s1 = Some (i, s2)" "number_frac s2 = Some (f, s3)"
      "number_exp s3 = Some (e, [])" "sg @ i @ f @ e = t"
    using p by (auto simp: parse_number_def sg_def s1_def Let_def split: option.splits prod.splits if_splits)
  have "parse_number (t @ r) =
      (case number_int (s1 @ r) of None \<Rightarrow> None | Some (i, s2) \<Rightarrow>
         (case number_frac s2 of None \<Rightarrow> None | Some (f, s3) \<Rightarrow>
         (case number_exp s3 of None \<Rightarrow> None | Some (e, s4) \<Rightarrow> Some (sg @ i @ f @ e, s4))))"
    using m d unfolding parse_number_def sg_def s1_def Let_def
    by (cases "take 1 t = ''-''") (simp_all del: take_append drop_append)
  with n number_int_append [OF assms(2) n(1)] number_frac_append [OF assms(2) n(2)] number_exp_append [OF assms(2) n(3)]
  show ?thesis by simp
qed

lemma show_nat_hd_zero: "hd (show_nat k) = CHR ''0'' \<Longrightarrow> k = 0"
proof (induction k rule: show_nat.induct)
  case (1 k)
  show ?case
  proof (cases "k < 10")
    case True
    have "digit_char k = CHR ''0'' \<Longrightarrow> digit_val (digit_char k) = 0" by (simp add: digit_val_def)
    moreover have "show_nat k = [digit_char k]" using True by (simp add: show_nat.simps)
    ultimately show ?thesis using True 1 digit_char_props [of k] by auto
  next
    case False
    moreover from False have "show_nat k = show_nat (k div 10) @ [digit_char (k mod 10)]" by (subst show_nat.simps) simp
    ultimately show ?thesis using 1 by (auto simp: hd_append)
  qed
qed

lemma number_lit_itoa: "number_lit (itoa n)"
proof -
  have t: "takeWhile is_digit (show_nat k) = show_nat k" "dropWhile is_digit (show_nat k) = []" for k
    using show_nat_digits [of k] by (simp_all add: takeWhile_eq_all_conv dropWhile_eq_Nil_conv list_all_iff)
  have "number_int (show_nat k) = Some (show_nat k, [])" for k
  proof (cases "hd (show_nat k) = CHR ''0''")
    case True
    then have "show_nat k = ''0''" using show_nat_hd_zero [OF True] by (simp add: show_nat.simps digit_char_def char_of_def bit_0)
    then show ?thesis by (simp add: number_int_def digits_of_def is_digit_def)
  next
    case False
    then show ?thesis by (simp add: number_int_def digits_of_def t)
  qed
  moreover have "number_frac [] = Some ([], [])" "number_exp [] = Some ([], [])"
    by (simp_all add: number_frac_def number_exp_def)
  moreover have "take (Suc 0) (show_nat k) \<noteq> ''-''" for k using show_nat_hd(1) [of k] by simp
  ultimately show ?thesis by (simp add: number_lit_def parse_number_def itoa_def)
qed

subsection \<open>Values\<close>

text \<open>
  What a tree reads back as: strings become valid UTF-8.  A tree can be written when its number literals
  are literals; it is clean when its strings are valid UTF-8 too, and then it reads back as itself.
\<close>

fun read_back :: "json \<Rightarrow> json" and reads_back :: "json list \<Rightarrow> json list"
  and members_back :: "(string \<times> json) list \<Rightarrow> (string \<times> json) list" where
  "read_back (JStr s) = JStr (utf8_fix s)"
| "read_back (JArr vs) = JArr (reads_back vs)"
| "read_back (JObj ms) = JObj (members_back ms)"
| "read_back v = v"
| "reads_back [] = []"
| "reads_back (v # vs) = read_back v # reads_back vs"
| "members_back [] = []"
| "members_back ((k, v) # ms) = (utf8_fix k, read_back v) # members_back ms"

fun writable :: "json \<Rightarrow> bool" and writables :: "json list \<Rightarrow> bool"
  and members_writable :: "(string \<times> json) list \<Rightarrow> bool" where
  "writable (JNum t) = number_lit t"
| "writable (JArr vs) = writables vs"
| "writable (JObj ms) = members_writable ms"
| "writable _ = True"
| "writables [] = True"
| "writables (v # vs) = (writable v \<and> writables vs)"
| "members_writable [] = True"
| "members_writable ((k, v) # ms) = (writable v \<and> members_writable ms)"

fun json_clean :: "json \<Rightarrow> bool" and jsons_clean :: "json list \<Rightarrow> bool"
  and members_clean :: "(string \<times> json) list \<Rightarrow> bool" where
  "json_clean (JNum t) = number_lit t"
| "json_clean (JStr s) = (utf8_fix s = s)"
| "json_clean (JArr vs) = jsons_clean vs"
| "json_clean (JObj ms) = members_clean ms"
| "json_clean _ = True"
| "jsons_clean [] = True"
| "jsons_clean (v # vs) = (json_clean v \<and> jsons_clean vs)"
| "members_clean [] = True"
| "members_clean ((k, v) # ms) = (utf8_fix k = k \<and> json_clean v \<and> members_clean ms)"

lemma clean_read_back:
  "json_clean v \<Longrightarrow> writable v \<and> read_back v = v"
  "jsons_clean vs \<Longrightarrow> writables vs \<and> reads_back vs = vs"
  "members_clean ms \<Longrightarrow> members_writable ms \<and> members_back ms = ms"
  by (induction v and vs and ms rule: json_clean_jsons_clean_members_clean.induct) auto

lemma parse_number_head: "number_lit t \<Longrightarrow> \<exists>c r. t = c # r \<and> (c = CHR ''-'' \<or> is_digit c)"
  by (cases t) (auto simp: number_lit_def parse_number_def number_int_def digits_of_def Let_def
      split: option.splits if_splits)

lemma skip_space_id [simp]: "\<not> json_space c \<Longrightarrow> skip_space (c # r) = c # r"
  by (simp add: skip_space_def)

lemma json_space_simps [simp]:
  "\<not> json_space (CHR '','')" "\<not> json_space (CHR '']'')" "\<not> json_space (CHR ''}'')" "\<not> json_space (CHR '':'')"
  "\<not> json_space (CHR 0x22)" "\<not> json_space (CHR ''['')" "\<not> json_space (CHR ''{'')" "\<not> json_space (CHR ''n'')"
  "\<not> json_space (CHR ''t'')" "\<not> json_space (CHR ''f'')"
  by (simp_all add: json_space_def)

lemma parse_value_number:
  assumes "number_lit t" and "delimited r"
  shows "parse_value (Suc n) (t @ r) = Some (JNum t, r)"
proof -
  obtain c u where t: "t = c # u" and c: "c = CHR ''-'' \<or> is_digit c" using parse_number_head [OF assms(1)] by blast
  have "\<not> json_space c" "c \<noteq> CHR 0x22" "c \<noteq> CHR ''[''" "c \<noteq> CHR ''{''" "c \<noteq> CHR ''n''" "c \<noteq> CHR ''t''" "c \<noteq> CHR ''f''"
    using c by (auto simp: json_space_def is_digit_def)
  then show ?thesis using parse_number_append [OF assms] by (simp add: t)
qed

lemma parse_value_string: "parse_value (Suc n) (enc_string s @ r) = Some (JStr (utf8_fix s), r)"
  by (simp add: enc_string_def parse_enc_string)

lemma enc_head: "writable v \<Longrightarrow> \<exists>c r. enc v = c # r \<and> \<not> json_space c \<and> c \<noteq> CHR '']'' \<and> c \<noteq> CHR ''}''"
proof (cases v)
  case (JNum t)
  assume "writable v"
  with JNum obtain c r where "t = c # r" "c = CHR ''-'' \<or> is_digit c" using parse_number_head [of t] by auto
  with JNum show ?thesis by (auto simp: json_space_def is_digit_def)
qed (auto simp: enc_string_def)

lemma enc_elems_head:
  "writables vs \<Longrightarrow> vs \<noteq> [] \<Longrightarrow> \<exists>c r. enc_elems vs = c # r \<and> \<not> json_space c \<and> c \<noteq> CHR '']''"
  by (cases vs rule: enc_elems.cases) (use enc_head in fastforce)+

lemma enc_members_head: "ms \<noteq> [] \<Longrightarrow> \<exists>r. enc_members ms = CHR 0x22 # r"
  by (cases ms rule: enc_members.cases) (auto simp: enc_string_def)

theorem parse_enc_values:
  "writable v \<Longrightarrow> length (enc v) \<le> n \<Longrightarrow> delimited r \<Longrightarrow> parse_value n (enc v @ r) = Some (read_back v, r)"
  "writables vs \<Longrightarrow> vs \<noteq> [] \<Longrightarrow> length (enc_elems vs) < n \<Longrightarrow>
     parse_elems n (enc_elems vs @ CHR '']'' # r) = Some (reads_back vs, r)"
  "members_writable ms \<Longrightarrow> ms \<noteq> [] \<Longrightarrow> length (enc_members ms) < n \<Longrightarrow>
     parse_members n (enc_members ms @ CHR ''}'' # r) = Some (members_back ms, r)"
proof (induction v and vs and ms arbitrary: n r and n r and n r rule: enc_enc_elems_enc_members.induct)
  case 1
  then show ?case by (cases n) auto
next
  case (2 b)
  then show ?case by (cases n; cases b) auto
next
  case (3 t)
  then have "t \<noteq> []" using parse_number_head by fastforce
  then obtain m where "n = Suc m" using 3 by (cases n) auto
  then show ?case using 3 parse_value_number by simp
next
  case (4 s)
  then obtain m where "n = Suc m" by (cases n) (auto simp: enc_string_def)
  then show ?case using 4 parse_value_string by simp
next
  case (5 vs)
  then obtain m where n: "n = Suc m" by (cases n) auto
  show ?case
  proof (cases "vs = []")
    case True
    then show ?thesis by (simp add: n)
  next
    case False
    then obtain c s where h: "enc_elems vs = c # s" "\<not> json_space c" "c \<noteq> CHR '']''" using enc_elems_head 5 by fastforce
    then have "take 1 (skip_space (enc_elems vs @ CHR '']'' # r)) \<noteq> '']''" by simp
    then show ?thesis using 5 False by (simp add: n)
  qed
next
  case (6 ms)
  then obtain m where n: "n = Suc m" by (cases n) auto
  show ?case
  proof (cases "ms = []")
    case True
    then show ?thesis by (simp add: n)
  next
    case False
    then have "take 1 (skip_space (enc_members ms @ CHR ''}'' # r)) \<noteq> ''}''" using enc_members_head [OF False] by auto
    then show ?thesis using 6 False by (simp add: n)
  qed
next
  case 7
  then show ?case by simp
next
  case (8 v)
  then obtain m where "n = Suc m" by (cases n) auto
  then show ?case using 8 by simp
next
  case (9 v w vs)
  then obtain m where "n = Suc m" by (cases n) auto
  then show ?case using 9 by simp
next
  case 10
  then show ?case by simp
next
  case (11 k v)
  then obtain m where "n = Suc m" by (cases n) auto
  then show ?case using 11 by (simp add: enc_string_def parse_enc_string)
next
  case (12 k v m ms)
  then obtain j where "n = Suc j" by (cases n) auto
  then show ?case using 12 by (simp add: enc_string_def parse_enc_string)
qed

text \<open>Alone, or as a line of a stream.\<close>

lemma parse_enc_any: "writable v \<Longrightarrow> parse_json (enc v) = Some (read_back v)"
  using parse_enc_values(1) [of v "2 * length (enc v) + 1" "[]"]
  by (simp add: parse_json_def parse_first_def skip_space_def)

lemma parse_enc_line: "writable v \<Longrightarrow> parse_json (enc v @ [CHR 0x0A]) = Some (read_back v)"
  using parse_enc_values(1) [of v "2 * length (enc v @ [CHR 0x0A]) + 1" "[CHR 0x0A]"]
  by (simp add: parse_json_def parse_first_def skip_space_def json_space_def)

lemma parse_enc: "json_clean v \<Longrightarrow> parse_json (enc v) = Some v"
  using parse_enc_any [of v] clean_read_back(1) [of v] by simp

subsection \<open>Decoded texts are valid UTF-8\<close>

abbreviation utf8_ok :: "string \<Rightarrow> bool" where "utf8_ok s \<equiv> utf8_fix s = s"

lemma utf8_fix_bad: "s \<noteq> [] \<Longrightarrow> rune_len s = 0 \<Longrightarrow> utf8_fix s = rune_error @ utf8_fix (tl s)"
  by (subst utf8_fix.simps) simp

lemma length_utf8_fix: "length s \<le> length (utf8_fix s)"
proof (induction s rule: utf8_fix.induct)
  case (1 s)
  show ?case
  proof (cases "s \<noteq> [] \<and> rune_len s = 0")
    case True
    then show ?thesis using 1(1) utf8_fix_bad [of s] by (cases s) (auto simp: rune_error_def)
  next
    case False
    then show ?thesis using 1(2) utf8_fix_rune [of s] rune_len_le [of s] by (cases "s = []") auto
  qed
qed

lemma utf8_ok_step: "utf8_ok s \<Longrightarrow> s \<noteq> [] \<Longrightarrow> rune_len s \<noteq> 0 \<and> utf8_ok (drop (rune_len s) s)"
proof -
  assume ok: "utf8_ok s" and ne: "s \<noteq> []"
  have "rune_len s \<noteq> 0"
  proof
    assume "rune_len s = 0"
    then have "utf8_fix s = rune_error @ utf8_fix (tl s)" using ne by (intro utf8_fix_bad)
    then have "length (utf8_fix s) = 3 + length (utf8_fix (tl s))" by (simp add: rune_error_def)
    then show False using ok length_utf8_fix [of "tl s"] ne by (cases s) auto
  qed
  moreover from this have "take (rune_len s) s @ utf8_fix (drop (rune_len s) s) = take (rune_len s) s @ drop (rune_len s) s"
    using ok utf8_fix_rune [of s] by simp
  ultimately show ?thesis by (metis same_append_eq)
qed

lemma utf8_ok_append: "utf8_ok s \<Longrightarrow> utf8_ok t \<Longrightarrow> utf8_ok (s @ t)"
proof (induction s rule: utf8_fix.induct)
  case (1 s)
  show ?case
  proof (cases "s = []")
    case False
    then have r: "rune_len s \<noteq> 0" and d: "utf8_ok (drop (rune_len s) s)" using utf8_ok_step 1(3) by blast+
    have s: "s @ t = take (rune_len s) s @ (drop (rune_len s) s @ t)" by simp
    have l: "rune_len (s @ t) = rune_len s" unfolding s using r by (rule rune_len_prefix)
    then have "utf8_fix (s @ t) = take (rune_len s) s @ utf8_fix (drop (rune_len s) s @ t)"
      using r rune_len_le [of s] utf8_fix_rune [of "s @ t"] by simp
    also have "\<dots> = s @ t" using 1(2) [OF False r d 1(4)] by simp
    finally show ?thesis .
  qed (use 1 in simp)
qed

lemma utf8_ok_ascii: "list_all (\<lambda>c. byte c < 128) s \<Longrightarrow> utf8_ok s"
  by (rule utf8_fix_ascii) (simp add: list_all_iff)

lemma utf8_ok_itoa: "utf8_ok (itoa n)"
proof (rule utf8_fix_ascii)
  fix c assume "c \<in> set (itoa n)"
  then have "c = CHR ''-'' \<or> is_digit c" using show_nat_visible by (auto simp: itoa_def split: if_splits)
  then show "byte c < 128" by (auto simp: is_digit_def byte_def)
qed

text \<open>All strings of a parsed tree are valid.\<close>

fun texts_ok :: "json \<Rightarrow> bool" and all_texts_ok :: "json list \<Rightarrow> bool" and members_ok :: "(string \<times> json) list \<Rightarrow> bool" where
  "texts_ok (JStr s) = utf8_ok s"
| "texts_ok (JArr vs) = all_texts_ok vs"
| "texts_ok (JObj ms) = members_ok ms"
| "texts_ok _ = True"
| "all_texts_ok [] = True"
| "all_texts_ok (v # vs) = (texts_ok v \<and> all_texts_ok vs)"
| "members_ok [] = True"
| "members_ok ((k, v) # ms) = (texts_ok v \<and> members_ok ms)"

lemma parse_texts_ok:
  "parse_value n s = Some (v, r) \<Longrightarrow> texts_ok v"
  "parse_elems n s = Some (vs, r) \<Longrightarrow> all_texts_ok vs"
  "parse_members n s = Some (ms, r) \<Longrightarrow> members_ok ms"
proof (induction n s and n s and n s arbitrary: v r and vs r and ms r rule: parse_value_parse_elems_parse_members.induct)
  case (2 n s)
  then show ?case by (auto simp: parse_string_def split: list.splits option.splits if_splits)
next
  case (4 n s)
  then show ?case by (auto split: list.splits option.splits if_splits)
next
  case (6 n s)
  then show ?case by (auto split: list.splits option.splits if_splits)
qed simp_all

lemma all_texts_ok_iff: "all_texts_ok vs \<longleftrightarrow> (\<forall>v \<in> set vs. texts_ok v)"
  by (induction vs) auto

lemma members_ok_iff: "members_ok ms \<longleftrightarrow> (\<forall>m \<in> set ms. texts_ok (snd m))"
  by (induction ms) auto

lemma utf8_ok_Cons: "byte c < 128 \<Longrightarrow> utf8_ok s \<Longrightarrow> utf8_ok (c # s)"
  using utf8_ok_append [of "[c]" s] utf8_ok_ascii [of "[c]"] by simp

lemma parse_json_texts_ok: "parse_json s = Some v \<Longrightarrow> texts_ok v"
  using parse_texts_ok(1)
  by (auto simp: parse_json_def parse_first_def simp del: parse_value.simps split: option.splits if_splits)

end
