(* ===== verification/Threat_Intel.thy ===== *)
theory Threat_Intel
  imports Go_Json
begin

text \<open>
  \<open>internal/threatintel/threatintel.go\<close>: the feed of known-exploited CVEs (CISA KEV) and EPSS
  probabilities.  The global feed is passed explicitly.  Outside the model, as parameters: the
  file system (\<open>readf\<close>: a path to its contents), the HTTP client (\<open>get\<close>: an address to an error or to a status,
  the bytes of the body and the error that ends them, if any), the gzip reader, and the texts of JSON errors (\<open>jerr\<close>).
\<close>

record Feed =
  t_kev :: "(string \<times> bool) list"
  t_epss :: "(string \<times> f64) list"

definition defaultKEV :: "(string \<times> bool) list" where
  "defaultKEV =
     [(''CVE-2021-44228'', True), (''CVE-2021-4034'', True), (''CVE-2017-0144'', True),
      (''CVE-2014-0160'', True), (''CVE-2019-0708'', True), (''CVE-2020-1472'', True),
      (''CVE-2021-34527'', True), (''CVE-2022-1388'', True), (''CVE-2023-23397'', True),
      (''CVE-2023-34362'', True)]"

definition global_feed :: Feed where
  "global_feed = \<lparr>t_kev = defaultKEV, t_epss = []\<rparr>"

text \<open>\<open>f.kev[k]\<close>: false when the key is absent.\<close>

definition kev_lookup :: "Feed \<Rightarrow> string \<Rightarrow> bool" where
  "kev_lookup fd k = (case map_of (t_kev fd) k of None \<Rightarrow> False | Some b \<Rightarrow> b)"

definition IsKEV :: "Feed \<Rightarrow> string \<Rightarrow> bool" where
  "IsKEV fd cve =
     (if cve = [] then False
      else list_ex (\<lambda>c. kev_lookup fd (trim_space c)) (split_on (CHR '','') cve))"

definition epss_lookup :: "Feed \<Rightarrow> string \<Rightarrow> f64" where
  "epss_lookup fd k = (case map_of (t_epss fd) k of None \<Rightarrow> Fin 0 | Some v \<Rightarrow> v)"

fun epss_max :: "Feed \<Rightarrow> f64 \<Rightarrow> string list \<Rightarrow> f64" where
  "epss_max fd m [] = m"
| "epss_max fd m (c # cs) =
     (let v = epss_lookup fd (trim_space c) in epss_max fd (if m < v then v else m) cs)"

definition EPSS :: "Feed \<Rightarrow> string \<Rightarrow> f64" where
  "EPSS fd cve = (if cve = [] then Fin 0 else epss_max fd (Fin 0) (split_on (CHR '','') cve))"

section \<open>Decoding the feeds\<close>

text \<open>
  \<open>bufio.Scanner\<close> over lines with a buffer of \<open>max\<close> bytes: the lines without their end
  (a carriage return before the newline is dropped too), and whether it stopped at a line that
  does not fit.  A final empty line is not delivered.
\<close>

definition drop_cr :: "string \<Rightarrow> string" where
  "drop_cr s = (if s \<noteq> [] \<and> last s = CHR 0x0D then butlast s else s)"

fun scan_split :: "nat \<Rightarrow> string list \<Rightarrow> string list \<times> bool" where
  "scan_split mx [] = ([], False)"
| "scan_split mx [l] =
     (if l = [] then ([], False) else if mx \<le> length l then ([], True) else ([drop_cr l], False))"
| "scan_split mx (l # l' # ls) =
     (if mx \<le> length l then ([], True)
      else (let (r, tooLong) = scan_split mx (l' # ls) in (drop_cr l # r, tooLong)))"

definition scan_lines :: "nat \<Rightarrow> string \<Rightarrow> string list \<times> bool" where
  "scan_lines mx s = scan_split mx (split_on (CHR 0x0A) s)"

text \<open>One line of the CSV: metadata, header and noise are skipped, so are unparsable scores.\<close>

definition epss_line :: "string \<Rightarrow> (string \<times> f64) list \<Rightarrow> (string \<times> f64) list" where
  "epss_line raw out =
     (let line = trim_space raw in
      if line = [] \<or> has_prefix line ''#'' then out
      else (let parts = split_on (CHR '','') line in
        if length parts < 2 \<or> \<not> has_prefix (to_upper (hd parts)) ''CVE-'' then out
        else (case parse_float (trim_space (parts ! 1)) of
                None \<Rightarrow> out
              | Some v \<Rightarrow> AList.update (trim_space (hd parts)) v out)))"

definition parseEPSS :: "(string \<Rightarrow> string + string) \<Rightarrow> string \<Rightarrow> string + (string \<times> f64) list" where
  "parseEPSS readf path =
     (case readf path of
        Inl e \<Rightarrow> Inl e
      | Inr text \<Rightarrow>
          (let (lines, tooLong) = scan_lines (1024 * 1024) text
           in if tooLong then Inl ''bufio.Scanner: token too long'' else Inr (fold epss_line lines [])))"

definition decodeEPSS :: "string \<Rightarrow> (string \<times> f64) list" where
  "decodeEPSS text = fold epss_line (fst (scan_lines (4 * 1024 * 1024) text)) []"

definition kev_decoder :: "string list decoder" where
  "kev_decoder = dec_struct False [(''vulnerabilities'', dec_list [] (dec_struct False [(''cveID'', dec_string)]))]"

definition decodeKEV :: "(string \<Rightarrow> string) \<Rightarrow> string \<Rightarrow> string + string list" where
  "decodeKEV jerr text =
     (case unmarshal kev_decoder text [] of
        (ids, True) \<Rightarrow> Inl (jerr text)
      | (ids, False) \<Rightarrow> Inr (filter (\<lambda>i. i \<noteq> []) (map trim_space ids)))"

definition parseKEV :: "(string \<Rightarrow> string + string) \<Rightarrow> (string \<Rightarrow> string) \<Rightarrow> string \<Rightarrow> string + string list" where
  "parseKEV readf jerr path =
     (case readf path of Inl e \<Rightarrow> Inl e | Inr text \<Rightarrow> decodeKEV jerr text)"

definition add_kev :: "string list \<Rightarrow> (string \<times> bool) list \<Rightarrow> (string \<times> bool) list" where
  "add_kev ids m = fold (\<lambda>i. AList.update i True) ids m"

section \<open>Loading\<close>

text \<open>The result is the pair of counts or an error, with the feed after the call.\<close>

definition Load ::
    "(string \<Rightarrow> string + string) \<Rightarrow> (string \<Rightarrow> string) \<Rightarrow> string \<Rightarrow> string
       \<Rightarrow> Feed \<Rightarrow> (string + nat \<times> nat) \<times> Feed" where
  "Load readf jerr kevPath epssPath fd =
     (case (if kevPath = [] then Inr [] else parseKEV readf jerr kevPath) of
        Inl e \<Rightarrow> (Inl e, fd)
      | Inr ids \<Rightarrow>
          (case (if epssPath = [] then Inr [] else parseEPSS readf epssPath) of
             Inl e \<Rightarrow> (Inl e, fd)
           | Inr epss \<Rightarrow>
               (let kev = add_kev ids defaultKEV
                in (Inr (length kev, length epss), \<lparr>t_kev = kev, t_epss = epss\<rparr>))))"

text \<open>The body of an answer with status 200, cut at 64 MiB; an error in the body counts when it comes before.\<close>

type_synonym http_get = "string \<Rightarrow> string + int \<times> string \<times> string option"

definition fetch :: "http_get \<Rightarrow> string \<Rightarrow> string + string" where
  "fetch get url =
     (case get url of
        Inl e \<Rightarrow> Inl e
      | Inr (status, body, err) \<Rightarrow>
          if status \<noteq> 200 then Inl (''HTTP '' @ itoa status)
          else if length body < 64 * 2 ^ 20
          then (case err of Some e \<Rightarrow> Inl e | None \<Rightarrow> Inr body)
          else Inr (take (64 * 2 ^ 20) body))"

definition FetchAndLoad ::
    "http_get \<Rightarrow> (string \<Rightarrow> string) \<Rightarrow> (string \<Rightarrow> string + string)
       \<Rightarrow> string \<Rightarrow> string \<Rightarrow> Feed \<Rightarrow> (string + nat \<times> nat) \<times> Feed" where
  "FetchAndLoad get jerr gunzip kevURL epssURL fd =
     (case (if kevURL = [] then Inr []
            else (case fetch get kevURL of
                    Inl e \<Rightarrow> Inl (''fetch KEV: '' @ e)
                  | Inr body \<Rightarrow>
                      (case decodeKEV jerr body of
                         Inl e \<Rightarrow> Inl (''parse KEV: '' @ e) | Inr ids \<Rightarrow> Inr ids))) of
        Inl e \<Rightarrow> (Inl e, fd)
      | Inr ids \<Rightarrow>
          (case (if epssURL = [] then Inr []
                 else (case fetch get epssURL of
                         Inl e \<Rightarrow> Inl (''fetch EPSS: '' @ e)
                       | Inr body \<Rightarrow>
                           (if has_suffix epssURL ''.gz''
                            then (case gunzip body of
                                    Inl e \<Rightarrow> Inl e | Inr text \<Rightarrow> Inr (decodeEPSS text))
                            else Inr (decodeEPSS body)))) of
             Inl e \<Rightarrow> (Inl e, fd)
           | Inr epss \<Rightarrow>
               (let kev = add_kev ids defaultKEV
                in (Inr (length kev, length epss), \<lparr>t_kev = kev, t_epss = epss\<rparr>))))"

section \<open>Lemmas\<close>

lemma IsKEV_iff:
  "IsKEV fd cve \<longleftrightarrow> cve \<noteq> [] \<and> (\<exists>c \<in> set (split_on (CHR '','') cve). kev_lookup fd (trim_space c))"
  by (simp add: IsKEV_def list_ex_iff)

lemma IsKEV_single:
  assumes "list_all visible cve" and "CHR '','' \<notin> set cve" and "cve \<noteq> []"
  shows "IsKEV fd cve = kev_lookup fd cve"
  using assms by (simp add: IsKEV_iff split_on_none trim_space_visible list_all_iff)

lemma map_of_add_kev: "map_of (add_kev ids m) k = (if k \<in> set ids then Some True else map_of m k)"
  by (induction ids arbitrary: m) (auto simp: add_kev_def)

lemma defaultKEV_distinct: "distinct (map fst defaultKEV)"
  by (simp add: defaultKEV_def)

lemma add_kev_distinct: "distinct (map fst m) \<Longrightarrow> distinct (map fst (add_kev ids m))"
  by (induction ids arbitrary: m) (auto simp: add_kev_def AList.distinct_update)

lemma epss_max_ge: "m \<noteq> NaN \<Longrightarrow> m \<le> epss_max fd m cs \<and> epss_max fd m cs \<noteq> NaN"
proof (induction cs arbitrary: m)
  case Nil
  then show ?case by (simp add: f64_le_refl)
next
  case (Cons c cs)
  define v where "v = epss_lookup fd (trim_space c)"
  show ?case
  proof (cases "m < v")
    case True
    then have "v \<noteq> NaN" and "m \<le> v" by (auto simp: less_eq_f64_def)
    with Cons.IH [of v] True f64_le_trans show ?thesis by (auto simp: v_def Let_def)
  next
    case False
    with Cons.IH [of m] Cons.prems show ?thesis by (simp add: v_def Let_def)
  qed
qed

lemma epss_max_upper:
  "m \<noteq> NaN \<Longrightarrow> c \<in> set cs \<Longrightarrow> epss_lookup fd (trim_space c) \<noteq> NaN \<Longrightarrow>
     epss_lookup fd (trim_space c) \<le> epss_max fd m cs"
proof (induction cs arbitrary: m)
  case (Cons d cs)
  define v where "v = epss_lookup fd (trim_space d)"
  define m' where "m' = (if m < v then v else m)"
  have m': "m' \<noteq> NaN" using Cons.prems(1) by (auto simp: m'_def)
  have e: "epss_max fd m (d # cs) = epss_max fd m' cs" by (simp add: v_def m'_def Let_def)
  show ?case
  proof (cases "c = d")
    case True
    with Cons.prems have "v \<le> m'" by (auto simp: m'_def v_def f64_less_le f64_le_refl)
    with epss_max_ge [OF m', of fd cs] True show ?thesis
      unfolding e v_def by (blast intro: f64_le_trans)
  next
    case False
    with Cons.IH [OF m'] Cons.prems show ?thesis unfolding e by simp
  qed
qed simp

lemma epss_max_attained:
  "epss_max fd m cs = m \<or> (\<exists>c \<in> set cs. epss_max fd m cs = epss_lookup fd (trim_space c))"
  by (induction cs arbitrary: m) (auto simp: Let_def)

section \<open>A loaded feed\<close>

text \<open>What one line says, and what the lines of a file say together: the last line of a CVE counts.\<close>

definition epss_entry :: "string \<Rightarrow> (string \<times> f64) option" where
  "epss_entry raw =
     (let parts = split_on (CHR '','') (trim_space raw)
      in if has_prefix (trim_space raw) ''#'' \<or> length parts < 2 \<or> \<not> has_prefix (to_upper (hd parts)) ''CVE-'' then None
         else map_option (Pair (trim_space (hd parts))) (parse_float (trim_space (parts ! 1))))"

lemma epss_line_entry: "epss_line raw out = (case epss_entry raw of None \<Rightarrow> out | Some (c, v) \<Rightarrow> AList.update c v out)"
proof (cases "trim_space raw")
  case Nil
  then show ?thesis by (simp add: epss_line_def epss_entry_def)
next
  case (Cons c s)
  then show ?thesis by (auto simp: epss_line_def epss_entry_def Let_def split: option.split)
qed

lemma epss_table:
  "map_of (fold epss_line ls m) = map_of (rev (List.map_filter epss_entry ls) @ m)"
proof (induction ls arbitrary: m)
  case (Cons l ls)
  show ?case unfolding fold_Cons comp_apply Cons.IH
    by (cases "epss_entry l") (auto simp: epss_line_entry List.map_filter_simps AList.update_conv' map_of_append map_add_def fun_eq_iff split: option.split)
qed (simp add: List.map_filter_simps)

lemma kev_table: "kev_lookup \<lparr>t_kev = add_kev ids defaultKEV, t_epss = es\<rparr> c \<longleftrightarrow> c \<in> fst ` set defaultKEV \<union> set ids"
proof -
  have "map_of defaultKEV c = (if c \<in> fst ` set defaultKEV then Some True else None)"
  proof (cases "map_of defaultKEV c")
    case None
    then show ?thesis by (simp add: map_of_eq_None_iff)
  next
    case (Some b)
    then have "(c, b) \<in> set defaultKEV" by (rule map_of_SomeD)
    then show ?thesis using Some by (force simp: defaultKEV_def)
  qed
  then show ?thesis by (simp add: kev_lookup_def map_of_add_kev)
qed

lemma fetch_ok: "fetch get url = Inr body \<Longrightarrow> \<exists>b err. get url = Inr (200, b, err) \<and> body = take (64 * 2 ^ 20) b"
  by (auto simp: fetch_def split: sum.splits prod.splits if_splits option.splits)

text \<open>The two halves of \<open>FetchAndLoad\<close>.\<close>

definition fetched_kev :: "http_get \<Rightarrow> (string \<Rightarrow> string) \<Rightarrow> string \<Rightarrow> string + string list" where
  "fetched_kev get jerr url =
     (if url = [] then Inr []
      else case fetch get url of Inl e \<Rightarrow> Inl (''fetch KEV: '' @ e)
        | Inr body \<Rightarrow> (case decodeKEV jerr body of Inl e \<Rightarrow> Inl (''parse KEV: '' @ e) | Inr ids \<Rightarrow> Inr ids))"

definition fetched_epss :: "http_get \<Rightarrow> (string \<Rightarrow> string + string) \<Rightarrow> string \<Rightarrow> string + (string \<times> f64) list" where
  "fetched_epss get gunzip url =
     (if url = [] then Inr []
      else case fetch get url of Inl e \<Rightarrow> Inl (''fetch EPSS: '' @ e)
        | Inr body \<Rightarrow> if has_suffix url ''.gz'' then (case gunzip body of Inl e \<Rightarrow> Inl e | Inr text \<Rightarrow> Inr (decodeEPSS text))
            else Inr (decodeEPSS body))"

lemma FetchAndLoad_parts:
  "FetchAndLoad get jerr gunzip kevURL epssURL fd =
     (case fetched_kev get jerr kevURL of Inl e \<Rightarrow> (Inl e, fd)
      | Inr ids \<Rightarrow> (case fetched_epss get gunzip epssURL of Inl e \<Rightarrow> (Inl e, fd)
          | Inr es \<Rightarrow> (Inr (length (add_kev ids defaultKEV), length es), \<lparr>t_kev = add_kev ids defaultKEV, t_epss = es\<rparr>)))"
  unfolding FetchAndLoad_def fetched_kev_def fetched_epss_def Let_def by (rule refl)

lemma fetched_kev_ok:
  "fetched_kev get jerr url = Inr ids \<Longrightarrow> if url = [] then ids = [] else \<exists>body. fetch get url = Inr body \<and> decodeKEV jerr body = Inr ids"
  by (auto simp: fetched_kev_def split: if_splits sum.splits)

lemma fetched_epss_ok:
  assumes "fetched_epss get gunzip url = Inr es"
  obtains doc where "if url = [] then doc = []
      else \<exists>body. fetch get url = Inr body \<and> (if has_suffix url ''.gz'' then gunzip body = Inr doc else body = doc)"
    and "map_of es = map_of (rev (List.map_filter epss_entry (fst (scan_lines (4 * 1024 * 1024) doc))))"
proof -
  have nil: "decodeEPSS [] = []" by (simp add: decodeEPSS_def scan_lines_def)
  obtain doc where d: "if url = [] then doc = []
      else \<exists>body. fetch get url = Inr body \<and> (if has_suffix url ''.gz'' then gunzip body = Inr doc else body = doc)"
    and es: "es = decodeEPSS doc"
    using assms nil by (cases "url = []"; cases "has_suffix url ''.gz''") (auto simp: fetched_epss_def split: sum.splits)
  have "map_of es = map_of (rev (List.map_filter epss_entry (fst (scan_lines (4 * 1024 * 1024) doc))))"
    by (simp add: es decodeEPSS_def epss_table)
  with d show thesis by (rule that)
qed


end
