(* ===== verification/Risk.thy ===== *)
theory Risk
  imports Models Threat_Intel
begin

text \<open>
  \<open>internal/risk/risk.go\<close>: the risk score, on \<open>float64\<close> as the code computes it (each product
  and the rounding to one decimal are rounded operations).
\<close>

definition criticalityWeight :: "Criticality \<Rightarrow> f64" where
  "criticalityWeight c =
     (if c = CritCritical then to_f64 (15 / 10)
      else if c = CritHigh then to_f64 (125 / 100)
      else if c = CritMedium then to_f64 1
      else if c = CritLow then to_f64 (75 / 100)
      else to_f64 1)"

definition round1 :: "f64 \<Rightarrow> f64" where
  "round1 f = f64_div (f64_of_int (go_int (f * to_f64 10 + to_f64 (1 / 2)))) (to_f64 10)"

definition IsKnownExploited :: "Feed \<Rightarrow> string \<Rightarrow> bool" where
  "IsKnownExploited fd cve = IsKEV fd cve"

definition Score :: "Feed \<Rightarrow> f64 \<Rightarrow> string \<Rightarrow> Criticality \<Rightarrow> f64 \<times> bool" where
  "Score fd cvss cve crit =
     (let known = IsKnownExploited fd cve;
          threat = (if known then to_f64 (13 / 10) else to_f64 1);
          score = cvss * criticalityWeight crit * threat;
          score = (if to_f64 10 < score then to_f64 10 else score);
          score = (if score < to_f64 0 then to_f64 0 else score)
      in (round1 score, known))"

definition SeverityToCVSS :: "Severity \<Rightarrow> f64" where
  "SeverityToCVSS sev =
     (if sev = SevCritical then to_f64 (95 / 10)
      else if sev = SevHigh then to_f64 (75 / 10)
      else if sev = SevMedium then to_f64 5
      else if sev = SevLow then to_f64 3
      else to_f64 1)"

definition cweVectors :: "(string \<times> string) list" where
  "cweVectors =
     [(''CWE-327'', ''CVSS:3.1/AV:N/AC:H/PR:N/UI:N/S:U/C:H/I:N/A:N''),
      (''CWE-502'', ''CVSS:3.1/AV:N/AC:L/PR:N/UI:N/S:U/C:H/I:H/A:H''),
      (''CWE-798'', ''CVSS:3.1/AV:N/AC:L/PR:N/UI:N/S:U/C:H/I:H/A:N''),
      (''CWE-269'', ''CVSS:3.1/AV:L/AC:L/PR:L/UI:N/S:U/C:H/I:H/A:H''),
      (''CWE-250'', ''CVSS:3.1/AV:L/AC:L/PR:L/UI:N/S:U/C:H/I:H/A:H''),
      (''CWE-538'', ''CVSS:3.1/AV:N/AC:L/PR:N/UI:N/S:U/C:H/I:N/A:N''),
      (''CWE-693'', ''CVSS:3.1/AV:N/AC:L/PR:N/UI:R/S:U/C:L/I:L/A:N''),
      (''CWE-1327'', ''CVSS:3.1/AV:N/AC:L/PR:N/UI:N/S:U/C:L/I:N/A:N'')]"

definition RepresentativeVector :: "string \<Rightarrow> string" where
  "RepresentativeVector cwe = (case map_of cweVectors cwe of None \<Rightarrow> [] | Some v \<Rightarrow> v)"

section \<open>Lemmas\<close>

text \<open>The weights are dyadic, hence exact.\<close>

lemma to_f64_quarters:
  "\<bar>n\<bar> < 2 ^ 52 \<Longrightarrow> to_f64 (of_int n / 4) = Fin (of_int n / 4)"
  using to_f64_Fin [of "of_int n / 4" "\<bar>n\<bar>"] rnd64_exact [of n "- 2"]
  by (simp add: power_int_minus abs_if split: if_splits)

lemma criticalityWeight_cases:
  "criticalityWeight c =
     Fin (if c = CritCritical then 3 / 2 else if c = CritHigh then 5 / 4
          else if c = CritLow then 3 / 4 else 1)"
  using to_f64_quarters [of 6] to_f64_quarters [of 5] to_f64_quarters [of 3]
  by (simp add: criticalityWeight_def)

definition weight_rat :: "Criticality \<Rightarrow> rat" where
  "weight_rat c =
     (if c = CritCritical then 3 / 2 else if c = CritHigh then 5 / 4
      else if c = CritLow then 3 / 4 else 1)"

lemma criticalityWeight_rat: "criticalityWeight c = Fin (weight_rat c)"
  by (simp add: criticalityWeight_cases weight_rat_def)

lemma weight_rat_pos: "0 < weight_rat c"
  by (simp add: weight_rat_def)

definition threat_rat :: "bool \<Rightarrow> rat" where
  "threat_rat known = (if known then rnd64 (13 / 10) else 1)"

lemma threat_factor: "(if known then to_f64 (13 / 10) else to_f64 1) = Fin (threat_rat known)"
  using to_f64_Fin [of "13 / 10" 2] by (simp add: threat_rat_def)

lemma threat_rat_ge1: "1 \<le> threat_rat known"
  using r64.ge_int [of 1 "13 / 10"] by (simp add: threat_rat_def)

text \<open>The clamped product, before the rounding to one decimal.\<close>

definition clamp10 :: "f64 \<Rightarrow> f64" where
  "clamp10 s = (let s = (if to_f64 10 < s then to_f64 10 else s)
                in if s < to_f64 0 then to_f64 0 else s)"

lemma Score_alt:
  "Score fd cvss cve crit =
     (round1 (clamp10 (cvss * Fin (weight_rat crit) * Fin (threat_rat (IsKEV fd cve)))),
      IsKEV fd cve)"
  unfolding Score_def clamp10_def Let_def IsKnownExploited_def threat_factor criticalityWeight_rat
  by simp

lemma clamp10_range: "s \<noteq> NaN \<Longrightarrow> \<exists>q. clamp10 s = Fin q \<and> 0 \<le> q \<and> q \<le> 10"
  by (cases s) (auto simp: clamp10_def Let_def less_f64_def)

lemma clamp10_mono: "s \<le> t \<Longrightarrow> clamp10 s \<le> clamp10 t"
  by (cases s; cases t) (auto simp: clamp10_def Let_def f64_le_iff less_f64_def)

lemma clamp10_Fin: "clamp10 (Fin q) = Fin (max 0 (min 10 q))"
  by (simp add: clamp10_def Let_def)

text \<open>Rounding to one decimal: a multiple of a tenth (as a float), monotone and accurate.\<close>

definition tenths :: "rat \<Rightarrow> int" where
  "tenths q = \<lfloor>rnd64 (rnd64 (q * 10) + 1 / 2)\<rfloor>"

lemma round1_Fin:
  assumes "0 \<le> q" and "q \<le> 10"
  shows "round1 (Fin q) = Fin (rnd64 (of_int (tenths q) / 10))"
    and "0 \<le> tenths q" and "tenths q \<le> 100"
  using round_dec [of q 10 10 "tenths q"] assms by (simp_all add: round1_def tenths_def)

lemma tenths_mono: "p \<le> q \<Longrightarrow> tenths p \<le> tenths q"
  unfolding tenths_def by (intro floor_mono r64.mono add_right_mono mult_right_mono) auto

lemma round1_mono:
  assumes "0 \<le> p" and "p \<le> q" and "q \<le> 10"
  shows "round1 (Fin p) \<le> round1 (Fin q)"
proof -
  have "rnd64 (of_int (tenths p) / 10) \<le> rnd64 (of_int (tenths q) / 10)"
    using tenths_mono [OF assms(2)] by (intro r64.mono divide_right_mono) auto
  with assms show ?thesis by (simp add: round1_Fin)
qed

section \<open>Properties of the score\<close>

text \<open>The exact, unrounded score the code approximates.\<close>

definition exact_score :: "rat \<Rightarrow> Criticality \<Rightarrow> bool \<Rightarrow> rat" where
  "exact_score c crit known =
     max 0 (min 10 (c * weight_rat crit * (if known then 13 / 10 else 1)))"

lemma round1_accurate:
  assumes "0 \<le> q" and "q \<le> 10"
  shows "\<bar>rnd64 (of_int (tenths q) / 10) - q\<bar> \<le> 1 / 20 + 32 / 2 ^ 53"
proof -
  define y where "y = rnd64 (q * 10)"
  define z where "z = rnd64 (y + 1 / 2)"
  have k: "tenths q = \<lfloor>z\<rfloor>" by (simp add: tenths_def z_def y_def)
  have y: "\<bar>y - q * 10\<bar> \<le> 100 / 2 ^ 53"
    using rnd64_abs_err [of "q * 10" 100] assms by (simp add: y_def)
  have y2: "0 \<le> y" "y \<le> 100"
    using r64.nonneg [of "q * 10"] r64.le_int [of 100 "q * 10"] assms by (simp_all add: y_def)
  then have "\<bar>z - (y + 1 / 2)\<bar> \<le> 101 / 2 ^ 53"
    using rnd64_abs_err [of "y + 1 / 2" 101] by (simp add: z_def)
  moreover have "of_int (tenths q) \<le> z" "z < of_int (tenths q) + 1" unfolding k by linarith+
  ultimately have "\<bar>of_int (tenths q) - q * 10\<bar> \<le> 1 / 2 + 201 / 2 ^ 53"
    using y unfolding abs_le_iff by (simp add: field_simps)
  then have a: "\<bar>of_int (tenths q) / 10 - q\<bar> \<le> 1 / 20 + 21 / 2 ^ 53"
    unfolding abs_le_iff by (simp add: field_simps)
  have "\<bar>of_int (tenths q) / 10\<bar> \<le> (10 :: rat)"
    using round1_Fin(2,3) [OF assms] by (simp add: divide_le_eq abs_le_iff)
  then have "\<bar>rnd64 (of_int (tenths q) / 10) - of_int (tenths q) / 10\<bar> \<le> 10 / 2 ^ 53"
    by (rule rnd64_abs_err) simp
  with a show ?thesis unfolding abs_le_iff by (simp add: field_simps)
qed

lemma product_accurate:
  assumes "0 \<le> c" and "c \<le> 10"
  shows "\<exists>p. Fin c * Fin (weight_rat crit) * Fin (threat_rat known) = Fin p \<and>
    \<bar>p - c * weight_rat crit * (if known then 13 / 10 else 1)\<bar> \<le> 83 / 2 ^ 53"
proof -
  define w where "w = weight_rat crit"
  define t where "t = (if known then 13 / 10 else 1 :: rat)"
  define r where "r = threat_rat known"
  define s1 where "s1 = rnd64 (c * w)"
  have w: "0 \<le> w" "w \<le> 3 / 2" by (simp_all add: w_def weight_rat_def)
  have cw: "0 \<le> c * w" "c * w \<le> 15"
    using assms w mult_mono [of c 10 w "3 / 2"] by simp_all
  have m1: "Fin c * Fin w = Fin s1"
    using to_f64_Fin [of "c * w" 15] cw by (simp add: s1_def)
  have e1: "\<bar>s1 - c * w\<bar> \<le> 15 / 2 ^ 53"
    using rnd64_abs_err [of "c * w" 15] cw by (simp add: s1_def)
  have s1: "0 \<le> s1" "s1 \<le> 15"
    using r64.nonneg [OF cw(1)] r64.le_int [of 15 "c * w"] cw by (simp_all add: s1_def)
  have rt: "\<bar>r - t\<bar> \<le> 2 / 2 ^ 53" "1 \<le> r" "r \<le> 2"
    using rnd64_abs_err [of "13 / 10" 2] r64.le_int [of 2 "13 / 10"] threat_rat_ge1 [of known]
    by (auto simp: r_def t_def threat_rat_def)
  have sr: "0 \<le> s1 * r" "s1 * r \<le> 30"
    using s1 rt mult_mono [of s1 15 r 2] by simp_all
  have m2: "Fin s1 * Fin r = Fin (rnd64 (s1 * r))"
    using to_f64_Fin [of "s1 * r" 30] sr by simp
  have e2: "\<bar>rnd64 (s1 * r) - s1 * r\<bar> \<le> 30 / 2 ^ 53"
    using rnd64_abs_err [of "s1 * r" 30] sr by simp
  have "s1 * r - c * w * t = s1 * (r - t) + (s1 - c * w) * t" by (simp add: algebra_simps)
  moreover have "\<bar>s1 * (r - t)\<bar> \<le> 15 * (2 / 2 ^ 53)"
    using s1 rt(1) unfolding abs_mult by (intro mult_mono) auto
  moreover have "\<bar>(s1 - c * w) * t\<bar> \<le> 15 / 2 ^ 53 * (13 / 10)"
    using e1 unfolding abs_mult by (intro mult_mono) (auto simp: t_def)
  ultimately have "\<bar>rnd64 (s1 * r) - c * w * t\<bar> \<le> 83 / 2 ^ 53"
    using e2 unfolding abs_le_iff by (simp add: field_simps)
  with m1 m2 show ?thesis unfolding w_def t_def r_def by auto
qed

lemma Score_tenths:
  assumes "cvss \<noteq> NaN"
  shows "\<exists>k. 0 \<le> k \<and> k \<le> 100 \<and> fst (Score fd cvss cve crit) = Fin (rnd64 (of_int k / 10)) \<and>
    0 \<le> rnd64 (of_int k / 10) \<and> rnd64 (of_int k / 10) \<le> 10"
proof -
  have "cvss * Fin (weight_rat crit) * Fin (threat_rat (IsKEV fd cve)) \<noteq> NaN"
    using assms weight_rat_pos [of crit] threat_rat_ge1 [of "IsKEV fd cve"]
    by (intro f64_mult_not_NaN) auto
  then obtain q where q: "clamp10 (cvss * Fin (weight_rat crit) * Fin (threat_rat (IsKEV fd cve))) = Fin q"
      "0 \<le> q" "q \<le> 10"
    using clamp10_range by blast
  have k: "0 \<le> tenths q" "tenths q \<le> 100" by (rule round1_Fin [OF q(2,3)])+
  have "of_int (tenths q) / 10 \<le> (of_int 10 :: rat)" using k by (simp add: divide_le_eq)
  then have "rnd64 (of_int (tenths q) / 10) \<le> 10" using r64.le_int [of 10] by simp
  moreover have "0 \<le> rnd64 (of_int (tenths q) / 10)" using k by (intro r64.nonneg) simp
  ultimately show ?thesis
    using k q(1) round1_Fin(1) [OF q(2,3)] by (intro exI [of _ "tenths q"]) (simp add: Score_alt)
qed

text \<open>The risk score lies in 0..10 for every CVSS value that is a number, infinities included,
  every CVE list and every criticality, and it is a whole number of tenths (as a float).\<close>

theorem score_range:
  assumes "cvss \<noteq> NaN"
  shows "\<exists>k. 0 \<le> k \<and> k \<le> 100 \<and> fst (Score fd cvss cve crit) = Fin (rnd64 (of_int k / 10)) \<and>
    0 \<le> rnd64 (of_int k / 10) \<and> rnd64 (of_int k / 10) \<le> 10"
  using assms by (rule Score_tenths)

theorem score_range_witness:
  "\<exists>k. 0 \<le> k \<and> k \<le> 100 \<and>
     fst (Score global_feed PInf ''CVE-2021-44228'' CritLow) = Fin (rnd64 (of_int k / 10)) \<and>
     0 \<le> rnd64 (of_int k / 10) \<and> rnd64 (of_int k / 10) \<le> 10"
  by (rule score_range) simp

text \<open>The score never falls when the CVSS value rises, when the asset is weighted higher, or when the
  vulnerability becomes known-exploited.\<close>

theorem score_mono:
  assumes "Fin 0 \<le> cvss" and "cvss \<le> cvss'"
    and "criticalityWeight crit \<le> criticalityWeight crit'"
    and "IsKEV fd cve \<longrightarrow> IsKEV fd' cve'"
  shows "fst (Score fd cvss cve crit) \<le> fst (Score fd' cvss' cve' crit')"
proof -
  define w w' where "w = weight_rat crit" and "w' = weight_rat crit'"
  define t t' where "t = threat_rat (IsKEV fd cve)" and "t' = threat_rat (IsKEV fd' cve')"
  have w: "w \<le> w'" "0 < w" using assms(3) weight_rat_pos by (simp_all add: w_def w'_def criticalityWeight_rat)
  have t: "t \<le> t'" "0 < t"
    using assms(4) threat_rat_ge1 [of True] threat_rat_ge1 [of "IsKEV fd cve"]
    by (auto simp: t_def t'_def threat_rat_def)
  have c': "Fin 0 \<le> cvss'" using assms(1,2) by (rule f64_le_trans)
  have a: "cvss * Fin w \<le> cvss' * Fin w'"
    using f64_mult_right_mono [OF assms(2) w(2)] f64_mult_left_mono [OF c' w] by (rule f64_le_trans)
  have n: "Fin 0 \<le> cvss' * Fin w'" using c' w by (intro f64_mult_nonneg) auto
  have p: "cvss * Fin w * Fin t \<le> cvss' * Fin w' * Fin t'"
    using f64_mult_right_mono [OF a t(2)] f64_mult_left_mono [OF n t] by (rule f64_le_trans)
  then have nn: "cvss * Fin w * Fin t \<noteq> NaN" "cvss' * Fin w' * Fin t' \<noteq> NaN"
    by (auto simp: f64_le_iff)
  obtain q where q: "clamp10 (cvss * Fin w * Fin t) = Fin q" "0 \<le> q" "q \<le> 10"
    using clamp10_range [OF nn(1)] by blast
  obtain q' where q': "clamp10 (cvss' * Fin w' * Fin t') = Fin q'" "0 \<le> q'" "q' \<le> 10"
    using clamp10_range [OF nn(2)] by blast
  have "q \<le> q'" using clamp10_mono [OF p] q(1) q'(1) by simp
  then show ?thesis
    using round1_mono [of q q'] q q' by (simp add: Score_alt w_def w'_def t_def t'_def)
qed

theorem score_mono_witness:
  "fst (Score global_feed (Fin 5) ''CVE-1'' CritLow)
     \<le> fst (Score global_feed (Fin 7) ''CVE-2017-0144'' CritCritical)"
proof (rule score_mono)
  show "IsKEV global_feed ''CVE-1'' \<longrightarrow> IsKEV global_feed ''CVE-2017-0144''"
    by (simp add: IsKEV_single visible_def kev_lookup_def global_feed_def defaultKEV_def)
qed (simp_all add: criticalityWeight_rat weight_rat_def)

text \<open>C22: For a CVSS base score in 0..10 the result is the clamped product CVSS * weight * threat factor
  (1.3 when known-exploited) to within half a tenth plus a float error below 10^-13.\<close>

theorem score_accurate:
  assumes "0 \<le> c" and "c \<le> 10"
  shows "\<exists>s. fst (Score fd (Fin c) cve crit) = Fin s \<and>
    \<bar>s - exact_score c crit (IsKEV fd cve)\<bar> \<le> 1 / 20 + 1 / 10 ^ 13"
proof -
  obtain p where p: "Fin c * Fin (weight_rat crit) * Fin (threat_rat (IsKEV fd cve)) = Fin p"
    and e: "\<bar>p - c * weight_rat crit * (if IsKEV fd cve then 13 / 10 else 1)\<bar> \<le> 83 / 2 ^ 53"
    using product_accurate [OF assms] by blast
  define q where "q = max 0 (min 10 p)"
  have q: "0 \<le> q" "q \<le> 10" by (simp_all add: q_def)
  have "\<bar>q - exact_score c crit (IsKEV fd cve)\<bar> \<le> 83 / 2 ^ 53"
    using e unfolding q_def exact_score_def by (auto simp: abs_if max_def min_def split: if_splits)
  with round1_accurate [OF q]
  have "\<bar>rnd64 (of_int (tenths q) / 10) - exact_score c crit (IsKEV fd cve)\<bar> \<le> 1 / 20 + 115 / 2 ^ 53"
    unfolding abs_le_iff by (simp add: field_simps)
  also have "\<dots> \<le> 1 / 20 + 1 / 10 ^ 13" by simp
  finally have "\<bar>rnd64 (of_int (tenths q) / 10) - exact_score c crit (IsKEV fd cve)\<bar>
    \<le> 1 / 20 + 1 / 10 ^ 13" .
  moreover have "fst (Score fd (Fin c) cve crit) = Fin (rnd64 (of_int (tenths q) / 10))"
    by (simp only: Score_alt p clamp10_Fin fst_conv flip: q_def round1_Fin(1) [OF q])
  ultimately show ?thesis by blast
qed

theorem score_accurate_witness:
  "\<exists>s. fst (Score global_feed (Fin (74 / 10)) [] CritHigh) = Fin s \<and>
    \<bar>s - exact_score (74 / 10) CritHigh (IsKEV global_feed [])\<bar> \<le> 1 / 20 + 1 / 10 ^ 13"
  by (rule score_accurate) simp_all

end
