(* ===== verification/Compliance.thy ===== *)
theory Compliance
  imports Models Risk
begin

text \<open>
  \<open>internal/compliance/compliance.go\<close>: the mapping of a weakness (CWE) to governance controls and
  remediation guidance, and the two classes of weaknesses from which attack edges are derived.
  The package's maps are read-only tables, modelled as association lists in source order; the
  order of \<open>CatalogCWEs\<close> is unspecified in Go, so its theorems are about sets and lengths.
\<close>

record entry =
  owaspTop10 :: string
  owaspASVS :: string
  iso27001 :: string
  bssn :: string
  cobit :: string
  remedy :: RemediationGuide

definition catalog :: "(string \<times> entry) list" where
  "catalog =
     [(''CWE-327'',
        \<lparr>owaspTop10 = ''A02:2021 Cryptographic Failures'',
         owaspASVS = ''ASVS V6.2.1 Algorithms'',
         iso27001 = ''A.8.24 Use of cryptography'',
         bssn = ''Indeks KAMI - Pengamanan; Std. Kriptografi Nasional'',
         cobit = ''DSS05 Manage Security Services'',
         remedy =
           \<lparr>g_Summary = ''Replace weak/legacy cryptographic algorithms with approved ones.'',
            g_Steps =
              [''Disable TLS < 1.2; prefer TLS 1.3.'',
               ''Use RSA >= 2048-bit or ECDSA P-256; rotate weak keys.'',
               ''Remove deprecated ciphers (RC4, 3DES, MD5, SHA-1).''],
            g_Refs = [''NIST SP 800-52r2'',
               ''BSSN Standar Kriptografi Nasional'']\<rparr>\<rparr>),
      (''CWE-502'',
        \<lparr>owaspTop10 = ''A08:2021 Software and Data Integrity Failures'',
         owaspASVS = ''ASVS V5.5 Deserialization Prevention'',
         iso27001 = ''A.8.28 Secure coding'',
         bssn = ''Indeks KAMI - Pengelolaan Insiden'',
         cobit = ''BAI03 Manage Solutions Identification and Build'',
         remedy =
           \<lparr>g_Summary = ''Patch the vulnerable component and block untrusted deserialization.'',
            g_Steps =
              [''Upgrade affected library to a fixed version immediately.'',
               ''Apply vendor mitigations / disable dangerous lookups.'',
               ''Add WAF rules as a temporary compensating control.''],
            g_Refs = [''CVE-2021-44228'',
               ''OWASP Deserialization Cheat Sheet'']\<rparr>\<rparr>),
      (''CWE-538'',
        \<lparr>owaspTop10 = ''A01:2021 Broken Access Control'',
         owaspASVS = ''ASVS V8.1 General Data Protection'',
         iso27001 = ''A.5.34 Privacy and protection of PII; A.8.3 Information access restriction'',
         bssn = ''Indeks KAMI - Pengamanan Aset Informasi'',
         cobit = ''DSS06 Manage Business Process Controls'',
         remedy =
           \<lparr>g_Summary = ''Remove externally-exposed sensitive files and restrict access.'',
            g_Steps =
              [''Block access to VCS/metadata paths (e.g. /.git, /.env).'',
               ''Rotate any secrets that were exposed.'',
               ''Add deny rules at the web server / reverse proxy.''],
            g_Refs = []\<rparr>\<rparr>),
      (''CWE-693'',
        \<lparr>owaspTop10 = ''A05:2021 Security Misconfiguration'',
         owaspASVS = ''ASVS V14.4 HTTP Security Headers'',
         iso27001 = ''A.8.9 Configuration management'',
         bssn = ''Indeks KAMI - Pengelolaan Konfigurasi'',
         cobit = ''BAI10 Manage Configuration'',
         remedy =
           \<lparr>g_Summary = ''Add the missing security response headers.'',
            g_Steps =
              [''Set Content-Security-Policy, X-Content-Type-Options, X-Frame-Options.'',
               ''Add Strict-Transport-Security on HTTPS endpoints.''],
            g_Refs = []\<rparr>\<rparr>),
      (''CWE-269'',
        \<lparr>owaspTop10 = ''A01:2021 Broken Access Control'',
         owaspASVS = ''ASVS V1.2 Authentication Architecture'',
         iso27001 = ''A.8.2 Privileged access rights; A.8.18 Use of privileged utility programs'',
         bssn = ''Indeks KAMI - Pengelolaan Hak Akses'',
         cobit = ''DSS05 Manage Security Services'',
         remedy =
           \<lparr>g_Summary = ''Patch the privilege-escalation vector and tighten privilege boundaries.'',
            g_Steps =
              [''Apply the vendor patch for the affected component (e.g. pkexec/polkit).'',
               ''Enforce least privilege; remove unnecessary SUID/SGID binaries.'',
               ''Audit local accounts and sudo rules.''],
            g_Refs = [''CVE-2021-4034 (PwnKit)'',
               ''OWASP Access Control Cheat Sheet'']\<rparr>\<rparr>),
      (''CWE-250'',
        \<lparr>owaspTop10 = ''A04:2021 Insecure Design'',
         owaspASVS = ''ASVS V1.2 Authentication Architecture'',
         iso27001 = ''A.8.2 Privileged access rights'',
         bssn = ''Indeks KAMI - Pengelolaan Hak Akses'',
         cobit = ''DSS05 Manage Security Services'',
         remedy =
           \<lparr>g_Summary = ''Drop unnecessary privileges and run services as least-privileged users.'',
            g_Steps =
              [''Run services under dedicated low-privilege accounts.'',
               ''Remove overly-permissive sudo/Administrator grants.''],
            g_Refs = []\<rparr>\<rparr>),
      (''CWE-798'',
        \<lparr>owaspTop10 = ''A07:2021 Identification and Authentication Failures'',
         owaspASVS = ''ASVS V2.10 Service Authentication; V6.4 Secret Management'',
         iso27001 = ''A.8.24 Use of cryptography; A.5.17 Authentication information'',
         bssn = ''Indeks KAMI - Pengelolaan Kredensial'',
         cobit = ''DSS05 Manage Security Services'',
         remedy =
           \<lparr>g_Summary = ''Remove hard-coded credentials and rotate the exposed secret.'',
            g_Steps =
              [''Move secrets to a vault / secret manager; remove from code and config.'',
               ''Rotate the exposed credential immediately on every system it grants access to.'',
               ''Scope service accounts per-host to prevent credential reuse / lateral movement.''],
            g_Refs = [''OWASP Secrets Management Cheat Sheet'']\<rparr>\<rparr>),
      (''CWE-1327'',
        \<lparr>owaspTop10 = ''A05:2021 Security Misconfiguration'',
         owaspASVS = ''ASVS V1.14 Configuration Architecture'',
         iso27001 = ''A.8.20 Networks security; A.8.22 Segregation of networks'',
         bssn = ''Indeks KAMI - Pengamanan Jaringan'',
         cobit = ''DSS05 Manage Security Services'',
         remedy =
           \<lparr>g_Summary = ''Restrict exposed network services to required networks only.'',
            g_Steps =
              [''Close or firewall ports that need not be public.'',
               ''Bind administrative services (SSH, DB) to private interfaces.'',
               ''Enforce network segmentation / security groups.''],
            g_Refs = []\<rparr>\<rparr>)]"

definition defaultEntry :: entry where
  "defaultEntry =
     \<lparr>owaspTop10 = ''A06:2021 Vulnerable and Outdated Components'',
      owaspASVS = ''ASVS V1.1 Secure Software Development Lifecycle'',
      iso27001 = ''A.8.8 Management of technical vulnerabilities'',
      bssn = ''Indeks KAMI - Manajemen Kerentanan'',
      cobit = ''APO12 Manage Risk'',
      remedy =
        \<lparr>g_Summary = ''Triage, validate, and remediate the identified weakness.'',
         g_Steps =
           [''Validate the finding to rule out false positives.'',
            ''Apply vendor patch or configuration hardening.''],
         g_Refs = []\<rparr>\<rparr>"

definition Refs :: "string \<Rightarrow> ComplianceRef list" where
  "Refs cwe =
     (let e = (case map_of catalog cwe of Some e \<Rightarrow> e | None \<Rightarrow> defaultEntry)
      in [\<lparr>c_Framework = ''OWASP-Top10'', c_Control = owaspTop10 e, c_Title = ''OWASP Top 10 2021''\<rparr>,
          \<lparr>c_Framework = ''OWASP-ASVS'', c_Control = owaspASVS e, c_Title = ''OWASP ASVS''\<rparr>,
          \<lparr>c_Framework = ''ISO27001'', c_Control = iso27001 e, c_Title = ''ISO/IEC 27001:2022 Annex A''\<rparr>,
          \<lparr>c_Framework = ''BSSN'', c_Control = bssn e, c_Title = ''BSSN / Indeks KAMI''\<rparr>,
          \<lparr>c_Framework = ''COBIT2019'', c_Control = cobit e, c_Title = ''COBIT 2019''\<rparr>])"

definition Remediation :: "string \<Rightarrow> RemediationGuide" where
  "Remediation cwe = (case map_of catalog cwe of Some e \<Rightarrow> remedy e | None \<Rightarrow> remedy defaultEntry)"

definition privEscCWEs :: "(string \<times> bool) list" where
  "privEscCWEs =
     [(''CWE-269'', True), (''CWE-250'', True), (''CWE-264'', True), (''CWE-276'', True), (''CWE-732'', True), (''CWE-862'', True), (''CWE-863'', True)]"

definition IsPrivEsc :: "string \<Rightarrow> bool" where
  "IsPrivEsc cwe = (map_of privEscCWEs cwe = Some True)"

definition credentialLeakCWEs :: "(string \<times> bool) list" where
  "credentialLeakCWEs =
     [(''CWE-798'', True), (''CWE-522'', True), (''CWE-259'', True)]"

definition IsCredentialLeak :: "string \<Rightarrow> bool" where
  "IsCredentialLeak cwe = (map_of credentialLeakCWEs cwe = Some True)"

definition CatalogCWEs :: "string list" where
  "CatalogCWEs = map fst catalog"

section \<open>Completeness of the mapping\<close>

definition frameworks :: "string list" where
  "frameworks = [''OWASP-Top10'', ''OWASP-ASVS'', ''ISO27001'', ''BSSN'', ''COBIT2019'']"

definition filled :: "string \<Rightarrow> bool" where
  "filled s = (case s of [] \<Rightarrow> False | c # _ \<Rightarrow> visible c)"

lemma filled_trim: "filled s \<Longrightarrow> trim_space s \<noteq> []"
  using trim_space_keeps [of "hd s" s] by (auto simp: filled_def split: list.splits)

definition complete_entry :: "entry \<Rightarrow> bool" where
  "complete_entry e \<longleftrightarrow>
     list_all filled [owaspTop10 e, owaspASVS e, iso27001 e, bssn e, cobit e, g_Summary (remedy e)] \<and>
     g_Steps (remedy e) \<noteq> [] \<and> list_all filled (g_Steps (remedy e))"

lemma catalog_complete: "list_all (\<lambda>(k, e). complete_entry e) catalog"
  by (simp add: catalog_def complete_entry_def filled_def visible_def)

lemma defaultEntry_complete: "complete_entry defaultEntry"
  by (simp add: defaultEntry_def complete_entry_def filled_def visible_def)

text \<open>The entry a weakness is mapped to.\<close>

definition entry_of :: "string \<Rightarrow> entry" where
  "entry_of cwe = (case map_of catalog cwe of Some e \<Rightarrow> e | None \<Rightarrow> defaultEntry)"

lemma entry_of_complete: "complete_entry (entry_of cwe)"
proof (cases "map_of catalog cwe")
  case None
  then show ?thesis by (simp add: entry_of_def defaultEntry_complete)
next
  case (Some e)
  then have "(cwe, e) \<in> set catalog" by (rule map_of_SomeD)
  with catalog_complete Some show ?thesis by (auto simp: list_all_iff entry_of_def)
qed

lemma Refs_entry_of:
  "Refs cwe = map2 (\<lambda>(f, t) c. \<lparr>c_Framework = f, c_Control = c, c_Title = t\<rparr>)
     (zip frameworks [''OWASP Top 10 2021'', ''OWASP ASVS'', ''ISO/IEC 27001:2022 Annex A'',
                      ''BSSN / Indeks KAMI'', ''COBIT 2019''])
     [owaspTop10 (entry_of cwe), owaspASVS (entry_of cwe), iso27001 (entry_of cwe),
      bssn (entry_of cwe), cobit (entry_of cwe)]"
  by (simp add: Refs_def Let_def frameworks_def entry_of_def)

lemma Remediation_entry_of: "Remediation cwe = remedy (entry_of cwe)"
  by (simp add: Remediation_def entry_of_def split: option.split)

text \<open>Whatever the weakness, known or not, a finding is mapped to exactly the five governance frameworks, in
  a fixed order and each once, with no blank control, and its remediation guide has a non-blank
  summary and at least one step, none of them blank.\<close>

theorem compliance_complete:
  "map c_Framework (Refs cwe) = frameworks \<and> distinct frameworks \<and>
   (\<forall>r. r \<in> set (Refs cwe) \<longrightarrow> trim_space (c_Control r) \<noteq> []) \<and>
   trim_space (g_Summary (Remediation cwe)) \<noteq> [] \<and>
   g_Steps (Remediation cwe) \<noteq> [] \<and> [] \<notin> trim_space ` set (g_Steps (Remediation cwe))"
proof -
  define e where "e = entry_of cwe"
  have "complete_entry e" unfolding e_def by (rule entry_of_complete)
  note c = this [unfolded complete_entry_def list.pred_inject list_all_iff]
  have fw: "map c_Framework (Refs cwe) = frameworks" "distinct frameworks"
    by (simp_all add: Refs_entry_of frameworks_def)
  have "c_Control ` set (Refs cwe) = {owaspTop10 e, owaspASVS e, iso27001 e, bssn e, cobit e}"
    unfolding Refs_entry_of e_def by (simp add: frameworks_def)
  then have "\<forall>s \<in> c_Control ` set (Refs cwe). filled s" using c by auto
  then have cc: "\<forall>r. r \<in> set (Refs cwe) \<longrightarrow> trim_space (c_Control r) \<noteq> []" using filled_trim by blast
  have "filled (g_Summary (Remediation cwe))" "g_Steps (Remediation cwe) \<noteq> []"
    "\<forall>s \<in> set (g_Steps (Remediation cwe)). filled s"
    using c unfolding Remediation_entry_of e_def by auto
  with fw cc show ?thesis by (force dest: filled_trim)
qed

theorem compliance_complete_witness:
  "trim_space (c_Control (Refs ''CWE-0'' ! 2)) \<noteq> []"
  using compliance_complete [of "''CWE-0''"] nth_mem [of 2 "Refs ''CWE-0''"]
  by (simp add: Refs_entry_of frameworks_def)

section \<open>The tables agree\<close>

lemma catalog_keys: "map fst catalog = [''CWE-327'', ''CWE-502'', ''CWE-538'', ''CWE-693'',
    ''CWE-269'', ''CWE-250'', ''CWE-798'', ''CWE-1327'']"
  by (simp add: catalog_def)

lemma cweVectors_keys: "map fst cweVectors = [''CWE-327'', ''CWE-502'', ''CWE-798'', ''CWE-269'',
    ''CWE-250'', ''CWE-538'', ''CWE-693'', ''CWE-1327'']"
  by (simp add: cweVectors_def)

lemma map_of_eq_Some_key: "(\<exists>v. map_of m k = Some v) \<longleftrightarrow> k \<in> set (map fst m)"
  by (metis domIff dom_map_of_conv_image_fst list.set_map not_None_eq)

lemma cweVectors_nonempty: "\<forall>kv \<in> set cweVectors. snd kv \<noteq> []"
  by (simp add: cweVectors_def)

text \<open>The published list of catalogued weaknesses has no duplicates and is exactly the set of weaknesses that
  have a representative CVSS vector; any other weakness gets the default mapping and guidance.\<close>

theorem catalog_consistent:
  "distinct CatalogCWEs \<and>
   (cwe \<in> set CatalogCWEs \<longleftrightarrow> RepresentativeVector cwe \<noteq> []) \<and>
   (cwe \<notin> set CatalogCWEs \<longrightarrow>
      entry_of cwe = defaultEntry \<and> Remediation cwe = remedy defaultEntry)"
proof (intro conjI impI)
  show "distinct CatalogCWEs" unfolding CatalogCWEs_def catalog_keys by simp
  have "set CatalogCWEs = set (map fst cweVectors)"
    unfolding CatalogCWEs_def catalog_keys cweVectors_keys by auto
  then show "cwe \<in> set CatalogCWEs \<longleftrightarrow> RepresentativeVector cwe \<noteq> []"
    using map_of_eq_Some_key [of cweVectors cwe] cweVectors_nonempty map_of_SomeD [of cweVectors cwe]
    by (fastforce simp: RepresentativeVector_def split: option.split)
next
  assume "cwe \<notin> set CatalogCWEs"
  then have "map_of catalog cwe = None"
    using map_of_eq_Some_key [of catalog cwe] unfolding CatalogCWEs_def by (cases "map_of catalog cwe") auto
  then show "entry_of cwe = defaultEntry" "Remediation cwe = remedy defaultEntry"
    by (simp_all add: entry_of_def Remediation_def)
qed

theorem catalog_consistent_witness: "Remediation ''CWE-0'' = remedy defaultEntry"
  using catalog_consistent [of "''CWE-0''"] unfolding CatalogCWEs_def catalog_keys by simp

lemma IsPrivEsc_iff: "IsPrivEsc cwe \<longleftrightarrow> cwe \<in> fst ` set privEscCWEs"
  by (auto simp: IsPrivEsc_def privEscCWEs_def)

lemma IsCredentialLeak_iff: "IsCredentialLeak cwe \<longleftrightarrow> cwe \<in> fst ` set credentialLeakCWEs"
  by (auto simp: IsCredentialLeak_def credentialLeakCWEs_def)

end
