(* ===== verification/Go_Sha256.thy ===== *)
theory Go_Sha256
  imports Go_Strings "HOL-Library.Word"
begin

unbundle bit_operations_syntax

text \<open>
  Go's \<open>crypto/sha256\<close> and \<open>encoding/hex\<close>: SHA-256 as FIPS 180-4 defines it, over bytes, with
  the digest as the 64 lower-case hexadecimal digits that \<open>hex.EncodeToString\<close> gives.  The
  theorems of the development never rely on a property of the function (no injectivity is
  assumed): they name the pair of inputs that would collide.
\<close>

type_synonym u32 = "32 word"
type_synonym sha_state = "u32 \<times> u32 \<times> u32 \<times> u32 \<times> u32 \<times> u32 \<times> u32 \<times> u32"

text \<open>
  The round constants and the initial state, in decimal: the first 32 fractional bits of the cube
  roots of the first 64 primes and of the square roots of the first 8.
\<close>

definition sha_k :: "u32 list" where
  "sha_k =
    [1116352408, 1899447441, 3049323471, 3921009573, 961987163, 1508970993, 2453635748,
     2870763221, 3624381080, 310598401, 607225278, 1426881987, 1925078388, 2162078206,
     2614888103, 3248222580, 3835390401, 4022224774, 264347078, 604807628, 770255983,
     1249150122, 1555081692, 1996064986, 2554220882, 2821834349, 2952996808, 3210313671,
     3336571891, 3584528711, 113926993, 338241895, 666307205, 773529912, 1294757372,
     1396182291, 1695183700, 1986661051, 2177026350, 2456956037, 2730485921, 2820302411,
     3259730800, 3345764771, 3516065817, 3600352804, 4094571909, 275423344, 430227734,
     506948616, 659060556, 883997877, 958139571, 1322822218, 1537002063, 1747873779,
     1955562222, 2024104815, 2227730452, 2361852424, 2428436474, 2756734187, 3204031479,
     3329325298]"

definition sha_init :: sha_state where
  "sha_init =
    (1779033703, 3144134277, 1013904242, 2773480762,
     1359893119, 2600822924, 528734635, 1541459225)"

definition rotr32 :: "nat \<Rightarrow> u32 \<Rightarrow> u32" where
  "rotr32 n x = drop_bit n x OR push_bit (32 - n) x"

definition sha_sig0 :: "u32 \<Rightarrow> u32" where
  "sha_sig0 x = rotr32 7 x XOR rotr32 18 x XOR drop_bit 3 x"

definition sha_sig1 :: "u32 \<Rightarrow> u32" where
  "sha_sig1 x = rotr32 17 x XOR rotr32 19 x XOR drop_bit 10 x"

definition sha_sum0 :: "u32 \<Rightarrow> u32" where
  "sha_sum0 x = rotr32 2 x XOR rotr32 13 x XOR rotr32 22 x"

definition sha_sum1 :: "u32 \<Rightarrow> u32" where
  "sha_sum1 x = rotr32 6 x XOR rotr32 11 x XOR rotr32 25 x"

text \<open>
  The message schedule, computed backwards: the list holds the latest word first, so the words
  \<open>t-2\<close>, \<open>t-7\<close>, \<open>t-15\<close> and \<open>t-16\<close> are at the positions 1, 6, 14 and 15.
\<close>

fun sha_extend :: "nat \<Rightarrow> u32 list \<Rightarrow> u32 list" where
  "sha_extend 0 ws = ws"
| "sha_extend (Suc n) ws =
     sha_extend n ((sha_sig1 (ws ! 1) + ws ! 6 + sha_sig0 (ws ! 14) + ws ! 15) # ws)"

definition sha_schedule :: "u32 list \<Rightarrow> u32 list" where
  "sha_schedule block = rev (sha_extend 48 (rev block))"

fun sha_rounds :: "(u32 \<times> u32) list \<Rightarrow> sha_state \<Rightarrow> sha_state" where
  "sha_rounds [] st = st"
| "sha_rounds ((k, w) # kws) (a, b, c, d, e, f, g, h) =
     (let t1 = h + sha_sum1 e + ((e AND f) XOR (NOT e AND g)) + k + w;
          t2 = sha_sum0 a + ((a AND b) XOR (a AND c) XOR (b AND c))
      in sha_rounds kws (t1 + t2, a, b, c, d + t1, e, f, g))"

fun sha_add :: "sha_state \<Rightarrow> sha_state \<Rightarrow> sha_state" where
  "sha_add (a, b, c, d, e, f, g, h) (a', b', c', d', e', f', g', h') =
     (a + a', b + b', c + c', d + d', e + e', f + f', g + g', h + h')"

definition sha_block :: "sha_state \<Rightarrow> u32 list \<Rightarrow> sha_state" where
  "sha_block st block = sha_add st (sha_rounds (zip sha_k (sha_schedule block)) st)"

text \<open>Big-endian words of a byte string whose length is a multiple of four.\<close>

fun be_words :: "nat list \<Rightarrow> u32 list" where
  "be_words (a # b # c # d # bs) = of_nat (((a * 256 + b) * 256 + c) * 256 + d) # be_words bs"
| "be_words _ = []"

fun be_bytes :: "nat \<Rightarrow> nat \<Rightarrow> nat list" where
  "be_bytes 0 n = []"
| "be_bytes (Suc k) n = be_bytes k (n div 256) @ [n mod 256]"

text \<open>Padding: a one bit, zeros up to 56 modulo 64 bytes, the length in bits as 64 bits.\<close>

definition sha_pad :: "nat list \<Rightarrow> nat list" where
  "sha_pad msg =
     (let l = length msg; z = (119 - l mod 64) mod 64
      in msg @ [128] @ replicate z 0 @ be_bytes 8 (8 * l))"

function sha_blocks :: "sha_state \<Rightarrow> u32 list \<Rightarrow> sha_state" where
  "sha_blocks st ws =
     (if length ws < 16 then st else sha_blocks (sha_block st (take 16 ws)) (drop 16 ws))"
  by pat_completeness auto
termination
  by (relation "measure (\<lambda>(st, ws). length ws)") auto

declare sha_blocks.simps [simp del]

definition hex_digit :: "nat \<Rightarrow> char" where
  "hex_digit d = (if d < 10 then char_of (48 + d) else char_of (87 + d))"

fun hex_nat :: "nat \<Rightarrow> nat \<Rightarrow> string" where
  "hex_nat 0 n = []"
| "hex_nat (Suc k) n = hex_nat k (n div 16) @ [hex_digit (n mod 16)]"

text \<open>\<open>hex.EncodeToString(sha256.Sum256(s))\<close>.\<close>

definition sha256_hex :: "string \<Rightarrow> string" where
  "sha256_hex s =
     (case sha_blocks sha_init (be_words (sha_pad (map of_char s))) of
        (a, b, c, d, e, f, g, h) \<Rightarrow>
          concat (map (\<lambda>w. hex_nat 8 (unat w)) [a, b, c, d, e, f, g, h]))"

text \<open>The same digest as 32 bytes.\<close>

definition sha256_sum :: "string \<Rightarrow> string" where
  "sha256_sum s =
     (case sha_blocks sha_init (be_words (sha_pad (map of_char s))) of
        (a, b, c, d, e, f, g, h) \<Rightarrow>
          map char_of (concat (map (\<lambda>w. be_bytes 4 (unat w)) [a, b, c, d, e, f, g, h])))"

lemma length_be_bytes [simp]: "length (be_bytes k n) = k"
  by (induction k arbitrary: n) auto

lemma length_sha256_sum [simp]: "length (sha256_sum s) = 32"
  by (simp add: sha256_sum_def split: prod.split)

lemma length_hex_nat: "length (hex_nat k n) = k"
  by (induction k arbitrary: n) auto

lemma length_sha256_hex: "length (sha256_hex s) = 64"
  by (simp add: sha256_hex_def length_hex_nat split: prod.split)

lemma hex_digit_code:
  assumes "d < 16"
  shows "(of_char (hex_digit d) :: nat) = (if d < 10 then 48 + d else 87 + d)"
  using assms by (simp add: hex_digit_def)

lemma hex_nat_no_bar: "CHR ''|'' \<notin> set (hex_nat k n)"
proof (induction k arbitrary: n)
  case (Suc k)
  have "hex_digit (n mod 16) \<noteq> CHR ''|''"
  proof
    assume "hex_digit (n mod 16) = CHR ''|''"
    then have "(of_char (hex_digit (n mod 16)) :: nat) = 124" by simp
    moreover have "n mod 16 < 16" by simp
    ultimately show False by (simp add: hex_digit_code split: if_splits)
  qed
  with Suc show ?case by auto
qed simp

lemma sha256_hex_no_bar: "CHR ''|'' \<notin> set (sha256_hex s)"
  by (simp add: sha256_hex_def hex_nat_no_bar split: prod.split)

lemma sha256_hex_not_genesis: "sha256_hex s \<noteq> ''GENESIS''"
  using length_sha256_hex [of s] by auto

end
