(* ===== verification/Audit_Chain.thy ===== *)
theory Audit_Chain
  imports Models Go_Sha256
begin

text \<open>
  \<open>internal/audit/audit.go\<close>: the audit entry, its canonical text, the SHA-256 chain and its
  verification.  The chain argument is made once, in the locale \<open>hash_chain\<close>, for any digest of any
  injective serialisation; a digest is not injective, so every tamper-evidence statement names the
  two texts that would have to collide.
\<close>

record AuditEntry =
  e_Seq :: int
  e_TS :: time
  e_Actor :: string
  e_Role :: string
  e_Method :: string
  e_Path :: string
  e_Status :: int
  e_RemoteIP :: string
  e_PrevHash :: string
  e_Hash :: string

definition GenesisHash :: string where
  "GenesisHash = ''GENESIS''"

definition Canonical :: "string \<Rightarrow> AuditEntry \<Rightarrow> string" where
  "Canonical prevHash e =
     prevHash @ ''|'' @ rfc3339nano (e_TS e) @ ''|'' @ e_Actor e @ ''|'' @ e_Role e @ ''|''
       @ e_Method e @ ''|'' @ e_Path e @ ''|'' @ itoa (e_Status e) @ ''|'' @ e_RemoteIP e"

definition Hash :: "string \<Rightarrow> AuditEntry \<Rightarrow> string" where
  "Hash prevHash e = sha256_hex (Canonical prevHash e)"

text \<open>The loop of \<open>VerifyChain\<close>, with the running hash as an argument.\<close>

fun verify_from :: "string \<Rightarrow> AuditEntry list \<Rightarrow> bool \<times> int" where
  "verify_from prev [] = (True, 0)"
| "verify_from prev (e # es) =
     (if e_PrevHash e \<noteq> prev then (False, e_Seq e)
      else if Hash prev e \<noteq> e_Hash e then (False, e_Seq e)
      else verify_from (e_Hash e) es)"

definition VerifyChain :: "AuditEntry list \<Rightarrow> bool \<times> int" where
  "VerifyChain entries = verify_from GenesisHash entries"

section \<open>Hash chains\<close>

text \<open>
  \<open>text p e\<close> is what is digested for the entry \<open>e\<close> after the hash \<open>p\<close>; \<open>content\<close> is what the
  text determines; \<open>plain\<close> are the entries whose text is unambiguous.
\<close>

locale hash_chain =
  fixes body :: "'h \<Rightarrow> 'e \<Rightarrow> 'w" and digest :: "'w \<Rightarrow> 'h" and genesis :: 'h
    and prev :: "'e \<Rightarrow> 'h" and stored :: "'e \<Rightarrow> 'h"
    and content :: "'e \<Rightarrow> 'c" and plain :: "'e \<Rightarrow> bool"
  assumes body_link: "p \<in> insert genesis (range digest) \<Longrightarrow> q \<in> insert genesis (range digest) \<Longrightarrow>
      body p e = body q f \<Longrightarrow> p = q"
    and body_content: "p \<in> insert genesis (range digest) \<Longrightarrow> plain e \<Longrightarrow> plain f \<Longrightarrow>
      body p e = body p f \<Longrightarrow> content e = content f"
    and genesis_fresh: "digest w \<noteq> genesis"
begin

fun chained :: "'h \<Rightarrow> 'e list \<Rightarrow> bool" where
  "chained p [] = True"
| "chained p (e # es) = (prev e = p \<and> stored e = digest (body p e) \<and> chained (stored e) es)"

fun head :: "'h \<Rightarrow> 'e list \<Rightarrow> 'h" where
  "head p [] = p"
| "head p (e # es) = head (stored e) es"

definition collision :: "'w \<Rightarrow> 'w \<Rightarrow> bool" where
  "collision v w \<longleftrightarrow> v \<noteq> w \<and> digest v = digest w"

definition bodies :: "'e list \<Rightarrow> 'w list" where
  "bodies es = map (\<lambda>e. body (prev e) e) es"

lemma chained_append: "chained p (es @ fs) \<longleftrightarrow> chained p es \<and> chained (head p es) fs"
  by (induction es arbitrary: p) auto

lemma head_append: "head p (es @ fs) = head (head p es) fs"
  by (induction es arbitrary: p) auto

lemma head_snoc: "head p (es @ [e]) = stored e"
  by (simp add: head_append)

lemma bodies_append: "bodies (es @ fs) = bodies es @ bodies fs"
  by (simp add: bodies_def)

lemma bodies_Cons: "bodies (e # es) = body (prev e) e # bodies es"
  by (simp add: bodies_def)

lemma head_range: "chained genesis es \<Longrightarrow> head genesis es \<in> insert genesis (range digest)"
  by (cases es rule: rev_exhaust) (auto simp: chained_append head_snoc)

lemma head_genesis: "chained genesis es \<Longrightarrow> head genesis es = genesis \<longleftrightarrow> es = []"
  using genesis_fresh by (cases es rule: rev_exhaust) (auto simp: chained_append head_snoc)

text \<open>The head hash commits to the whole history.\<close>

lemma head_commits:
  assumes "chained genesis es" and "chained genesis fs" and "list_all plain es" and "list_all plain fs"
    and "head genesis es = head genesis fs"
  shows "map content es = map content fs \<or> (\<exists>v \<in> set (bodies es). \<exists>w \<in> set (bodies fs). collision v w)"
  using assms
proof (induction es arbitrary: fs rule: rev_induct)
  case Nil
  then have "fs = []" using head_genesis [of fs] by simp
  then show ?case by simp
next
  case (snoc e es)
  have "fs \<noteq> []" using snoc.prems(1,5) head_genesis [of "es @ [e]"] by auto
  then obtain gs f where fs: "fs = gs @ [f]" by (cases fs rule: rev_exhaust) auto
  let ?p = "head genesis es" and ?q = "head genesis gs"
  have ce: "chained genesis es" "prev e = ?p" "stored e = digest (body ?p e)"
    and cf: "chained genesis gs" "prev f = ?q" "stored f = digest (body ?q f)"
    using snoc.prems(1,2) by (simp_all add: chained_append fs)
  have d: "digest (body ?p e) = digest (body ?q f)"
    using snoc.prems(5) ce cf by (simp add: head_snoc fs)
  show ?case
  proof (cases "body ?p e = body ?q f")
    case False
    then have "collision (body (prev e) e) (body (prev f) f)" using d ce cf by (simp add: collision_def)
    then show ?thesis by (auto simp: bodies_append bodies_Cons fs)
  next
    case True
    then have pq: "?p = ?q" by (rule body_link [OF head_range [OF ce(1)] head_range [OF cf(1)]])
    with True have "content e = content f"
      using body_content [OF head_range [OF ce(1)]] snoc.prems(3,4) by (simp add: fs)
    moreover have "map content es = map content gs \<or>
        (\<exists>v \<in> set (bodies es). \<exists>w \<in> set (bodies gs). collision v w)"
      using snoc.IH [OF ce(1) cf(1)] pq snoc.prems(3,4) by (simp add: fs)
    ultimately show ?thesis unfolding bodies_append fs set_append map_append by auto
  qed
qed

text \<open>In a chain without collisions no hash repeats, so a removed entry leaves a gap.\<close>

lemma heads_distinct:
  assumes "chained genesis (es @ fs)" and "fs \<noteq> []"
    and "head genesis es = head genesis (es @ fs)"
  shows "\<exists>v \<in> set (bodies (es @ fs)). \<exists>w \<in> set (bodies (es @ fs)). collision v w"
  using assms
proof (induction es arbitrary: fs rule: rev_induct)
  case Nil
  then show ?case using head_genesis [of fs] by simp
next
  case (snoc e es)
  obtain gs f where fs: "fs = gs @ [f]" using snoc.prems(2) by (cases fs rule: rev_exhaust) auto
  let ?p = "head genesis es" and ?q = "head genesis (es @ e # gs)"
  have ce: "chained genesis es" "prev e = ?p" "stored e = digest (body ?p e)"
    and cf: "chained genesis (es @ e # gs)" "prev f = ?q" "stored f = digest (body ?q f)"
    using snoc.prems(1) by (auto simp: chained_append head_append fs)
  have "stored e = stored f" using snoc.prems(3) by (simp add: head_append fs)
  then have d: "digest (body ?p e) = digest (body ?q f)" unfolding ce(3) cf(3) .
  show ?case
  proof (cases "body ?p e = body ?q f")
    case False
    then have "collision (body (prev e) e) (body (prev f) f)" using d ce cf by (simp add: collision_def)
    then show ?thesis by (auto simp: bodies_append bodies_Cons fs)
  next
    case True
    then have "?p = ?q" by (rule body_link [OF head_range [OF ce(1)] head_range [OF cf(1)]])
    then have "\<exists>v \<in> set (bodies (es @ e # gs)). \<exists>w \<in> set (bodies (es @ e # gs)). collision v w"
      using snoc.IH [of "e # gs"] cf(1) by simp
    then show ?thesis by (auto simp: bodies_append bodies_Cons fs)
  qed
qed

lemma chained_nth:
  "chained p es \<longleftrightarrow>
     (\<forall>i < length es. prev (es ! i) = (if i = 0 then p else stored (es ! (i - 1))) \<and>
                     stored (es ! i) = digest (body (prev (es ! i)) (es ! i)))"
proof (induction es arbitrary: p)
  case (Cons e es)
  show ?case unfolding chained.simps Cons.IH [of "stored e"]
    by (auto simp: nth_Cons' less_Suc_eq_0_disj)
qed simp

lemma chained_take: "chained p es \<Longrightarrow> chained p (take n es)"
  by (metis append_take_drop_id chained_append)

text \<open>An entry whose content is edited in place, and an entry that is removed.\<close>

lemma edit_breaks:
  assumes "chained genesis es" and "i < length es" and "plain (es ! i)" and "plain e'"
    and "content e' \<noteq> content (es ! i)" and "prev e' = prev (es ! i)" and "stored e' = stored (es ! i)"
  shows "(chained genesis (take i (es[i := e'])) \<and> stored e' \<noteq> digest (body (prev e') e')) \<or>
         collision (body (prev (es ! i)) (es ! i)) (body (prev e') e')"
proof -
  let ?e = "es ! i"
  have l: "prev ?e = (if i = 0 then genesis else stored (es ! (i - 1)))" "stored ?e = digest (body (prev ?e) ?e)"
    using assms(1,2) by (simp_all add: chained_nth)
  moreover have "stored (es ! (i - 1)) \<in> range digest"
    using assms(1,2) by (auto simp: chained_nth)
  ultimately have p: "prev ?e \<in> insert genesis (range digest)" by simp
  have "body (prev ?e) ?e \<noteq> body (prev ?e) e'"
    using body_content [OF p assms(3,4)] assms(5) by metis
  then have "stored e' \<noteq> digest (body (prev e') e') \<or> collision (body (prev ?e) ?e) (body (prev e') e')"
    using l(2) assms(6,7) by (auto simp: collision_def)
  then show ?thesis using chained_take [OF assms(1)] by (auto simp: take_update_cancel)
qed

lemma removal_breaks:
  assumes "chained genesis es" and "Suc i < length es"
  shows "prev (es ! Suc i) \<noteq> head genesis (take i es) \<or>
         (\<exists>v \<in> set (bodies es). \<exists>w \<in> set (bodies es). collision v w)"
proof (cases "prev (es ! Suc i) = head genesis (take i es)")
  case True
  have s: "take (Suc i) es = take i es @ [es ! i]" using assms(2) by (simp add: take_Suc_conv_app_nth)
  have "prev (es ! Suc i) = head genesis (take (Suc i) es)"
    using assms by (simp add: chained_nth s head_snoc)
  with True have "head genesis (take i es) = head genesis (take i es @ [es ! i])" by (simp add: s)
  moreover have "chained genesis (take i es @ [es ! i])" using chained_take [OF assms(1), of "Suc i"] by (simp add: s)
  ultimately have "\<exists>v \<in> set (bodies (take (Suc i) es)). \<exists>w \<in> set (bodies (take (Suc i) es)). collision v w"
    using heads_distinct [of "take i es" "[es ! i]"] by (simp add: s)
  moreover have "set (bodies (take (Suc i) es)) \<subseteq> set (bodies es)"
    unfolding bodies_def by (auto dest: in_set_takeD)
  ultimately show ?thesis by blast
qed simp

end

section \<open>The audit log is a hash chain\<close>

definition content :: "AuditEntry \<Rightarrow> time \<times> string \<times> string \<times> string \<times> string \<times> int \<times> string" where
  "content e = (e_TS e, e_Actor e, e_Role e, e_Method e, e_Path e, e_Status e, e_RemoteIP e)"

definition no_bar :: "string \<Rightarrow> bool" where
  "no_bar s \<longleftrightarrow> CHR ''|'' \<notin> set s"

text \<open>The field separator does not occur in the free-text fields before the last one.\<close>

definition plain :: "AuditEntry \<Rightarrow> bool" where
  "plain e \<longleftrightarrow> no_bar (e_Actor e) \<and> no_bar (e_Role e) \<and> no_bar (e_Method e) \<and> no_bar (e_Path e)"

lemma bar_sep: "no_bar a \<Longrightarrow> no_bar b \<Longrightarrow> a @ CHR ''|'' # s = b @ CHR ''|'' # t \<longleftrightarrow> a = b \<and> s = t"
proof -
  have t: "takeWhile (\<lambda>c. c \<noteq> CHR ''|'') (x @ CHR ''|'' # y) = x" if "no_bar x" for x y
    using that by (induction x) (auto simp: no_bar_def)
  assume ab: "no_bar a" "no_bar b"
  have "a = b" if "a @ CHR ''|'' # s = b @ CHR ''|'' # t"
    using arg_cong [OF that, of "takeWhile (\<lambda>c. c \<noteq> CHR ''|'')"] unfolding t [OF ab(1)] t [OF ab(2)] .
  then show ?thesis by auto
qed

lemma no_bars:
  "no_bar (rfc3339nano t)" "no_bar (itoa n)" "no_bar (sha256_hex w)" "no_bar GenesisHash"
  using rfc3339nano_no_bar itoa_no_bar sha256_hex_no_bar by (simp_all add: no_bar_def GenesisHash_def)

lemma Canonical_link: "no_bar p \<Longrightarrow> no_bar q \<Longrightarrow> Canonical p e = Canonical q f \<Longrightarrow> p = q"
  by (simp add: Canonical_def bar_sep)

lemma Canonical_content:
  "no_bar p \<Longrightarrow> plain e \<Longrightarrow> plain f \<Longrightarrow> Canonical p e = Canonical p f \<longleftrightarrow> content e = content f"
  by (auto simp: Canonical_def plain_def content_def bar_sep no_bars)

lemma hash_no_bar: "p \<in> insert GenesisHash (range sha256_hex) \<Longrightarrow> no_bar p"
  using no_bars by blast

interpretation audit: hash_chain Canonical sha256_hex GenesisHash e_PrevHash e_Hash content plain
proof unfold_locales
  show "sha256_hex w \<noteq> GenesisHash" for w unfolding GenesisHash_def by (rule sha256_hex_not_genesis)
  show "p = q" if "p \<in> insert GenesisHash (range sha256_hex)" "q \<in> insert GenesisHash (range sha256_hex)"
    "Canonical p e = Canonical q f" for p q e f
    by (rule Canonical_link [OF hash_no_bar [OF that(1)] hash_no_bar [OF that(2)] that(3)])
  show "content e = content f" if "p \<in> insert GenesisHash (range sha256_hex)" "plain e" "plain f"
    "Canonical p e = Canonical p f" for p e f
    using Canonical_content [OF hash_no_bar [OF that(1)] that(2,3)] that(4) by (rule iffD1)
qed

lemma verify_from_ok: "verify_from p es = (True, 0) \<longleftrightarrow> audit.chained p es"
  by (induction p es rule: verify_from.induct) (auto simp: Hash_def)

lemma verify_from_broken:
  "verify_from p es = (False, s) \<longleftrightarrow>
     (\<exists>i < length es. audit.chained p (take i es) \<and> \<not> audit.chained p (take (Suc i) es) \<and> s = e_Seq (es ! i))"
proof (induction p es rule: verify_from.induct)
  case (2 prev e es)
  show ?case
  proof (cases "e_PrevHash e = prev \<and> Hash prev e = e_Hash e")
    case True
    then have v: "verify_from prev (e # es) = verify_from (e_Hash e) es"
      and c: "audit.chained prev (e # xs) = audit.chained (e_Hash e) xs" for xs
      by (simp_all add: Hash_def)
    have "(\<exists>i < length (e # es). P i) \<longleftrightarrow> P 0 \<or> (\<exists>i < length es. P (Suc i))" for P
      by (auto simp: less_Suc_eq_0_disj)
    then show ?thesis using 2 True v c by simp
  next
    case False
    then have f: "verify_from prev (e # es) = (False, e_Seq e)" by auto
    have n: "\<not> audit.chained prev (take (Suc i) (e # es))" for i using False by (auto simp: Hash_def)
    show ?thesis
    proof
      assume "verify_from prev (e # es) = (False, s)"
      then have "s = e_Seq e" by (metis f prod.inject)
      with n [of 0] show "\<exists>i < length (e # es). audit.chained prev (take i (e # es)) \<and>
          \<not> audit.chained prev (take (Suc i) (e # es)) \<and> s = e_Seq ((e # es) ! i)"
        by (intro exI [of _ 0]) simp
    next
      assume "\<exists>i < length (e # es). audit.chained prev (take i (e # es)) \<and>
          \<not> audit.chained prev (take (Suc i) (e # es)) \<and> s = e_Seq ((e # es) ! i)"
      then obtain i where i: "audit.chained prev (take i (e # es))" "s = e_Seq ((e # es) ! i)" by blast
      with n have "i = 0" by (metis not0_implies_Suc)
      with i show "verify_from prev (e # es) = (False, s)" unfolding f by simp
    qed
  qed
qed simp

section \<open>Tamper evidence\<close>

text \<open>The texts that an entry list digests, and two different texts with the same digest.\<close>

definition texts :: "AuditEntry list \<Rightarrow> string set" where
  "texts es = set (map (\<lambda>e. Canonical (e_PrevHash e) e) es)"

definition sha_collision :: "string \<Rightarrow> string \<Rightarrow> bool" where
  "sha_collision v w \<longleftrightarrow> v \<noteq> w \<and> sha256_hex v = sha256_hex w"

definition head_hash :: "AuditEntry list \<Rightarrow> string" where
  "head_hash es = (if es = [] then GenesisHash else e_Hash (last es))"

lemma texts_bodies: "texts es = set (audit.bodies es)"
  by (simp add: texts_def audit.bodies_def)

lemma collision_sha: "audit.collision = sha_collision"
  by (intro ext) (simp add: audit.collision_def sha_collision_def)

lemma head_head_hash: "audit.head GenesisHash es = head_hash es"
  by (cases es rule: rev_exhaust) (simp_all add: head_hash_def audit.head_snoc)

lemmas audit_bridge = texts_bodies collision_sha [symmetric] head_head_hash [symmetric]
  VerifyChain_def verify_from_ok

text \<open>Adding the link and the hash, as the log does when it appends.\<close>

definition seal :: "string \<Rightarrow> AuditEntry \<Rightarrow> AuditEntry" where
  "seal p e = e\<lparr>e_PrevHash := p, e_Hash := Hash p e\<rparr>"

lemma Hash_seal [simp]: "Hash q (seal p e) = Hash q e"
  by (simp add: Hash_def Canonical_def seal_def)

lemma seal_simps [simp]: "e_PrevHash (seal p e) = p" "e_Hash (seal p e) = Hash p e"
  "content (seal p e) = content e" "plain (seal p e) = plain e" "e_Seq (seal p e) = e_Seq e"
  by (simp_all add: seal_def content_def plain_def)

definition entry_at :: "int \<Rightarrow> string \<Rightarrow> string \<Rightarrow> AuditEntry" where
  "entry_at seq actor path =
     \<lparr>e_Seq = seq, e_TS = seq * Second, e_Actor = actor, e_Role = ''admin'', e_Method = ''POST'',
      e_Path = path, e_Status = 201, e_RemoteIP = ''10.0.0.1:5'', e_PrevHash = [], e_Hash = []\<rparr>"

definition sample_log :: "AuditEntry list" where
  "sample_log =
     (let e1 = seal GenesisHash (entry_at 1 ''ops'' ''/api/v1/assets'');
          e2 = seal (e_Hash e1) (entry_at 2 ''eve'' ''/api/v1/scans'');
          e3 = seal (e_Hash e2) (entry_at 3 ''ops'' ''/api/v1/findings'')
      in [e1, e2, e3])"

lemma sample_log_verifies: "verify_from GenesisHash sample_log = (True, 0)"
  by (simp add: sample_log_def Let_def)

lemma entry_at_plain: "plain (entry_at n a p) \<longleftrightarrow> no_bar a \<and> no_bar p"
  by (simp add: plain_def entry_at_def no_bar_def)

lemma no_bar_Nil [simp]: "no_bar []" and no_bar_Cons [simp]: "no_bar (c # s) \<longleftrightarrow> c \<noteq> CHR ''|'' \<and> no_bar s"
  by (auto simp: no_bar_def)

lemma sample_log_plain: "list_all plain sample_log"
  by (simp add: sample_log_def Let_def entry_at_plain)

text \<open>The canonical text of an entry is unambiguous when the separator occurs in none of the free-text
  fields but the last: two entries with the same text have the same previous hash, instant (to the
  nanosecond), actor, role, method, path, status and client address.\<close>

theorem canonical_injective:
  assumes "no_bar p" and "no_bar q" and "plain e" and "plain f"
  shows "Canonical p e = Canonical q f \<longleftrightarrow> p = q \<and> content e = content f"
  using assms Canonical_link [of p q e f] Canonical_content [of p e f] by auto

theorem canonical_injective_witness:
  "Canonical GenesisHash (entry_at 1 ''ops'' ''/a'') \<noteq> Canonical GenesisHash (entry_at 1 ''ops'' ''/b'')"
  by (subst canonical_injective) (simp_all add: no_bars entry_at_plain, simp add: entry_at_def content_def)

definition link_ok :: "AuditEntry list \<Rightarrow> nat \<Rightarrow> bool" where
  "link_ok es i \<longleftrightarrow>
     e_PrevHash (es ! i) = (if i = 0 then GenesisHash else e_Hash (es ! (i - 1))) \<and>
     e_Hash (es ! i) = Hash (e_PrevHash (es ! i)) (es ! i)"

lemma chained_link_ok: "n \<le> length es \<Longrightarrow> audit.chained GenesisHash (take n es) \<longleftrightarrow> (\<forall>i < n. link_ok es i)"
  by (auto simp: audit.chained_nth link_ok_def Hash_def)

text \<open>C17: Verification accepts a log exactly when every entry is linked to the hash before it (the genesis
  value for the first) and carries the digest of its own canonical text, and otherwise it reports
  the sequence number of the first entry that is not, everything before it being intact.\<close>

theorem verify_chain_first_break:
  "VerifyChain es =
     (case find (\<lambda>i. \<not> link_ok es i) [0..<length es] of
        None \<Rightarrow> (True, 0)
      | Some i \<Rightarrow> (False, e_Seq (es ! i)))"
proof (cases "find (\<lambda>i. \<not> link_ok es i) [0..<length es]")
  case None
  then have "audit.chained GenesisHash es"
    using chained_link_ok [of "length es" es] by (auto simp: find_None_iff)
  with None show ?thesis by (simp add: VerifyChain_def verify_from_ok)
next
  case (Some i)
  then obtain "i < length es" and "\<not> link_ok es i" and "\<forall>j < i. link_ok es j"
    by (auto simp: find_Some_iff)
  then have "verify_from GenesisHash es = (False, e_Seq (es ! i))"
    unfolding verify_from_broken using chained_link_ok [of i es] chained_link_ok [of "Suc i" es]
    by (intro exI [of _ i]) auto
  with Some show ?thesis by (simp add: VerifyChain_def)
qed





text \<open>Removing an entry that is not the last one makes verification fail at the entry that followed it, or
  two texts of the log collide.\<close>

theorem removal_detected:
  assumes "VerifyChain es = (True, 0)" and "Suc i < length es"
  shows "VerifyChain (take i es @ drop (Suc i) es) = (False, e_Seq (es ! Suc i)) \<or>
         (\<exists>v \<in> texts es. \<exists>w \<in> texts es. sha_collision v w)"
proof -
  let ?fs = "take i es @ drop (Suc i) es"
  have c: "audit.chained GenesisHash es" using assms(1) by (simp add: audit_bridge)
  consider (a) "e_PrevHash (es ! Suc i) \<noteq> head_hash (take i es)"
    | (b) "\<exists>v \<in> texts es. \<exists>w \<in> texts es. sha_collision v w"
    using audit.removal_breaks [OF c assms(2)] by (auto simp: audit_bridge)
  then show ?thesis
  proof cases
    case a
    have fs: "?fs ! i = es ! Suc i" "i < length ?fs" "take i ?fs = take i es"
      using assms(2) by (simp_all add: nth_append)
    have "link_ok ?fs i \<Longrightarrow> e_PrevHash (es ! Suc i) = head_hash (take i es)"
      using assms(2) by (auto simp: link_ok_def head_hash_def nth_append last_conv_nth fs(1) split: if_splits)
    with a have "\<not> audit.chained GenesisHash (take (Suc i) ?fs)"
      using chained_link_ok [of "Suc i" ?fs] fs(2) by auto
    moreover have "audit.chained GenesisHash (take i ?fs)"
      unfolding fs(3) by (rule audit.chained_take [OF c])
    ultimately have "VerifyChain ?fs = (False, e_Seq (?fs ! i))"
      unfolding VerifyChain_def verify_from_broken using fs(2) by blast
    then show ?thesis by (simp add: fs(1))
  qed simp
qed

theorem removal_detected_witness:
  "VerifyChain (take 0 sample_log @ drop 1 sample_log) = (False, 2) \<or>
   (\<exists>v \<in> texts sample_log. \<exists>w \<in> texts sample_log. sha_collision v w)"
  using removal_detected [of sample_log 0]
  by (simp add: VerifyChain_def sample_log_verifies)
    (simp add: sample_log_def Let_def entry_at_def seal_def)

section \<open>What the chain does not show\<close>

text \<open>Dropping the newest entries of a verified log leaves a log that still verifies, so the package's claim
  that any deletion breaks the chain does not hold for a deletion at its end.\<close>

theorem truncation_undetected:
  "VerifyChain es = (True, 0) \<Longrightarrow> VerifyChain (take n es) = (True, 0)"
  using audit.chained_take [of GenesisHash es n] by (simp add: audit_bridge)

theorem truncation_undetected_witness: "VerifyChain (take 1 sample_log) = (True, 0)"
  using truncation_undetected [of sample_log 1] by (simp add: VerifyChain_def sample_log_verifies)

text \<open>The separator is not escaped: moving it between two neighbouring free-text fields (actor \<open>ops\<close> with
  role \<open>x|admin\<close>, and actor \<open>ops|x\<close> with role \<open>admin\<close>) changes who did it without changing the
  hash, so the substitution verifies.\<close>

theorem separator_ambiguous:
  fixes e :: AuditEntry
  defines "a \<equiv> e\<lparr>e_Actor := ''ops'', e_Role := ''x|admin''\<rparr>" and "b \<equiv> e\<lparr>e_Actor := ''ops|x'', e_Role := ''admin''\<rparr>"
  shows "content a \<noteq> content b \<and> Canonical p a = Canonical p b \<and>
         VerifyChain [seal GenesisHash a] = (True, 0) \<and>
         VerifyChain [b\<lparr>e_PrevHash := GenesisHash, e_Hash := e_Hash (seal GenesisHash a)\<rparr>] = (True, 0)"
  by (simp add: a_def b_def content_def VerifyChain_def Hash_def Canonical_def seal_def)

end
