(* ===== verification/Store.thy ===== *)
theory Store
  imports Audit_Chain "HOL-Library.Product_Lexorder"
begin

text \<open>
  \<open>internal/store\<close> over the schema of \<open>internal/db/migrations\<close>: PostgreSQL's tables are row lists
  in insertion order and each method is the SQL it sends, constraints included.  The server, the
  driver and the clock are not part of the repository; they enter through an environment \<open>env\<close>: what the
  \<open>n\<close>-th call gets from the clock and the UUID generator, whether it fails (\<open>fault_at\<close>) and whether the statement of
  a failing call has taken effect all the same, only its reply being lost (\<open>late_at\<close>), the
  precision of TIMESTAMPTZ (\<open>ts_store\<close>), the parsing of a UUID argument (\<open>uuid_text\<close>, canonical
  text) and which strings a TEXT column takes (\<open>text_ok\<close>).  Where SQL leaves the order of equal
  keys open, the model keeps insertion order.
\<close>

datatype store_error = ErrNotFound | DBError

record env =
  now_at :: "nat \<Rightarrow> time"
  uuid_at :: "nat \<Rightarrow> string"
  fault_at :: "nat \<Rightarrow> bool"
  late_at :: "nat \<Rightarrow> bool"
  ts_store :: "time \<Rightarrow> time"
  uuid_text :: "string \<Rightarrow> string option"
  text_ok :: "string \<Rightarrow> bool"

record db =
  assets :: "Asset list"
  scan_jobs :: "ScanJob list"
  findings :: "Finding list"
  audit_log :: "AuditEntry list"
  audit_next :: int
  tick :: nat

definition db_empty :: db where
  "db_empty = \<lparr>assets = [], scan_jobs = [], findings = [], audit_log = [], audit_next = 1, tick = 0\<rparr>"

text \<open>A call to the server: the clock moves on, and the call fails as the environment says, before the statement or
  the commit is executed, or after.\<close>

definition call :: "env \<Rightarrow> (nat \<Rightarrow> db \<Rightarrow> (store_error + 'a) \<times> db) \<Rightarrow> db \<Rightarrow> (store_error + 'a) \<times> db" where
  "call E f s =
     (let t = tick s; s' = s\<lparr>tick := Suc t\<rparr>
      in if fault_at E t then (Inl DBError, if late_at E t then snd (f t s') else s') else f t s')"

section \<open>Rows addressed by a key\<close>

definition select_id :: "('r \<Rightarrow> string) \<Rightarrow> string \<Rightarrow> 'r list \<Rightarrow> 'r option" where
  "select_id key i rs = find (\<lambda>r. key r = i) rs"

definition update_id :: "('r \<Rightarrow> string) \<Rightarrow> string \<Rightarrow> ('r \<Rightarrow> 'r) \<Rightarrow> 'r list \<Rightarrow> 'r list" where
  "update_id key i f rs = map (\<lambda>r. if key r = i then f r else r) rs"

text \<open>\<open>ORDER BY k DESC\<close>, equal keys in insertion order.\<close>

definition order_desc :: "('r \<Rightarrow> 'k::linorder) \<Rightarrow> 'r list \<Rightarrow> 'r list" where
  "order_desc k rs = rev (sort_key k (rev rs))"

text \<open>The server orders a double precision NaN above every other value.\<close>

fun float8_key :: "f64 \<Rightarrow> int \<times> rat" where
  "float8_key NInf = (0, 0)"
| "float8_key (Fin q) = (1, q)"
| "float8_key PInf = (2, 0)"
| "float8_key NaN = (3, 0)"

section \<open>Assets\<close>

definition asset_check :: "env \<Rightarrow> Asset \<Rightarrow> bool" where
  "asset_check E a \<longleftrightarrow>
     a_Type a \<in> {AssetIP, AssetDomain, AssetRepo} \<and>
     a_Criticality a \<in> {CritLow, CritMedium, CritHigh, CritCritical} \<and>
     list_all (text_ok E) (a_Name a # a_Target a # a_Tags a)"

definition CreateAsset :: "env \<Rightarrow> Asset \<Rightarrow> db \<Rightarrow> (store_error + Asset) \<times> db" where
  "CreateAsset E a =
     call E (\<lambda>t s.
       let a = a\<lparr>a_ID := uuid_at E t, a_CreatedAt := now_at E t\<rparr>
       in (case uuid_text E (a_ID a) of
             None \<Rightarrow> (Inl DBError, s)
           | Some i \<Rightarrow>
               if \<not> asset_check E a \<or> select_id a_ID i (assets s) \<noteq> None then (Inl DBError, s)
               else (Inr a, s\<lparr>assets := assets s @ [a\<lparr>a_ID := i, a_CreatedAt := ts_store E (a_CreatedAt a)\<rparr>]\<rparr>)))"

definition SetAssetAuthorization :: "env \<Rightarrow> string \<Rightarrow> bool \<Rightarrow> db \<Rightarrow> (store_error + unit) \<times> db" where
  "SetAssetAuthorization E rid authorized =
     call E (\<lambda>t s.
       case uuid_text E rid of
         None \<Rightarrow> (Inl DBError, s)
       | Some i \<Rightarrow>
           if select_id a_ID i (assets s) = None then (Inl ErrNotFound, s)
           else (Inr (), s\<lparr>assets := update_id a_ID i (\<lambda>a. a\<lparr>a_ScanAuthorized := authorized\<rparr>) (assets s)\<rparr>))"

definition GetAsset :: "env \<Rightarrow> string \<Rightarrow> db \<Rightarrow> (store_error + Asset) \<times> db" where
  "GetAsset E rid =
     call E (\<lambda>t s.
       case uuid_text E rid of
         None \<Rightarrow> (Inl DBError, s)
       | Some i \<Rightarrow> (case select_id a_ID i (assets s) of None \<Rightarrow> (Inl ErrNotFound, s) | Some a \<Rightarrow> (Inr a, s)))"

definition GetAssetByTarget :: "env \<Rightarrow> string \<Rightarrow> db \<Rightarrow> (store_error + Asset) \<times> db" where
  "GetAssetByTarget E target =
     call E (\<lambda>t s.
       if \<not> text_ok E target then (Inl DBError, s)
       else (case find (\<lambda>a. a_Target a = target) (assets s) of
               None \<Rightarrow> (Inl ErrNotFound, s) | Some a \<Rightarrow> (Inr a, s)))"

definition ListAssets :: "env \<Rightarrow> db \<Rightarrow> (store_error + Asset list) \<times> db" where
  "ListAssets E = call E (\<lambda>t s. (Inr (order_desc a_CreatedAt (assets s)), s))"

section \<open>Scan jobs\<close>

definition job_check :: "env \<Rightarrow> ScanJob \<Rightarrow> bool" where
  "job_check E j \<longleftrightarrow>
     j_Status j \<in> {StatusQueued, StatusRunning, StatusCompleted, StatusFailed} \<and>
     list_all (text_ok E) (j_Profile j # j_Error j # j_Scanners j)"

definition CreateScanJob :: "env \<Rightarrow> ScanJob \<Rightarrow> db \<Rightarrow> (store_error + ScanJob) \<times> db" where
  "CreateScanJob E j =
     call E (\<lambda>t s.
       let j = j\<lparr>j_ID := uuid_at E t, j_CreatedAt := now_at E t, j_Status := StatusQueued\<rparr>;
           row = j\<lparr>j_Error := [], j_UsedMock := False, j_CreatedAt := ts_store E (j_CreatedAt j),
                   j_StartedAt := None, j_FinishedAt := None\<rparr>
       in (case (uuid_text E (j_ID j), uuid_text E (j_AssetID j)) of
             (Some i, Some a) \<Rightarrow>
               if \<not> job_check E row \<or> select_id j_ID i (scan_jobs s) \<noteq> None
                  \<or> select_id a_ID a (assets s) = None
               then (Inl DBError, s)
               else (Inr j, s\<lparr>scan_jobs := scan_jobs s @ [row\<lparr>j_ID := i, j_AssetID := a\<rparr>]\<rparr>)
           | _ \<Rightarrow> (Inl DBError, s)))"

definition GetScanJob :: "env \<Rightarrow> string \<Rightarrow> db \<Rightarrow> (store_error + ScanJob) \<times> db" where
  "GetScanJob E rid =
     call E (\<lambda>t s.
       case uuid_text E rid of
         None \<Rightarrow> (Inl DBError, s)
       | Some i \<Rightarrow> (case select_id j_ID i (scan_jobs s) of None \<Rightarrow> (Inl ErrNotFound, s) | Some j \<Rightarrow> (Inr j, s)))"

definition ListScanJobs :: "env \<Rightarrow> db \<Rightarrow> (store_error + ScanJob list) \<times> db" where
  "ListScanJobs E = call E (\<lambda>t s. (Inr (order_desc j_CreatedAt (scan_jobs s)), s))"

text \<open>The three updates of a job do not look at the number of affected rows.\<close>

definition update_job :: "env \<Rightarrow> string \<Rightarrow> (nat \<Rightarrow> ScanJob \<Rightarrow> ScanJob) \<Rightarrow> db \<Rightarrow> (store_error + unit) \<times> db" where
  "update_job E rid f =
     call E (\<lambda>t s.
       case uuid_text E rid of
         None \<Rightarrow> (Inl DBError, s)
       | Some i \<Rightarrow> (Inr (), s\<lparr>scan_jobs := update_id j_ID i (f t) (scan_jobs s)\<rparr>))"

definition MarkRunning :: "env \<Rightarrow> string \<Rightarrow> db \<Rightarrow> (store_error + unit) \<times> db" where
  "MarkRunning E rid =
     update_job E rid (\<lambda>t j. j\<lparr>j_Status := StatusRunning, j_StartedAt := Some (ts_store E (now_at E t))\<rparr>)"

definition MarkCompleted :: "env \<Rightarrow> string \<Rightarrow> bool \<Rightarrow> db \<Rightarrow> (store_error + unit) \<times> db" where
  "MarkCompleted E rid usedMock =
     update_job E rid (\<lambda>t j. j\<lparr>j_Status := StatusCompleted,
                              j_FinishedAt := Some (ts_store E (now_at E t)), j_UsedMock := usedMock\<rparr>)"

text \<open>A message the TEXT column refuses fails the statement.\<close>

definition MarkFailed :: "env \<Rightarrow> string \<Rightarrow> string \<Rightarrow> db \<Rightarrow> (store_error + unit) \<times> db" where
  "MarkFailed E rid errMsg s =
     (if text_ok E errMsg
      then update_job E rid (\<lambda>t j. j\<lparr>j_Status := StatusFailed,
                                    j_FinishedAt := Some (ts_store E (now_at E t)), j_Error := errMsg\<rparr>) s
      else (Inl DBError, s\<lparr>tick := Suc (tick s)\<rparr>))"

section \<open>Findings\<close>

definition finding_check :: "env \<Rightarrow> Finding \<Rightarrow> bool" where
  "finding_check E f \<longleftrightarrow>
     f_Status f \<in> {FindingOpen, FindingValidated, FindingFalsePositive, FindingRemediated} \<and>
     - (2 ^ 31) \<le> f_Port f \<and> f_Port f < 2 ^ 31 \<and>
     list_all (text_ok E)
       [f_Scanner f, f_Title f, f_Desc f, f_Severity f, f_CVE f, f_CWE f, f_Service f, f_Evidence f, f_Status f]"

text \<open>The columns of a finding: what has none is lost, and reads back as the zero value.\<close>

definition finding_row :: "Finding \<Rightarrow> Finding" where
  "finding_row f =
     f\<lparr>f_CVSSVector := [], f_EPSS := Fin 0, f_DueDate := None, f_SLABreached := False,
       f_SLADaysLeft := 0, f_Principal := [], f_CredFP := []\<rparr>"

definition CreateFinding :: "env \<Rightarrow> Finding \<Rightarrow> db \<Rightarrow> (store_error + Finding) \<times> db" where
  "CreateFinding E f =
     call E (\<lambda>t s.
       let f = f\<lparr>f_ID := (if f_ID f = [] then uuid_at E t else f_ID f), f_CreatedAt := now_at E t,
                 f_Status := (if f_Status f = [] then FindingOpen else f_Status f)\<rparr>
       in (case (uuid_text E (f_ID f), uuid_text E (f_ScanJobID f), uuid_text E (f_AssetID f)) of
             (Some i, Some j, Some a) \<Rightarrow>
               if \<not> finding_check E f \<or> select_id f_ID i (findings s) \<noteq> None
                  \<or> select_id j_ID j (scan_jobs s) = None \<or> select_id a_ID a (assets s) = None
               then (Inl DBError, s)
               else (Inr f, s\<lparr>findings := findings s @
                                [(finding_row f)\<lparr>f_ID := i, f_ScanJobID := j, f_AssetID := a,
                                                  f_CreatedAt := ts_store E (f_CreatedAt f)\<rparr>]\<rparr>)
           | _ \<Rightarrow> (Inl DBError, s)))"

text \<open>The rows selected by the two optional filters, the highest risk first and then the newest.\<close>

definition select_findings :: "string \<Rightarrow> string \<Rightarrow> db \<Rightarrow> Finding list" where
  "select_findings assetID scanJobID s =
     order_desc (\<lambda>f. float8_key (f_RiskScore f))
       (order_desc f_CreatedAt
          (filter (\<lambda>f. (assetID = [] \<or> f_AssetID f = assetID) \<and> (scanJobID = [] \<or> f_ScanJobID f = scanJobID))
             (findings s)))"

definition ListFindings ::
  "env \<Rightarrow> string \<Rightarrow> string \<Rightarrow> int \<Rightarrow> int \<Rightarrow> db \<Rightarrow> (store_error + Finding list) \<times> db" where
  "ListFindings E assetID scanJobID limit offset =
     call E (\<lambda>t s.
       if \<not> text_ok E assetID \<or> \<not> text_ok E scanJobID then (Inl DBError, s)
       else if limit > 0 then
         (if offset < 0 then (Inl DBError, s)
          else (Inr (take (nat limit) (drop (nat offset) (select_findings assetID scanJobID s))), s))
       else (Inr (select_findings assetID scanJobID s), s))"

definition UpdateFindingStatus :: "env \<Rightarrow> string \<Rightarrow> FindingStatus \<Rightarrow> db \<Rightarrow> (store_error + unit) \<times> db" where
  "UpdateFindingStatus E rid status =
     call E (\<lambda>t s.
       case uuid_text E rid of
         None \<Rightarrow> (Inl DBError, s)
       | Some i \<Rightarrow>
           if \<not> text_ok E status then (Inl DBError, s)
           else if select_id f_ID i (findings s) = None then (Inl ErrNotFound, s)
           else if status \<notin> {FindingOpen, FindingValidated, FindingFalsePositive, FindingRemediated}
           then (Inl DBError, s)
           else (Inr (), s\<lparr>findings := update_id f_ID i (\<lambda>f. f\<lparr>f_Status := status\<rparr>) (findings s)\<rparr>))"

section \<open>The audit log\<close>

text \<open>
  \<open>AppendAudit\<close> runs under an advisory lock, so appends are serial.  A failure leaves no row; the
  sequence numbers that a failed transaction burns are not modelled, since only their order
  matters.
\<close>

definition audit_check :: "env \<Rightarrow> AuditEntry \<Rightarrow> bool" where
  "audit_check E e \<longleftrightarrow>
     - (2 ^ 31) \<le> e_Status e \<and> e_Status e < 2 ^ 31 \<and>
     list_all (text_ok E) [e_Actor e, e_Role e, e_Method e, e_Path e, e_RemoteIP e]"

definition AppendAudit :: "env \<Rightarrow> AuditEntry \<Rightarrow> db \<Rightarrow> (store_error + AuditEntry) \<times> db" where
  "AppendAudit E e =
     call E (\<lambda>t s.
       let prev = (if audit_log s = [] then GenesisHash else e_Hash (last (audit_log s)));
           e = e\<lparr>e_TS := now_at E t, e_PrevHash := prev\<rparr>;
           e = e\<lparr>e_Hash := Hash prev e, e_Seq := audit_next s\<rparr>
       in if \<not> audit_check E e then (Inl DBError, s)
          else (Inr e, s\<lparr>audit_log := audit_log s @ [e\<lparr>e_TS := ts_store E (e_TS e)\<rparr>],
                         audit_next := audit_next s + 1\<rparr>))"

definition ListAudit :: "env \<Rightarrow> int \<Rightarrow> db \<Rightarrow> (store_error + AuditEntry list) \<times> db" where
  "ListAudit E limit =
     call E (\<lambda>t s.
       let limit = (if limit \<le> 0 \<or> limit > 1000 then 200 else limit)
       in (Inr (sort_key e_Seq (take (nat limit) (order_desc e_Seq (audit_log s)))), s))"

definition AllAuditForVerify :: "env \<Rightarrow> db \<Rightarrow> (store_error + AuditEntry list) \<times> db" where
  "AllAuditForVerify E = call E (\<lambda>t s. (Inr (sort_key e_Seq (audit_log s)), s))"

section \<open>Tables\<close>

lemma select_update_id:
  assumes "\<And>r. key (f r) = key r"
  shows "select_id key i (update_id key k f xs) =
           (if i = k then map_option f (select_id key i xs) else select_id key i xs)"
  using assms by (induction xs) (auto simp: select_id_def update_id_def)

text \<open>What the clients of a table use: a keyed row list inside the database.\<close>

locale keyed_table =
  fixes key :: "'r \<Rightarrow> string" and rows :: "db \<Rightarrow> 'r list" and put :: "'r list \<Rightarrow> db \<Rightarrow> db"
  assumes rows_put: "rows (put rs s) = rs"
begin

definition keys_distinct :: "db \<Rightarrow> bool" where
  "keys_distinct s \<longleftrightarrow> distinct (map key (rows s))"

definition has_key :: "string \<Rightarrow> db \<Rightarrow> bool" where
  "has_key i s \<longleftrightarrow> i \<in> key ` set (rows s)"

lemma lookup_iff: "select_id key i (rows s) \<noteq> None \<longleftrightarrow> has_key i s"
  unfolding select_id_def has_key_def by (auto simp: find_None_iff)

lemma lookup_None: "select_id key i (rows s) = None \<longleftrightarrow> \<not> has_key i s"
  using lookup_iff by blast

lemma lookup_Some: "select_id key i (rows s) = Some r \<Longrightarrow> r \<in> set (rows s) \<and> key r = i"
  unfolding select_id_def by (drule find_SomeD) blast

lemma lookup_insert:
  "select_id key i (rows (put (rows s @ [r]) s)) =
     (if has_key i s then select_id key i (rows s) else if key r = i then Some r else None)"
proof -
  have "select_id key i (xs @ [r]) =
      (if i \<in> key ` set xs then select_id key i xs else if key r = i then Some r else None)" for xs
    by (induction xs) (auto simp: select_id_def)
  then show ?thesis by (simp add: rows_put has_key_def)
qed

lemma keys_distinct_insert: "keys_distinct s \<Longrightarrow> \<not> has_key (key r) s \<Longrightarrow> keys_distinct (put (rows s @ [r]) s)"
  by (auto simp: keys_distinct_def has_key_def rows_put)

lemma update_keys:
  assumes "\<And>r. key (f r) = key r"
  shows "map key (update_id key k f rs) = map key rs"
  using assms by (induction rs) (auto simp: update_id_def)

lemma keys_distinct_update:
  assumes "\<And>r. key (f r) = key r"
  shows "keys_distinct (put (update_id key k f (rows s)) s) = keys_distinct s"
  by (simp add: keys_distinct_def rows_put update_keys [OF assms])

lemma has_key_update:
  assumes "\<And>r. key (f r) = key r"
  shows "has_key i (put (update_id key k f (rows s)) s) = has_key i s"
  using arg_cong [OF update_keys [where f = f and k = k and rs = "rows s", OF assms], of set]
  by (simp add: has_key_def rows_put)

lemma lookup_update:
  assumes "\<And>r. key (f r) = key r"
  shows "select_id key i (rows (put (update_id key k f (rows s)) s)) =
           (if i = k then map_option f (select_id key i (rows s)) else select_id key i (rows s))"
  by (simp add: rows_put select_update_id [where key = key and f = f, OF assms])

end

lemma update_id_set: "r \<in> set (update_id key k f rs) \<Longrightarrow> r \<in> set rs \<or> (\<exists>q \<in> set rs. r = f q)"
  by (auto simp: update_id_def split: if_splits)

interpretation at: keyed_table a_ID assets "\<lambda>rs s. s\<lparr>assets := rs\<rparr>"
  by unfold_locales simp

interpretation jt: keyed_table j_ID scan_jobs "\<lambda>rs s. s\<lparr>scan_jobs := rs\<rparr>"
  by unfold_locales simp

interpretation ft: keyed_table f_ID findings "\<lambda>rs s. s\<lparr>findings := rs\<rparr>"
  by unfold_locales simp

section \<open>The integrity of the database\<close>

definition refs_ok :: "db \<Rightarrow> bool" where
  "refs_ok s \<longleftrightarrow>
     (\<forall>j \<in> set (scan_jobs s). at.has_key (j_AssetID j) s) \<and>
     (\<forall>f \<in> set (findings s). jt.has_key (f_ScanJobID f) s \<and> at.has_key (f_AssetID f) s)"

definition checks_ok :: "env \<Rightarrow> db \<Rightarrow> bool" where
  "checks_ok E s \<longleftrightarrow>
     (\<forall>a \<in> set (assets s). asset_check E a) \<and>
     (\<forall>j \<in> set (scan_jobs s). job_check E j) \<and>
     (\<forall>f \<in> set (findings s). finding_check E f)"

definition log_ordered :: "db \<Rightarrow> bool" where
  "log_ordered s \<longleftrightarrow> sorted_wrt (<) (map e_Seq (audit_log s)) \<and> (\<forall>e \<in> set (audit_log s). e_Seq e < audit_next s)"

definition db_inv :: "env \<Rightarrow> db \<Rightarrow> bool" where
  "db_inv E s \<longleftrightarrow>
     at.keys_distinct s \<and> jt.keys_distinct s \<and> ft.keys_distinct s \<and> refs_ok s \<and> checks_ok E s \<and> log_ordered s"

text \<open>One call of the store, on any arguments.\<close>

inductive db_step :: "env \<Rightarrow> db \<Rightarrow> db \<Rightarrow> bool" for E where
  "db_step E s (snd (CreateAsset E a s))"
| "db_step E s (snd (SetAssetAuthorization E i b s))"
| "db_step E s (snd (GetAsset E i s))"
| "db_step E s (snd (GetAssetByTarget E i s))"
| "db_step E s (snd (ListAssets E s))"
| "db_step E s (snd (CreateScanJob E j s))"
| "db_step E s (snd (GetScanJob E i s))"
| "db_step E s (snd (ListScanJobs E s))"
| "db_step E s (snd (MarkRunning E i s))"
| "db_step E s (snd (MarkCompleted E i b s))"
| "db_step E s (snd (MarkFailed E i m s))"
| "db_step E s (snd (CreateFinding E f s))"
| "db_step E s (snd (ListFindings E i j l k s))"
| "db_step E s (snd (UpdateFindingStatus E i st s))"
| "db_step E s (snd (AppendAudit E e s))"
| "db_step E s (snd (ListAudit E l s))"
| "db_step E s (snd (AllAuditForVerify E s))"

lemma db_inv_tick [simp]: "db_inv E (s\<lparr>tick := n\<rparr>) = db_inv E s"
  by (simp add: db_inv_def at.keys_distinct_def jt.keys_distinct_def ft.keys_distinct_def refs_ok_def
      checks_ok_def log_ordered_def at.has_key_def jt.has_key_def)

lemma call_inv:
  assumes "db_inv E s" and "\<And>t s. db_inv E s \<Longrightarrow> db_inv E (snd (f t s))"
  shows "db_inv E (snd (call E f s))"
  using assms by (simp add: call_def Let_def)

lemma call_read: "(\<And>t s. snd (f t s) = s) \<Longrightarrow> snd (call E f s) = s\<lparr>tick := Suc (tick s)\<rparr>"
  by (simp add: call_def Let_def)

lemma CreateAsset_inv [inv_intros]: "db_inv E s \<Longrightarrow> db_inv E (snd (CreateAsset E a s))"
  unfolding CreateAsset_def
proof (erule call_inv, goal_cases)
  case (1 t s)
  show ?case
  proof (cases "uuid_text E (uuid_at E t)")
    case (Some i)
    define r where "r = a\<lparr>a_ID := i, a_CreatedAt := ts_store E (now_at E t)\<rparr>"
    have k: "at.has_key x (s\<lparr>assets := assets s @ [r]\<rparr>) = (at.has_key x s \<or> x = i)" for x
      by (auto simp: at.has_key_def r_def)
    have "db_inv E (s\<lparr>assets := assets s @ [r]\<rparr>)" if "asset_check E r" "\<not> at.has_key i s"
      using 1 that at.keys_distinct_insert [of s r] unfolding db_inv_def refs_ok_def k
      by (auto simp: r_def checks_ok_def log_ordered_def jt.keys_distinct_def ft.keys_distinct_def jt.has_key_def)
    moreover have "asset_check E r \<longleftrightarrow> asset_check E (a\<lparr>a_ID := uuid_at E t, a_CreatedAt := now_at E t\<rparr>)"
      by (simp add: asset_check_def r_def)
    ultimately show ?thesis using 1 Some by (simp add: Let_def r_def at.lookup_None)
  qed (simp add: 1 Let_def)
qed

lemma asset_update_inv:
  assumes "db_inv E s" and "\<And>a. a_ID (f a) = a_ID a" and "\<And>a. asset_check E a \<Longrightarrow> asset_check E (f a)"
  shows "db_inv E (s\<lparr>assets := update_id a_ID i f (assets s)\<rparr>)"
proof -
  have k: "at.has_key x (s\<lparr>assets := update_id a_ID i f (assets s)\<rparr>) = at.has_key x s" for x
    using at.has_key_update [OF assms(2)] .
  show ?thesis
    using assms(1,3) at.keys_distinct_update [of f i s, OF assms(2)] unfolding db_inv_def refs_ok_def k
    by (auto simp: checks_ok_def log_ordered_def jt.keys_distinct_def ft.keys_distinct_def jt.has_key_def
        dest!: update_id_set)
qed

lemma SetAssetAuthorization_inv [inv_intros]: "db_inv E s \<Longrightarrow> db_inv E (snd (SetAssetAuthorization E i b s))"
  unfolding SetAssetAuthorization_def
  by (erule call_inv) (auto split: option.split intro!: asset_update_inv simp: asset_check_def)

lemma read_inv:
  "snd (GetAsset E i s) = s\<lparr>tick := Suc (tick s)\<rparr>"
  "snd (GetAssetByTarget E i s) = s\<lparr>tick := Suc (tick s)\<rparr>"
  "snd (ListAssets E s) = s\<lparr>tick := Suc (tick s)\<rparr>"
  "snd (GetScanJob E i s) = s\<lparr>tick := Suc (tick s)\<rparr>"
  "snd (ListScanJobs E s) = s\<lparr>tick := Suc (tick s)\<rparr>"
  "snd (ListFindings E i j l k s) = s\<lparr>tick := Suc (tick s)\<rparr>"
  "snd (ListAudit E n s) = s\<lparr>tick := Suc (tick s)\<rparr>"
  "snd (AllAuditForVerify E s) = s\<lparr>tick := Suc (tick s)\<rparr>"
  unfolding GetAsset_def GetAssetByTarget_def ListAssets_def GetScanJob_def ListScanJobs_def
    ListFindings_def ListAudit_def AllAuditForVerify_def
  by (rule call_read, simp add: Let_def split: option.split)+

lemma job_update_inv:
  assumes "db_inv E s" and "\<And>j. j_ID (f j) = j_ID j" and "\<And>j. j_AssetID (f j) = j_AssetID j"
    and "\<And>j. job_check E j \<Longrightarrow> job_check E (f j)"
  shows "db_inv E (s\<lparr>scan_jobs := update_id j_ID i f (scan_jobs s)\<rparr>)"
proof -
  have k: "jt.has_key x (s\<lparr>scan_jobs := update_id j_ID i f (scan_jobs s)\<rparr>) = jt.has_key x s" for x
    using jt.has_key_update [OF assms(2)] .
  show ?thesis
    using assms(1,3,4) jt.keys_distinct_update [of f i s, OF assms(2)] unfolding db_inv_def refs_ok_def k
    by (auto simp: checks_ok_def log_ordered_def at.keys_distinct_def ft.keys_distinct_def at.has_key_def
        dest!: update_id_set)
qed

lemma update_job_inv:
  assumes "db_inv E s" and "\<And>t j. j_ID (f t j) = j_ID j" and "\<And>t j. j_AssetID (f t j) = j_AssetID j"
    and "\<And>t j. job_check E j \<Longrightarrow> job_check E (f t j)"
  shows "db_inv E (snd (update_job E i f s))"
  unfolding update_job_def using assms
  by (intro call_inv) (auto split: option.split intro!: job_update_inv)

lemma MarkRunning_inv [inv_intros]: "db_inv E s \<Longrightarrow> db_inv E (snd (MarkRunning E i s))"
  unfolding MarkRunning_def by (erule update_job_inv) (auto simp: job_check_def)

lemma MarkCompleted_inv [inv_intros]: "db_inv E s \<Longrightarrow> db_inv E (snd (MarkCompleted E i b s))"
  unfolding MarkCompleted_def by (erule update_job_inv) (auto simp: job_check_def)

lemma MarkFailed_inv [inv_intros]: "db_inv E s \<Longrightarrow> db_inv E (snd (MarkFailed E i m s))"
  unfolding MarkFailed_def by (auto simp: job_check_def intro!: update_job_inv)

lemma CreateScanJob_inv [inv_intros]: "db_inv E s \<Longrightarrow> db_inv E (snd (CreateScanJob E j s))"
  unfolding CreateScanJob_def
proof (erule call_inv, goal_cases)
  case (1 t s)
  show ?case
  proof (cases "\<exists>i a. uuid_text E (uuid_at E t) = Some i \<and> uuid_text E (j_AssetID j) = Some a")
    case True
    then obtain i a where u: "uuid_text E (uuid_at E t) = Some i" "uuid_text E (j_AssetID j) = Some a" by blast
    define r where "r = j\<lparr>j_Status := StatusQueued, j_Error := [], j_UsedMock := False,
      j_CreatedAt := ts_store E (now_at E t), j_StartedAt := None, j_FinishedAt := None, j_ID := i, j_AssetID := a\<rparr>"
    have k: "jt.has_key x (s\<lparr>scan_jobs := scan_jobs s @ [r]\<rparr>) = (jt.has_key x s \<or> x = i)" for x
      by (auto simp: jt.has_key_def r_def)
    have "db_inv E (s\<lparr>scan_jobs := scan_jobs s @ [r]\<rparr>)" if "job_check E r" "\<not> jt.has_key i s" "at.has_key a s"
      using 1 that jt.keys_distinct_insert [of s r] unfolding db_inv_def refs_ok_def k
      by (auto simp: r_def checks_ok_def log_ordered_def at.keys_distinct_def ft.keys_distinct_def at.has_key_def)
    moreover have "job_check E (r\<lparr>j_ID := x, j_AssetID := y\<rparr>) \<longleftrightarrow> job_check E r" for x y
      by (simp add: job_check_def)
    ultimately show ?thesis
      using 1 u by (simp add: Let_def r_def jt.lookup_None at.lookup_None job_check_def)
  qed (auto simp: 1 Let_def split: option.split)
qed

lemma CreateFinding_inv [inv_intros]: "db_inv E s \<Longrightarrow> db_inv E (snd (CreateFinding E f s))"
  unfolding CreateFinding_def
proof (erule call_inv, goal_cases)
  case (1 t s)
  define g where "g = f\<lparr>f_ID := (if f_ID f = [] then uuid_at E t else f_ID f), f_CreatedAt := now_at E t,
    f_Status := (if f_Status f = [] then FindingOpen else f_Status f)\<rparr>"
  show ?case
  proof (cases "\<exists>i j a. uuid_text E (f_ID g) = Some i \<and> uuid_text E (f_ScanJobID g) = Some j \<and>
      uuid_text E (f_AssetID g) = Some a")
    case True
    then obtain i j a where u: "uuid_text E (f_ID g) = Some i" "uuid_text E (f_ScanJobID g) = Some j"
      "uuid_text E (f_AssetID g) = Some a" by blast
    define r where "r = (finding_row g)\<lparr>f_ID := i, f_ScanJobID := j, f_AssetID := a,
      f_CreatedAt := ts_store E (f_CreatedAt g)\<rparr>"
    have "db_inv E (s\<lparr>findings := findings s @ [r]\<rparr>)"
      if "finding_check E r" "\<not> ft.has_key i s" "jt.has_key j s" "at.has_key a s"
      using 1 that ft.keys_distinct_insert [of s r] unfolding db_inv_def refs_ok_def
      by (auto simp: r_def checks_ok_def log_ordered_def at.keys_distinct_def jt.keys_distinct_def
          at.has_key_def jt.has_key_def)
    moreover have "finding_check E r \<longleftrightarrow> finding_check E g"
      by (simp add: finding_check_def r_def finding_row_def)
    ultimately show ?thesis
      using 1 u unfolding Let_def g_def [symmetric]
      by (simp add: r_def ft.lookup_None jt.lookup_None at.lookup_None)
  next
    case False
    then show ?thesis using 1 unfolding Let_def g_def [symmetric] by (auto split: option.split)
  qed
qed

lemma UpdateFindingStatus_inv [inv_intros]: "db_inv E s \<Longrightarrow> db_inv E (snd (UpdateFindingStatus E i st s))"
  unfolding UpdateFindingStatus_def
proof (erule call_inv, goal_cases)
  case (1 t s)
  have "db_inv E (s\<lparr>findings := update_id f_ID k (\<lambda>f. f\<lparr>f_Status := st\<rparr>) (findings s)\<rparr>)"
    if "text_ok E st" "st \<in> {FindingOpen, FindingValidated, FindingFalsePositive, FindingRemediated}" for k
    using 1 that ft.keys_distinct_update [of "\<lambda>f. f\<lparr>f_Status := st\<rparr>" k s] unfolding db_inv_def refs_ok_def
    by (auto simp: checks_ok_def finding_check_def log_ordered_def at.keys_distinct_def jt.keys_distinct_def
          at.has_key_def jt.has_key_def dest!: update_id_set)
  with 1 show ?case by (auto split: option.split)
qed

lemma AppendAudit_inv [inv_intros]: "db_inv E s \<Longrightarrow> db_inv E (snd (AppendAudit E e s))"
  unfolding AppendAudit_def
proof (erule call_inv, goal_cases)
  case (1 t s)
  have "db_inv E (s\<lparr>audit_log := audit_log s @ [r], audit_next := audit_next s + 1\<rparr>)"
    if "e_Seq r = audit_next s" for r
    using 1 that by (fastforce simp: db_inv_def refs_ok_def checks_ok_def log_ordered_def at.keys_distinct_def
        jt.keys_distinct_def ft.keys_distinct_def at.has_key_def jt.has_key_def sorted_wrt_append)
  then show ?case using 1 by (simp add: Let_def)
qed

lemma db_step_inv: "db_step E s s' \<Longrightarrow> db_inv E s \<Longrightarrow> db_inv E s'"
  by (cases rule: db_step.cases, assumption) (auto simp: read_inv intro: inv_intros)

lemma db_empty_inv: "db_inv E db_empty"
  by (simp add: db_inv_def db_empty_def at.keys_distinct_def jt.keys_distinct_def ft.keys_distinct_def
      refs_ok_def checks_ok_def log_ordered_def)

inductive db_reach :: "env \<Rightarrow> db \<Rightarrow> bool" for E where
  start: "db_reach E db_empty"
| step: "db_reach E s \<Longrightarrow> db_step E s s' \<Longrightarrow> db_reach E s'"

text \<open>In every state reachable by calls of the store, with any arguments, clock, identifiers and server
  failures, the identifiers of assets, jobs and findings are unique, every job refers to an asset
  and every finding to a job and an asset, all rows satisfy the schema's checks, and the audit
  sequence is strictly increasing.\<close>

theorem database_integrity: "db_reach E s \<Longrightarrow> db_inv E s"
  by (induction rule: db_reach.induct) (auto intro: db_empty_inv db_step_inv)

text \<open>An environment to evaluate with: identifiers are numbered, the clock ticks a second per call.\<close>

definition demo_env :: env where
  "demo_env = \<lparr>now_at = (\<lambda>n. int n * Second), uuid_at = (\<lambda>n. show_nat n), fault_at = (\<lambda>n. n = 7), late_at = (\<lambda>n. False),
     ts_store = (\<lambda>t. t - t mod 1000), uuid_text = Some, text_ok = (\<lambda>s. CHR 0x00 \<notin> set s)\<rparr>"

definition demo_asset :: Asset where
  "demo_asset = \<lparr>a_ID = [], a_Name = ''web'', a_Type = AssetIP, a_Target = ''10.0.0.5'',
     a_Criticality = CritHigh, a_Tags = [''dmz''], a_ScanAuthorized = False, a_CreatedAt = 0\<rparr>"

definition demo_db :: db where
  "demo_db = snd (CreateAsset demo_env demo_asset db_empty)"

lemmas demo_eval [go_eval] = demo_db_def demo_env_def demo_asset_def db_empty_def CreateAsset_def call_def
  asset_check_def select_id_def

lemma show_nat_0: "show_nat 0 = ''0''"
  by code_simp

lemma demo_db_val: "demo_db = db_empty\<lparr>assets := [demo_asset\<lparr>a_ID := ''0''\<rparr>], tick := 1\<rparr>"
  by (simp add: go_eval Let_def show_nat_0)

lemma demo_db_reach: "db_reach demo_env demo_db"
  unfolding demo_db_def by (rule db_reach.step [OF db_reach.start db_step.intros(1)])

theorem database_integrity_witness: "db_inv demo_env demo_db \<and> assets demo_db \<noteq> []"
  using database_integrity [OF demo_db_reach] by (simp add: demo_db_val)

section \<open>What the calls return\<close>

lemma call_ok: "call E f s = (Inr x, s') \<longleftrightarrow> \<not> fault_at E (tick s) \<and> f (tick s) (s\<lparr>tick := Suc (tick s)\<rparr>) = (Inr x, s')"
  by (simp add: call_def Let_def)

text \<open>An asset that was created reads back under its identifier with every field as returned to the caller, up
  to the identifier's canonical form and the precision of the stored timestamp, and no other asset
  is affected.\<close>

theorem create_get_asset:
  assumes "CreateAsset E a s = (Inr a', s')" and "\<not> fault_at E (tick s')"
    and "uuid_text E (a_ID a') = Some i"
  shows "fst (GetAsset E (a_ID a') s') = Inr (a'\<lparr>a_ID := i, a_CreatedAt := ts_store E (a_CreatedAt a')\<rparr>) \<and>
         (\<forall>k. k \<noteq> i \<longrightarrow> select_id a_ID k (assets s') = select_id a_ID k (assets s))"
proof (intro conjI allI impI)
  let ?r = "a'\<lparr>a_ID := i, a_CreatedAt := ts_store E (a_CreatedAt a')\<rparr>"
  have n: "\<not> at.has_key i s"
    and s': "s' = s\<lparr>tick := Suc (tick s), assets := assets s @ [?r]\<rparr>"
    using assms(1,3) at.lookup_None [of i s]
    by (auto simp: CreateAsset_def call_ok Let_def split: option.splits if_splits)
  have l: "select_id a_ID k (assets s') = (if at.has_key k s then select_id a_ID k (assets s) else if i = k then Some ?r else None)" for k
    using at.lookup_insert [of k s ?r] by (simp add: s')
  show "fst (GetAsset E (a_ID a') s') = Inr ?r"
    using assms(2,3) l [of i] n by (simp add: GetAsset_def call_def Let_def)
  show "select_id a_ID k (assets s') = select_id a_ID k (assets s)" if "k \<noteq> i" for k
    using that l [of k] at.lookup_None [of k s] by auto
qed

theorem create_get_asset_witness:
  "fst (GetAsset demo_env ''0'' demo_db) = Inr (demo_asset\<lparr>a_ID := ''0''\<rparr>)"
proof -
  have c: "CreateAsset demo_env demo_asset db_empty = (Inr (demo_asset\<lparr>a_ID := ''0''\<rparr>), demo_db)"
    by (simp add: go_eval Let_def show_nat_0)
  have "\<not> fault_at demo_env (tick demo_db)" "uuid_text demo_env ''0'' = Some ''0''"
    by (simp_all add: go_eval Let_def)
  with create_get_asset [OF c] show ?thesis by (simp add: demo_asset_def demo_env_def)
qed

text \<open>Authorising (or revoking) changes the flag of the addressed asset and nothing else in the database; an
  asset that does not exist is reported as not found, and then nothing changes.\<close>

theorem set_authorization:
  fixes b :: bool
  assumes "\<not> fault_at E (tick s)" and "uuid_text E rid = Some i"
  defines "s' \<equiv> snd (SetAssetAuthorization E rid b s)"
  shows "SetAssetAuthorization E rid b s =
           (if at.has_key i s
            then (Inr (), s\<lparr>tick := Suc (tick s), assets := update_id a_ID i (\<lambda>a. a\<lparr>a_ScanAuthorized := b\<rparr>) (assets s)\<rparr>)
            else (Inl ErrNotFound, s\<lparr>tick := Suc (tick s)\<rparr>)) \<and>
         select_id a_ID k (assets s') =
           (if k = i then map_option (\<lambda>a. a\<lparr>a_ScanAuthorized := b\<rparr>) (select_id a_ID k (assets s))
            else select_id a_ID k (assets s))"
proof (intro conjI)
  show e: "SetAssetAuthorization E rid b s =
     (if at.has_key i s
      then (Inr (), s\<lparr>tick := Suc (tick s), assets := update_id a_ID i (\<lambda>a. a\<lparr>a_ScanAuthorized := b\<rparr>) (assets s)\<rparr>)
      else (Inl ErrNotFound, s\<lparr>tick := Suc (tick s)\<rparr>))"
    using assms at.lookup_None [of i s] by (simp add: SetAssetAuthorization_def call_def Let_def)
  show "select_id a_ID k (assets s') =
           (if k = i then map_option (\<lambda>a. a\<lparr>a_ScanAuthorized := b\<rparr>) (select_id a_ID k (assets s))
            else select_id a_ID k (assets s))"
    using at.lookup_update [of "\<lambda>a. a\<lparr>a_ScanAuthorized := b\<rparr>" k i s] at.lookup_None [of i s]
    unfolding s'_def e by (cases "at.has_key i s"; cases "k = i") simp_all
qed

theorem set_authorization_witness:
  "fst (SetAssetAuthorization demo_env ''0'' True demo_db) = Inr () \<and>
   fst (SetAssetAuthorization demo_env ''1'' True demo_db) = Inl ErrNotFound"
proof -
  have "\<not> fault_at demo_env (tick demo_db)" "uuid_text demo_env x = Some x" for x
    by (simp_all add: go_eval Let_def)
  from set_authorization [OF this] show ?thesis by (simp add: demo_db_val at.has_key_def)
qed

section \<open>Listings\<close>

lemma order_desc_sorted: "sorted_wrt (\<lambda>x y. k y \<le> k x) (order_desc k rs)"
  using sorted_sort_key [of k "rev rs"] by (simp add: order_desc_def sorted_wrt_rev sorted_map)

lemma order_desc_mset [simp]: "mset (order_desc k rs) = mset rs"
  by (simp add: order_desc_def)

lemma order_desc_set [simp]: "set (order_desc k rs) = set rs"
  by (simp add: order_desc_def)

lemma order_desc_stable: "filter (\<lambda>x. k x = v) (order_desc k rs) = filter (\<lambda>x. k x = v) rs"
  by (simp add: order_desc_def rev_filter [symmetric] sort_key_stable)

lemma pages_concat: "concat (map (\<lambda>k. take n (drop (k * n) xs)) [0..<m]) = take (m * n) xs"
proof (induction m)
  case (Suc m)
  then show ?case by (simp add: take_add [of "m * n" n xs] add.commute [of n])
qed simp

text \<open>A listing contains exactly the findings that match the filters, the highest risk first and the newest
  first among equal risks, and the pages that the limit and offset cut it into are disjoint and
  complete: read one after another they give the whole listing.\<close>

theorem findings_listing:
  fixes n :: nat
  assumes "0 < n" and "\<not> fault_at E (tick s)" and "text_ok E aid" and "text_ok E jid"
    and "length (select_findings aid jid s) \<le> m * n"
  defines "page k \<equiv> fst (ListFindings E aid jid (int n) (int (k * n)) s)"
    and "listing \<equiv> select_findings aid jid s"
  shows "fst (ListFindings E aid jid 0 0 s) = Inr listing \<and>
         mset listing =
           mset (filter (\<lambda>f. (aid = [] \<or> f_AssetID f = aid) \<and> (jid = [] \<or> f_ScanJobID f = jid)) (findings s)) \<and>
         sorted_wrt (\<lambda>f g. float8_key (f_RiskScore g) \<le> float8_key (f_RiskScore f)) listing \<and>
         (\<forall>v. sorted_wrt (\<lambda>f g. f_CreatedAt g \<le> f_CreatedAt f)
                (filter (\<lambda>f. float8_key (f_RiskScore f) = v) listing)) \<and>
         (\<exists>pages. map page [0..<m] = map Inr pages \<and> concat pages = listing)"
proof (intro conjI allI)
  show "fst (ListFindings E aid jid 0 0 s) = Inr listing"
    using assms(2-4) by (simp add: ListFindings_def call_def Let_def select_findings_def listing_def)
  show "mset listing =
      mset (filter (\<lambda>f. (aid = [] \<or> f_AssetID f = aid) \<and> (jid = [] \<or> f_ScanJobID f = jid)) (findings s))"
    unfolding listing_def select_findings_def order_desc_mset ..
  show "sorted_wrt (\<lambda>f g. float8_key (f_RiskScore g) \<le> float8_key (f_RiskScore f)) listing"
    unfolding listing_def select_findings_def by (rule order_desc_sorted)
  show "sorted_wrt (\<lambda>f g. f_CreatedAt g \<le> f_CreatedAt f)
           (filter (\<lambda>f. float8_key (f_RiskScore f) = v) listing)" for v
    unfolding listing_def select_findings_def order_desc_stable by (intro sorted_wrt_filter order_desc_sorted)
  have pos: "\<not> int (k * n) < 0" "nat (int (k * n)) = k * n" for k by linarith+
  have "page k = Inr (take n (drop (k * n) listing))" for k
    using assms(1-4) pos [of k] unfolding page_def listing_def ListFindings_def call_def Let_def
    by (simp add: select_findings_def del: of_nat_mult)
  then have "map page [0..<m] = map Inr (map (\<lambda>k. take n (drop (k * n) listing)) [0..<m])" by simp
  moreover have "concat (map (\<lambda>k. take n (drop (k * n) listing)) [0..<m]) = listing"
    using assms(5) by (simp add: pages_concat listing_def)
  ultimately show "\<exists>pages. map page [0..<m] = map Inr pages \<and> concat pages = listing" by blast
qed

theorem findings_listing_witness:
  "fst (ListFindings demo_env [] [] 0 0 demo_db) = Inr (select_findings [] [] demo_db)"
proof -
  have e: "\<not> fault_at demo_env (tick demo_db)" "text_ok demo_env []"
    by (simp_all add: demo_db_val) (simp_all add: demo_env_def)
  have "length (select_findings [] [] demo_db) \<le> 1 * 1"
    by (simp add: select_findings_def order_desc_def demo_db_val db_empty_def)
  from findings_listing [OF _ e(1) e(2) e(2) this] show ?thesis by simp
qed

section \<open>Jobs and statuses\<close>

text \<open>Marking a job running, completed or failed changes that job's status and its bookkeeping (start time,
  end time, error text, mock flag) and no other job; marking an identifier that no job has
  succeeds and changes nothing.\<close>

theorem mark_job:
  fixes k :: string
  assumes "\<not> fault_at E (tick s)" and "uuid_text E rid = Some i" and "text_ok E msg"
  defines "now \<equiv> Some (ts_store E (now_at E (tick s)))"
    and "job s' \<equiv> select_id j_ID k (scan_jobs s')"
    and "on f \<equiv> (if k = i then map_option f (select_id j_ID k (scan_jobs s)) else select_id j_ID k (scan_jobs s))"
  shows "job (snd (MarkRunning E rid s)) = on (\<lambda>j. j\<lparr>j_Status := StatusRunning, j_StartedAt := now\<rparr>) \<and>
         job (snd (MarkCompleted E rid b s)) =
           on (\<lambda>j. j\<lparr>j_Status := StatusCompleted, j_FinishedAt := now, j_UsedMock := b\<rparr>) \<and>
         job (snd (MarkFailed E rid msg s)) =
           on (\<lambda>j. j\<lparr>j_Status := StatusFailed, j_FinishedAt := now, j_Error := msg\<rparr>) \<and>
         map fst [MarkRunning E rid s, MarkCompleted E rid b s, MarkFailed E rid msg s] = [Inr (), Inr (), Inr ()]"
proof -
  have u: "update_job E rid f s =
      (Inr (), s\<lparr>tick := Suc (tick s), scan_jobs := update_id j_ID i (f (tick s)) (scan_jobs s)\<rparr>)" for f
    using assms(1,2) by (simp add: update_job_def call_def Let_def)
  show ?thesis
    using assms(3) by (simp add: MarkRunning_def MarkCompleted_def MarkFailed_def u job_def on_def now_def
        select_update_id)
qed

theorem mark_job_witness: "fst (MarkRunning demo_env ''9'' demo_db) = Inr ()"
proof -
  have e: "\<not> fault_at demo_env (tick demo_db)" "uuid_text demo_env ''9'' = Some ''9''" "text_ok demo_env []"
    by (simp_all add: demo_db_val) (simp_all add: demo_env_def)
  from mark_job [OF e] show ?thesis by simp
qed

text \<open>A finding's status changes only to one of the four known ones: any other value is refused by the
  schema, an unknown finding is reported as not found, and on success exactly the status of the
  addressed finding differs.\<close>

theorem update_finding_status:
  assumes "\<not> fault_at E (tick s)" and "uuid_text E rid = Some i" and "text_ok E status"
  defines "r \<equiv> fst (UpdateFindingStatus E rid status s)" and "s' \<equiv> snd (UpdateFindingStatus E rid status s)"
  shows "(r = Inl ErrNotFound \<longleftrightarrow> \<not> ft.has_key i s) \<and>
         (r = Inr () \<longleftrightarrow> ft.has_key i s \<and>
            status \<in> {FindingOpen, FindingValidated, FindingFalsePositive, FindingRemediated}) \<and>
         (if r = Inr () then
            select_id f_ID k (findings s') =
              (if k = i then map_option (\<lambda>f. f\<lparr>f_Status := status\<rparr>) (select_id f_ID k (findings s))
               else select_id f_ID k (findings s))
          else s' = s\<lparr>tick := Suc (tick s)\<rparr>)"
proof -
  let ?ok = "status \<in> {FindingOpen, FindingValidated, FindingFalsePositive, FindingRemediated}"
  let ?t = "s\<lparr>tick := Suc (tick s)\<rparr>"
  have e: "UpdateFindingStatus E rid status s =
      (if \<not> ft.has_key i s then (Inl ErrNotFound, ?t) else if \<not> ?ok then (Inl DBError, ?t)
       else (Inr (), ?t\<lparr>findings := update_id f_ID i (\<lambda>f. f\<lparr>f_Status := status\<rparr>) (findings s)\<rparr>))"
    using assms(1-3) ft.lookup_None [of i s] unfolding UpdateFindingStatus_def call_def Let_def by simp
  show ?thesis
    using ft.lookup_update [of "\<lambda>f. f\<lparr>f_Status := status\<rparr>" k i s]
    unfolding r_def s'_def e by (cases "ft.has_key i s"; cases ?ok) simp_all
qed

theorem update_finding_status_witness: "fst (UpdateFindingStatus demo_env ''9'' ''open'' demo_db) = Inl ErrNotFound"
proof -
  have e: "\<not> fault_at demo_env (tick demo_db)" "uuid_text demo_env ''9'' = Some ''9''" "text_ok demo_env ''open''"
    by (simp_all add: demo_db_val) (simp_all add: demo_env_def)
  have "\<not> ft.has_key ''9'' demo_db" by (simp add: ft.has_key_def demo_db_val db_empty_def)
  with update_finding_status [OF e] show ?thesis by blast
qed

section \<open>The stored audit log\<close>

lemma audit_read:
  assumes "log_ordered s" and "\<not> fault_at E (tick s)"
  shows "fst (AllAuditForVerify E s) = Inr (audit_log s)"
proof -
  have "sorted (map e_Seq (audit_log s))"
    using assms(1) by (auto simp: log_ordered_def strict_sorted_iff)
  then show ?thesis using assms(2) by (simp add: AllAuditForVerify_def call_def Let_def sort_key_id_if_sorted)
qed

text \<open>The row an append adds.\<close>

definition audit_row :: "env \<Rightarrow> AuditEntry \<Rightarrow> db \<Rightarrow> AuditEntry" where
  "audit_row E e s =
     (seal (head_hash (audit_log s)) (e\<lparr>e_Seq := audit_next s, e_TS := now_at E (tick s)\<rparr>))
       \<lparr>e_TS := ts_store E (now_at E (tick s))\<rparr>"

lemma AppendAudit_row:
  assumes "\<not> fault_at E (tick s)" and "audit_check E e"
  shows "snd (AppendAudit E e s) =
           s\<lparr>tick := Suc (tick s), audit_log := audit_log s @ [audit_row E e s], audit_next := audit_next s + 1\<rparr>"
  using assms by (simp add: AppendAudit_def call_def Let_def audit_row_def head_hash_def seal_def audit_check_def
      Hash_def Canonical_def)

lemma log_ordered_append:
  "db_inv E s \<Longrightarrow> log_ordered (snd (AppendAudit E e s))"
  using AppendAudit_inv by (simp add: db_inv_def)

text \<open>C19: An appended entry extends the chain: if the log verified and the instant survives the precision of the
  timestamp column, the log read back after the append is the old one with the new entry at its
  end, and it verifies.\<close>

theorem append_keeps_chain:
  assumes "db_inv E s" and "VerifyChain (audit_log s) = (True, 0)"
    and "\<not> fault_at E (tick s)" and "\<not> fault_at E (Suc (tick s))" and "audit_check E e"
    and "ts_store E (now_at E (tick s)) = now_at E (tick s)"
  shows "\<exists>e'. fst (AllAuditForVerify E (snd (AppendAudit E e s))) = Inr (audit_log s @ [e']) \<and>
              content e' = content (e\<lparr>e_TS := now_at E (tick s)\<rparr>) \<and>
              VerifyChain (audit_log s @ [e']) = (True, 0)"
proof (intro exI conjI)
  let ?r = "audit_row E e s"
  show "fst (AllAuditForVerify E (snd (AppendAudit E e s))) = Inr (audit_log s @ [?r])"
    using audit_read [OF log_ordered_append [OF assms(1)], of E e] assms(3-5) by (simp add: AppendAudit_row)
  show "content ?r = content (e\<lparr>e_TS := now_at E (tick s)\<rparr>)"
    by (simp add: audit_row_def seal_def content_def assms(6))
  have "link_ok (audit_log s @ [?r]) (length (audit_log s))"
    using assms(6) by (simp add: link_ok_def audit_row_def seal_def head_hash_def nth_append last_conv_nth
        Hash_def Canonical_def)
  moreover have "\<forall>i < length (audit_log s). link_ok (audit_log s) i"
    using assms(2) chained_link_ok [of "length (audit_log s)" "audit_log s"]
    by (simp add: VerifyChain_def verify_from_ok)
  ultimately have "\<forall>i < Suc (length (audit_log s)). link_ok (audit_log s @ [?r]) i"
    by (auto simp: less_Suc_eq link_ok_def nth_append)
  then show "VerifyChain (audit_log s @ [?r]) = (True, 0)"
    using chained_link_ok [of "Suc (length (audit_log s))" "audit_log s @ [?r]"]
    by (simp add: VerifyChain_def verify_from_ok)
qed

text \<open>A first entry, with a clock of whole seconds and with one that is a nanosecond off.\<close>

definition demo_entry :: AuditEntry where
  "demo_entry = entry_at 0 ''ops'' ''/api/v1/assets''"

definition nano_env :: env where
  "nano_env = demo_env\<lparr>now_at := (\<lambda>n. int n * Second + 1)\<rparr>"

lemma demo_audit:
  "db_inv E db_empty" "VerifyChain (audit_log db_empty) = (True, 0)" "tick db_empty = 0"
  "audit_check demo_env demo_entry" "audit_check nano_env demo_entry" "plain demo_entry"
  by (simp_all add: db_empty_inv) (simp_all add: db_empty_def VerifyChain_def demo_entry_def entry_at_plain,
      simp_all add: entry_at_def audit_check_def nano_env_def demo_env_def)

theorem append_keeps_chain_witness:
  "\<exists>e'. fst (AllAuditForVerify demo_env (snd (AppendAudit demo_env demo_entry db_empty))) = Inr [e'] \<and>
        VerifyChain [e'] = (True, 0)"
proof -
  have "\<not> fault_at demo_env (tick db_empty)" "\<not> fault_at demo_env (Suc (tick db_empty))"
    "ts_store demo_env (now_at demo_env (tick db_empty)) = now_at demo_env (tick db_empty)"
    by (simp_all add: demo_env_def demo_audit)
  from append_keeps_chain [OF demo_audit(1,2) this(1,2) demo_audit(4) this(3)] show ?thesis
    by (auto simp: db_empty_def)
qed

text \<open>C21: The hash is computed over the clock's nanoseconds but the column keeps fewer digits: when the stored
  instant differs from the hashed one, the log written by the code itself does not verify, without
  anybody having tampered with it, unless the two texts are a SHA-256 collision.\<close>

theorem truncated_timestamp_breaks_chain:
  assumes "db_inv E s" and "VerifyChain (audit_log s) = (True, 0)"
    and "\<not> fault_at E (tick s)" and "\<not> fault_at E (Suc (tick s))" and "audit_check E e" and "plain e"
    and "ts_store E (now_at E (tick s)) \<noteq> now_at E (tick s)"
  defines "written \<equiv> e\<lparr>e_TS := now_at E (tick s)\<rparr>" and "kept \<equiv> e\<lparr>e_TS := ts_store E (now_at E (tick s))\<rparr>"
    and "p \<equiv> head_hash (audit_log s)"
  shows "\<exists>es. fst (AllAuditForVerify E (snd (AppendAudit E e s))) = Inr es \<and>
              (VerifyChain es = (False, audit_next s) \<or> sha_collision (Canonical p written) (Canonical p kept))"
proof (intro exI conjI)
  let ?r = "audit_row E e s" and ?es = "audit_log s @ [audit_row E e s]"
  show "fst (AllAuditForVerify E (snd (AppendAudit E e s))) = Inr ?es"
    using audit_read [OF log_ordered_append [OF assms(1)], of E e] assms(3-5) by (simp add: AppendAudit_row)
  have c: "audit.chained GenesisHash (audit_log s)"
    using assms(2) by (simp add: VerifyChain_def verify_from_ok)
  have "p \<in> insert GenesisHash (range sha256_hex)"
    using audit.head_range [OF c] by (simp add: p_def head_head_hash)
  then have "Canonical p written \<noteq> Canonical p kept"
    using assms(6,7) hash_no_bar [of p] Canonical_content [of p written kept]
    by (simp add: plain_def content_def written_def kept_def)
  then consider (a) "Hash p written \<noteq> Hash p kept" | (b) "sha_collision (Canonical p written) (Canonical p kept)"
    by (auto simp: sha_collision_def Hash_def)
  then show "VerifyChain ?es = (False, audit_next s) \<or> sha_collision (Canonical p written) (Canonical p kept)"
  proof cases
    case a
    have "Hash (e_PrevHash ?r) ?r = Hash p kept" "e_Hash ?r = Hash p written"
      by (simp_all add: audit_row_def seal_def p_def kept_def written_def Hash_def Canonical_def)
    with a have "\<not> link_ok ?es (length (audit_log s))" by (simp add: link_ok_def)
    then have "\<not> audit.chained GenesisHash (take (Suc (length (audit_log s))) ?es)"
      using chained_link_ok [of "Suc (length (audit_log s))" ?es] by auto
    moreover have "e_Seq ?r = audit_next s" by (simp add: audit_row_def seal_def)
    ultimately have "VerifyChain ?es = (False, audit_next s)"
      unfolding VerifyChain_def verify_from_broken using c by (intro exI [of _ "length (audit_log s)"]) simp
    then show ?thesis ..
  qed simp
qed

theorem truncated_timestamp_breaks_chain_witness:
  "\<exists>es. fst (AllAuditForVerify nano_env (snd (AppendAudit nano_env demo_entry db_empty))) = Inr es \<and>
        (VerifyChain es = (False, 1) \<or>
         sha_collision (Canonical GenesisHash (demo_entry\<lparr>e_TS := 1\<rparr>)) (Canonical GenesisHash (demo_entry\<lparr>e_TS := 0\<rparr>)))"
proof -
  have e: "\<not> fault_at nano_env (tick db_empty)" "\<not> fault_at nano_env (Suc (tick db_empty))"
    "now_at nano_env (tick db_empty) = 1" "ts_store nano_env 1 = 0"
    by (simp_all add: nano_env_def demo_env_def demo_audit)
  then have "ts_store nano_env (now_at nano_env (tick db_empty)) \<noteq> now_at nano_env (tick db_empty)" by simp
  from truncated_timestamp_breaks_chain [OF demo_audit(1,2) e(1,2) demo_audit(5,6) this] show ?thesis
    unfolding e(3,4) by (simp add: db_empty_def head_hash_def)
qed

end
