(* ===== verification/Go_Http.thy ===== *)
theory Go_Http
  imports Go_Strings Go_Time
begin

text \<open>
  The part of \<open>net/http\<close> the server uses: a request, a response writer, and handlers.  A handler gets
  the request, the writer and the rest of the program's state, and returns the last two; a
  middleware is a function on handlers, as in the code.  The request carries the one context value
  the program stores, of type \<open>'c\<close>; header names are in canonical form, as the server parses them.
\<close>

record 'c Request =
  r_method :: string
  r_path :: string
  r_query :: "(string \<times> string) list"
  r_headers :: "(string \<times> string) list"
  r_remote :: string
  r_body :: string
  r_limit :: "int option"
  r_ctx :: "'c option"

text \<open>
  A middleware may wrap the writer to record the status a handler sets; \<open>w_recs\<close> holds what the wrappers
  around the connection have recorded, the innermost first.
\<close>

record Writer =
  w_headers :: "(string \<times> string) list"
  w_code :: "int option"
  w_body :: string
  w_recs :: "int list"

type_synonym ('c, 's) handler = "'c Request \<Rightarrow> Writer \<times> 's \<Rightarrow> Writer \<times> 's"

definition new_writer :: Writer where
  "new_writer = \<lparr>w_headers = [], w_code = None, w_body = [], w_recs = []\<rparr>"

abbreviation MethodOptions :: string where "MethodOptions \<equiv> ''OPTIONS''"
abbreviation MethodGet :: string where "MethodGet \<equiv> ''GET''"
abbreviation MethodPost :: string where "MethodPost \<equiv> ''POST''"
abbreviation MethodPatch :: string where "MethodPatch \<equiv> ''PATCH''"
abbreviation MethodPut :: string where "MethodPut \<equiv> ''PUT''"
abbreviation MethodDelete :: string where "MethodDelete \<equiv> ''DELETE''"

text \<open>\<open>Header.Get\<close> and \<open>Query().Get\<close>: the first value, or the empty string.\<close>

definition get_first :: "(string \<times> string) list \<Rightarrow> string \<Rightarrow> string" where
  "get_first kvs k = (case map_of kvs k of None \<Rightarrow> [] | Some v \<Rightarrow> v)"

text \<open>Headers are sent with the first status; changing them later has no effect.\<close>

definition header_set :: "string \<Rightarrow> string \<Rightarrow> Writer \<Rightarrow> Writer" where
  "header_set k v w =
     (if w_code w = None then w\<lparr>w_headers := filter (\<lambda>(k', _). k' \<noteq> k) (w_headers w) @ [(k, v)]\<rparr> else w)"

definition header_add :: "string \<Rightarrow> string \<Rightarrow> Writer \<Rightarrow> Writer" where
  "header_add k v w = (if w_code w = None then w\<lparr>w_headers := w_headers w @ [(k, v)]\<rparr> else w)"

definition send_header :: "int \<Rightarrow> Writer \<Rightarrow> Writer" where
  "send_header c w = (if w_code w = None then w\<lparr>w_code := Some c\<rparr> else w)"

text \<open>\<open>WriteHeader\<close> passes through the wrappers; the status that a first write implies does not.\<close>

definition write_header :: "int \<Rightarrow> Writer \<Rightarrow> Writer" where
  "write_header c w = send_header c (w\<lparr>w_recs := map (\<lambda>_. c) (w_recs w)\<rparr>)"

definition write_body :: "string \<Rightarrow> Writer \<Rightarrow> Writer" where
  "write_body b w = (let w = send_header 200 w in w\<lparr>w_body := w_body w @ b\<rparr>)"

lemmas writer_defs = header_set_def header_add_def send_header_def write_header_def write_body_def Let_def

text \<open>What the server sends when no handler wrote a status: 200.\<close>

definition status_of :: "Writer \<Rightarrow> int" where
  "status_of w = (case w_code w of None \<Rightarrow> 200 | Some c \<Rightarrow> c)"

text \<open>\<open>net.SplitHostPort\<close>, for addresses as the server reports them: the last colon separates the
  port, and a host with colons is in brackets.\<close>

definition last_colon :: "string \<Rightarrow> (string \<times> string) option" where
  "last_colon s =
     (let r = rev s; p = takeWhile (\<lambda>c. c \<noteq> CHR '':'') r
      in if length p = length r then None else Some (rev (drop (Suc (length p)) r), rev p))"

definition bracket_free :: "string \<Rightarrow> bool" where
  "bracket_free s \<longleftrightarrow> CHR ''['' \<notin> set s \<and> CHR '']'' \<notin> set s"

definition split_host_port :: "string \<Rightarrow> (string \<times> string) option" where
  "split_host_port s =
     (case last_colon s of
        None \<Rightarrow> None
      | Some (h, p) \<Rightarrow>
          if take 1 h = ''['' then
            (if 2 \<le> length h \<and> last h = CHR '']'' \<and> bracket_free (butlast (tl h)) \<and> bracket_free p
             then Some (butlast (tl h), p) else None)
          else if CHR '':'' \<in> set h \<or> \<not> bracket_free h \<or> \<not> bracket_free p then None
          else Some (h, p))"

lemma split_host_port_plain:
  assumes "CHR '':'' \<notin> set h" and "CHR '':'' \<notin> set p" and "bracket_free h" and "bracket_free p"
  shows "split_host_port (h @ '':'' @ p) = Some (h, p)"
proof -
  have "takeWhile (\<lambda>c. c \<noteq> CHR '':'') (rev p @ CHR '':'' # rev h) = rev p"
    using assms(2) by (induction p rule: rev_induct) (auto simp: takeWhile_append2)
  then have "last_colon (h @ '':'' @ p) = Some (h, p)" by (simp add: last_colon_def Let_def)
  moreover have "take 1 h \<noteq> ''[''" using assms(3) by (cases h) (auto simp: bracket_free_def)
  ultimately show ?thesis using assms by (simp add: split_host_port_def)
qed

end
