(* ===== verification/Auth.thy ===== *)
theory Auth
  imports Amankan_Prelude Go_Http
begin

text \<open>
  \<open>internal/auth/auth.go\<close>: roles, the API-key table, and the two middlewares every route goes
  through.  What any authentication strategy promises the router is the locale \<open>auth_provider\<close> (the
  interface \<open>Provider\<close> of the code); it is interpreted here for the API keys and in \<open>Oidc\<close> for
  tokens.
\<close>

datatype Role = RoleNone | RoleViewer | RoleAnalyst | RoleAdmin

text \<open>The integer values of the constants order the roles.\<close>

fun role_rank :: "Role \<Rightarrow> nat" where
  "role_rank RoleNone = 0"
| "role_rank RoleViewer = 1"
| "role_rank RoleAnalyst = 2"
| "role_rank RoleAdmin = 3"

lemma role_rank_inject [simp]: "role_rank r = role_rank q \<longleftrightarrow> r = q"
  by (cases r; cases q) simp_all

instantiation Role :: linorder
begin

definition less_eq_Role :: "Role \<Rightarrow> Role \<Rightarrow> bool" where
  "less_eq_Role r q \<longleftrightarrow> role_rank r \<le> role_rank q"

definition less_Role :: "Role \<Rightarrow> Role \<Rightarrow> bool" where
  "less_Role r q \<longleftrightarrow> role_rank r < role_rank q"

instance
  by standard (auto simp: less_eq_Role_def less_Role_def)

end

lemma role_order [simp]:
  "RoleNone \<le> r" "RoleViewer \<le> RoleViewer" "RoleViewer \<le> RoleAnalyst" "RoleViewer \<le> RoleAdmin"
  "RoleAnalyst \<le> RoleAdmin" "r \<le> RoleAdmin" "\<not> RoleAnalyst \<le> RoleViewer" "\<not> RoleAdmin \<le> RoleViewer"
  "\<not> RoleAdmin \<le> RoleAnalyst" "\<not> RoleViewer \<le> RoleNone" "\<not> RoleAnalyst \<le> RoleNone" "\<not> RoleAdmin \<le> RoleNone"
  by (cases r; simp add: less_eq_Role_def)+

definition role_string :: "Role \<Rightarrow> string" where
  "role_string r =
     (case r of RoleViewer \<Rightarrow> ''viewer'' | RoleAnalyst \<Rightarrow> ''analyst'' | RoleAdmin \<Rightarrow> ''admin'' | _ \<Rightarrow> ''none'')"

definition ParseRole :: "string \<Rightarrow> Role" where
  "ParseRole s =
     (let n = to_lower (trim_space s)
      in if n = ''viewer'' then RoleViewer
         else if n = ''analyst'' then RoleAnalyst
         else if n = ''admin'' then RoleAdmin
         else RoleNone)"

record Principal =
  p_ID :: string
  p_Role :: Role

type_synonym request = "Principal Request"

text \<open>The principal on the request's context, and the one the audit trail and the logs show.\<close>

definition principalFrom :: "request \<Rightarrow> Principal option" where
  "principalFrom r = r_ctx r"

definition PrincipalFromRequest :: "request \<Rightarrow> Principal" where
  "PrincipalFromRequest r =
     (case principalFrom r of Some p \<Rightarrow> p | None \<Rightarrow> \<lparr>p_ID = ''anonymous'', p_Role = RoleAdmin\<rparr>)"

section \<open>API keys\<close>

record Authenticator =
  keys :: "(string \<times> Principal) list"
  enabled :: bool

definition keys_disabled_warning :: string where
  "keys_disabled_warning =
     ''AMANKAN_API_KEYS not set '' @ [CHR 0xE2, CHR 0x80, CHR 0x94]
       @ '' API authentication is DISABLED (open access)''"

text \<open>One entry of the specification: the loop body of \<open>ParseKeys\<close>.\<close>

definition parse_key_entry ::
  "string \<Rightarrow> (string \<times> Principal) list \<times> string list \<Rightarrow> (string \<times> Principal) list \<times> string list" where
  "parse_key_entry entry st =
     (let (ks, warnings) = st; entry = trim_space entry
      in if entry = [] then (ks, warnings)
         else (case split_n 3 (CHR '':'') entry of
             [l, s, roleName] \<Rightarrow>
               let label = trim_space l; secret = trim_space s; role = ParseRole roleName
               in if secret = [] \<or> role = RoleNone
                  then (ks, warnings @ [''ignored API key with empty secret or invalid role: '' @ label])
                  else (AList.update secret \<lparr>p_ID = label, p_Role = role\<rparr> ks, warnings)
           | _ \<Rightarrow> (ks, warnings @ [''ignored malformed API key entry (want label:secret:role)''])))"

definition ParseKeys :: "string \<Rightarrow> Authenticator \<times> string list" where
  "ParseKeys spec =
     (let spec = trim_space spec
      in if spec = [] then (\<lparr>keys = [], enabled = False\<rparr>, [keys_disabled_warning])
         else let (ks, warnings) = fold parse_key_entry (split_on (CHR '','') spec) ([], [])
              in (\<lparr>keys = ks, enabled = length ks > 0\<rparr>, warnings))"

text \<open>Every key is compared, whatever matched before; \<open>ConstantTimeCompare\<close> is equality of bytes.\<close>

definition lookup_key :: "Authenticator \<Rightarrow> string \<Rightarrow> Principal option" where
  "lookup_key a secret = fold (\<lambda>(k, p) found. if k = secret then Some p else found) (keys a) None"

definition bearer :: "request \<Rightarrow> string" where
  "bearer r =
     (let h = get_first (r_headers r) ''Authorization''
      in if has_prefix h ''Bearer '' then trim_space (trim_prefix h ''Bearer '')
         else trim_space (get_first (r_headers r) ''X-Api-Key''))"

text \<open>A JSON string literal; only quotes and backslashes are escaped.\<close>

definition quote :: "string \<Rightarrow> string" where
  "quote s =
     ''\"'' @ concat (map (\<lambda>c. if c = CHR 0x22 \<or> c = CHR 0x5C then [CHR 0x5C, c] else [c]) s) @ ''\"''"

definition writeError :: "int \<Rightarrow> string \<Rightarrow> Writer \<Rightarrow> Writer" where
  "writeError status msg w =
     write_body (''{\"error\":'' @ quote msg @ ''}'')
       (write_header status (header_set ''Content-Type'' ''application/json'' w))"

definition Authenticate :: "Authenticator \<Rightarrow> (Principal, 's) handler \<Rightarrow> (Principal, 's) handler" where
  "Authenticate a next_h r ws =
     (if \<not> enabled a then next_h r ws
      else if r_method r = MethodOptions then next_h r ws
      else (case lookup_key a (bearer r) of
              None \<Rightarrow> (writeError 401 ''missing or invalid API key'' (fst ws), snd ws)
            | Some p \<Rightarrow> next_h (r\<lparr>r_ctx := Some p\<rparr>) ws))"

definition Require :: "Authenticator \<Rightarrow> Role \<Rightarrow> (Principal, 's) handler \<Rightarrow> (Principal, 's) handler" where
  "Require a min_role next_h r ws =
     (if \<not> enabled a \<or> r_method r = MethodOptions then next_h r ws
      else (case principalFrom r of
              None \<Rightarrow> (writeError 401 ''authentication required'' (fst ws), snd ws)
            | Some p \<Rightarrow>
                if p_Role p < min_role
                then (writeError 403 (''insufficient role: '' @ role_string min_role @ '' required'') (fst ws), snd ws)
                else next_h r ws))"

section \<open>Providers\<close>

text \<open>
  What the router relies on.  \<open>resolve\<close> is how the strategy turns a request into a principal; it may
  change state of its own (a key cache), which \<open>core\<close> leaves out.
\<close>

locale auth_provider =
  fixes authn :: "(Principal, 's) handler \<Rightarrow> (Principal, 's) handler"
    and req :: "Role \<Rightarrow> (Principal, 's) handler \<Rightarrow> (Principal, 's) handler"
    and enforced :: bool
    and resolve :: "request \<Rightarrow> 's \<Rightarrow> (string + Principal) \<times> 's"
    and core :: "'s \<Rightarrow> 'w"
  assumes authn_open: "\<not> enforced \<or> r_method r = MethodOptions \<Longrightarrow> authn h r ws = h r ws"
    and authn_ok: "enforced \<Longrightarrow> r_method r \<noteq> MethodOptions \<Longrightarrow> resolve r s = (Inr p, s') \<Longrightarrow>
      authn h r (w, s) = h (r\<lparr>r_ctx := Some p\<rparr>) (w, s')"
    and authn_fail: "enforced \<Longrightarrow> r_method r \<noteq> MethodOptions \<Longrightarrow> resolve r s = (Inl e, s') \<Longrightarrow>
      authn h r (w, s) = (writeError 401 e w, s')"
    and req_open: "\<not> enforced \<or> r_method r = MethodOptions \<Longrightarrow> req m h r ws = h r ws"
    and req_some: "enforced \<Longrightarrow> r_method r \<noteq> MethodOptions \<Longrightarrow> r_ctx r = Some p \<Longrightarrow>
      req m h r ws =
        (if p_Role p < m then (writeError 403 (''insufficient role: '' @ role_string m @ '' required'') (fst ws), snd ws)
         else h r ws)"
    and req_none: "enforced \<Longrightarrow> r_method r \<noteq> MethodOptions \<Longrightarrow> r_ctx r = None \<Longrightarrow>
      req m h r ws = (writeError 401 ''authentication required'' (fst ws), snd ws)"
    and resolve_core: "core (snd (resolve r s)) = core s"
begin

lemma guarded:
  assumes "enforced" and "r_method r \<noteq> MethodOptions"
  shows "authn (req m h) r (w, s) =
    (case resolve r s of
       (Inl e, s') \<Rightarrow> (writeError 401 e w, s')
     | (Inr p, s') \<Rightarrow>
         if m \<le> p_Role p then h (r\<lparr>r_ctx := Some p\<rparr>) (w, s')
         else (writeError 403 (''insufficient role: '' @ role_string m @ '' required'') w, s'))"
proof -
  obtain x s' where r: "resolve r s = (x, s')" by (cases "resolve r s")
  show ?thesis
  proof (cases x)
    case (Inl e)
    then show ?thesis using assms r authn_fail [OF assms] by simp
  next
    case (Inr p)
    then show ?thesis using assms r authn_ok [OF assms] req_some [OF assms(1), of "r\<lparr>r_ctx := Some p\<rparr>" p m]
      by (auto simp: not_le)
  qed
qed

text \<open>A refused request changes nothing but the provider's own state.\<close>

lemma refused_core:
  assumes "enforced" and "r_method r \<noteq> MethodOptions"
    and "\<And>p. fst (resolve r s) = Inr p \<Longrightarrow> p_Role p < m"
  shows "core (snd (authn (req m h) r (w, s))) = core s"
    and "w_code w = None \<Longrightarrow> status_of (fst (authn (req m h) r (w, s))) \<in> {401, 403}"
proof -
  obtain x s' where r: "resolve r s = (x, s')" by (cases "resolve r s")
  have c: "core s' = core s" using resolve_core [of r s] r by simp
  have "authn (req m h) r (w, s) = (writeError 401 e w, s') \<or> (\<exists>msg. authn (req m h) r (w, s) = (writeError 403 msg w, s'))"
    if "x = Inl e" for e using guarded [OF assms(1,2)] r that by simp
  moreover have "\<exists>msg. authn (req m h) r (w, s) = (writeError 403 msg w, s')" if "x = Inr p" for p
    using guarded [OF assms(1,2)] r that assms(3) [of p]
    by (simp add: not_le [symmetric]) blast
  ultimately obtain msg where "authn (req m h) r (w, s) = (writeError 401 msg w, s') \<or>
      authn (req m h) r (w, s) = (writeError 403 msg w, s')"
    by (cases x) blast+
  then show "core (snd (authn (req m h) r (w, s))) = core s"
    "w_code w = None \<Longrightarrow> status_of (fst (authn (req m h) r (w, s))) \<in> {401, 403}"
    using c by (auto simp: writeError_def writer_defs status_of_def)
qed

end

definition key_resolve :: "Authenticator \<Rightarrow> request \<Rightarrow> 's \<Rightarrow> (string + Principal) \<times> 's" where
  "key_resolve a r s =
     (case lookup_key a (bearer r) of None \<Rightarrow> (Inl ''missing or invalid API key'', s) | Some p \<Rightarrow> (Inr p, s))"

interpretation api_keys: auth_provider "Authenticate a" "Require a" "enabled a" "key_resolve a" id
  for a :: Authenticator
  by unfold_locales
    (auto simp: Authenticate_def Require_def key_resolve_def principalFrom_def split: option.splits)

section \<open>The key table\<close>

lemma lookup_fold:
  "distinct (map fst ks) \<Longrightarrow>
   fold (\<lambda>(k, p) found. if k = secret then Some p else found) ks found =
     (case map_of ks secret of None \<Rightarrow> found | Some p \<Rightarrow> Some p)"
  by (induction ks arbitrary: found) (auto split: option.splits dest: map_of_SomeD simp: rev_image_eqI)

lemma lookup_key_map: "distinct (map fst (keys a)) \<Longrightarrow> lookup_key a secret = map_of (keys a) secret"
  by (simp add: lookup_key_def lookup_fold split: option.split)

text \<open>What one entry contributes, read off the text.\<close>

definition key_entry :: "string \<Rightarrow> (string \<times> Principal) option" where
  "key_entry entry =
     (case split_n 3 (CHR '':'') (trim_space entry) of
        [l, s, roleName] \<Rightarrow>
          if trim_space s = [] \<or> ParseRole roleName = RoleNone then None
          else Some (trim_space s, \<lparr>p_ID = trim_space l, p_Role = ParseRole roleName\<rparr>)
      | _ \<Rightarrow> None)"

lemma split_n_Nil: "split_n 3 c [] = [[]]"
  by (simp add: numeral_3_eq_3)

lemma parse_key_entry_keys:
  "fst (parse_key_entry entry (ks, ws)) =
     (case key_entry entry of None \<Rightarrow> ks | Some (k, p) \<Rightarrow> AList.update k p ks)"
  by (auto simp: parse_key_entry_def key_entry_def Let_def split_n_Nil split: list.splits)

lemma parse_keys_fold:
  "fst (fold parse_key_entry es st) =
     fold (\<lambda>(k, p) ks. AList.update k p ks) (List.map_filter key_entry es) (fst st)"
  by (induction es arbitrary: st)
    (auto simp: parse_key_entry_keys map_filter_simps prod.case_eq_if split: option.splits)

lemma fold_update_map_of:
  "map_of (fold (\<lambda>(k, p) ks. AList.update k p ks) es ks) = map_of ks ++ map_of (rev es)"
  by (induction es arbitrary: ks) (auto simp: map_add_def fun_eq_iff split: option.split)

lemma fold_update_distinct:
  "distinct (map fst ks) \<Longrightarrow> distinct (map fst (fold (\<lambda>(k, p) ks. AList.update k p ks) es ks))"
  by (induction es arbitrary: ks) (auto intro: distinct_update)

lemma fold_update_Nil: "fold (\<lambda>(k, p) ks. AList.update k p ks) es [] = [] \<longleftrightarrow> es = []"
proof -
  have "map_of (fold (\<lambda>(k, p) ks. AList.update k p ks) es []) = map_of (rev es)"
    by (simp add: fold_update_map_of)
  then show ?thesis by (cases es rule: rev_exhaust) (auto simp: fun_eq_iff split: if_splits)
qed

definition key_entries :: "string \<Rightarrow> (string \<times> Principal) list" where
  "key_entries spec = List.map_filter key_entry (split_on (CHR '','') (trim_space spec))"

lemma ParseKeys_keys: "keys (fst (ParseKeys spec)) = fold (\<lambda>(k, p) ks. AList.update k p ks) (key_entries spec) []"
proof (cases "trim_space spec = []")
  case True
  then show ?thesis
    by (simp add: ParseKeys_def key_entries_def key_entry_def split_n_Nil map_filter_simps)
next
  case False
  then show ?thesis
    using parse_keys_fold [of "split_on (CHR '','') (trim_space spec)" "([], [])"]
    by (simp add: ParseKeys_def key_entries_def Let_def prod.case_eq_if)
qed

lemma ParseKeys_enabled: "enabled (fst (ParseKeys spec)) \<longleftrightarrow> keys (fst (ParseKeys spec)) \<noteq> []"
  by (simp add: ParseKeys_def Let_def prod.case_eq_if)

lemma key_entry_sound: "key_entry e = Some (k, p) \<Longrightarrow> k \<noteq> [] \<and> p_Role p \<noteq> RoleNone"
  by (auto simp: key_entry_def split: list.splits if_splits)

lemma key_entries_sound: "(k, p) \<in> set (key_entries spec) \<Longrightarrow> k \<noteq> [] \<and> p_Role p \<noteq> RoleNone"
  by (auto simp: key_entries_def map_filter_def dest: key_entry_sound)

text \<open>The key table is what the specification says: a secret resolves to the label and role of its last
  well-formed entry, malformed entries contribute nothing, no empty secret and no key without a
  role is accepted, and authentication is enforced exactly when some entry is well formed.\<close>

theorem parse_keys_table:
  defines "a spec \<equiv> fst (ParseKeys spec)"
  shows "lookup_key (a spec) secret = map_of (rev (key_entries spec)) secret \<and>
         lookup_key (a spec) [] = None \<and>
         RoleNone \<notin> p_Role ` {p. \<exists>k. lookup_key (a spec) k = Some p} \<and>
         enabled (a spec) = (key_entries spec \<noteq> [])"
proof -
  have l: "lookup_key (a spec) k = map_of (rev (key_entries spec)) k" for k
    unfolding a_def by (subst lookup_key_map) (simp_all add: ParseKeys_keys fold_update_distinct fold_update_map_of)
  have s: "k \<noteq> [] \<and> p_Role p \<noteq> RoleNone" if "lookup_key (a spec) k = Some p" for k p
    using that l map_of_SomeD [of "rev (key_entries spec)" k p] key_entries_sound by auto
  have "lookup_key (a spec) [] = None" using s [of "[]"] by (cases "lookup_key (a spec) []") auto
  moreover have "RoleNone \<notin> p_Role ` {p. \<exists>k. lookup_key (a spec) k = Some p}" using s by fastforce
  moreover have "enabled (a spec) = (key_entries spec \<noteq> [])"
    by (simp add: a_def ParseKeys_enabled ParseKeys_keys fold_update_Nil)
  ultimately show ?thesis using l by blast
qed

text \<open>With API keys configured, a guarded handler runs only for a request that carries a known key whose role
  is at least the required one, and then with that key's principal; any other request gets 401 or
  403 and leaves the program's state as it was.\<close>

theorem api_key_guard:
  assumes "enabled a" and "r_method r \<noteq> MethodOptions"
  shows "Authenticate a (Require a m h) r (w, s) =
    (case lookup_key a (bearer r) of
       None \<Rightarrow> (writeError 401 ''missing or invalid API key'' w, s)
     | Some p \<Rightarrow>
         if m \<le> p_Role p then h (r\<lparr>r_ctx := Some p\<rparr>) (w, s)
         else (writeError 403 (''insufficient role: '' @ role_string m @ '' required'') w, s))"
  using api_keys.guarded [OF assms, of m h w s] by (auto simp: key_resolve_def split: option.splits)

definition demo_keys :: Authenticator where
  "demo_keys = \<lparr>keys = [(''s1'', \<lparr>p_ID = ''ops'', p_Role = RoleAdmin\<rparr>),
                         (''s2'', \<lparr>p_ID = ''view'', p_Role = RoleViewer\<rparr>)], enabled = True\<rparr>"

definition demo_request :: "string \<Rightarrow> request" where
  "demo_request key = \<lparr>r_method = ''POST'', r_path = ''/api/v1/assets'', r_query = [],
     r_headers = [(''X-Api-Key'', key)], r_remote = ''10.0.0.9:41000'', r_body = [], r_limit = None, r_ctx = None\<rparr>"

lemma bearer_demo_request: "(\<And>c. c \<in> set k \<Longrightarrow> visible c) \<Longrightarrow> bearer (demo_request k) = k"
  by (simp add: bearer_def demo_request_def get_first_def has_prefix_def trim_space_visible)

theorem api_key_guard_witness:
  "snd (Authenticate demo_keys (Require demo_keys RoleAnalyst (\<lambda>r (w, n). (w, n + 1))) (demo_request ''s2'') (new_writer, 5 :: nat)) = 5 \<and>
   snd (Authenticate demo_keys (Require demo_keys RoleAnalyst (\<lambda>r (w, n). (w, n + 1))) (demo_request ''s1'') (new_writer, 5 :: nat)) = 6"
proof -
  have "enabled demo_keys" "r_method (demo_request k) \<noteq> MethodOptions" for k
    by (simp_all add: demo_keys_def demo_request_def)
  note g = api_key_guard [OF this]
  have "bearer (demo_request ''s1'') = ''s1''" "bearer (demo_request ''s2'') = ''s2''"
    by (rule bearer_demo_request, auto simp: visible_def)+
  then show ?thesis unfolding g by (simp add: demo_keys_def lookup_key_def)
qed

text \<open>When no entry of a non-blank specification is well formed, the only trace is a warning: authentication
  is off, every guarded handler runs for every caller, and the caller counts as an administrator.\<close>

theorem malformed_keys_open_access:
  assumes "trim_space spec \<noteq> []" and "key_entries spec = []"
  defines "a \<equiv> fst (ParseKeys spec)"
  shows "Authenticate a (Require a m h) r ws = h r ws \<and>
         (r_ctx r = None \<longrightarrow> p_Role (PrincipalFromRequest r) = RoleAdmin)"
proof -
  have "\<not> enabled a" using assms(2) by (simp add: a_def ParseKeys_enabled ParseKeys_keys fold_update_Nil)
  then show ?thesis
    by (simp add: Authenticate_def Require_def PrincipalFromRequest_def principalFrom_def)
qed

theorem malformed_keys_open_access_witness:
  "Authenticate (fst (ParseKeys ''ops=secret'')) (Require (fst (ParseKeys ''ops=secret'')) RoleAdmin (\<lambda>r (w, n). (w, n + 1)))
     (demo_request []) (new_writer, 5 :: nat) = (new_writer, 6)"
proof -
  have v: "trim_space ''ops=secret'' = ''ops=secret''"
    by (rule trim_space_visible) (auto simp: visible_def)
  then have "key_entries ''ops=secret'' = []"
    by (simp add: key_entries_def map_filter_simps key_entry_def numeral_3_eq_3)
  then show ?thesis
    by (subst malformed_keys_open_access [THEN conjunct1]) (simp_all add: v)
qed

end
