(* ===== verification/Hardening.thy ===== *)
theory Hardening
  imports Auth Go_Float
begin

text \<open>
  \<open>internal/auth/hardening.go\<close>: CORS, the body cap, the security headers and the per-client token
  bucket.  The limiter's state lives in the program state \<open>'s\<close>, reached through a getter and a
  setter; the clock is a function of that state.
\<close>

section \<open>CORS, body cap, headers\<close>

definition cors_wildcard :: "string list \<Rightarrow> bool" where
  "cors_wildcard allowed \<longleftrightarrow> ''*'' \<in> trim_space ` set allowed"

definition cors_origins :: "string list \<Rightarrow> string set" where
  "cors_origins allowed = trim_space ` set allowed - {''*'', []}"

definition CORS :: "string list \<Rightarrow> (Principal, 's) handler \<Rightarrow> (Principal, 's) handler" where
  "CORS allowed next_h r ws =
     (let origin = get_first (r_headers r) ''Origin''; (w, s) = ws;
          w = (if origin \<noteq> [] \<and> (cors_wildcard allowed \<or> origin \<in> cors_origins allowed)
               then header_set ''Access-Control-Allow-Headers'' ''Content-Type, Authorization, X-API-Key''
                      (header_set ''Access-Control-Allow-Methods'' ''GET, POST, PATCH, PUT, DELETE, OPTIONS''
                        (if cors_wildcard allowed then header_set ''Access-Control-Allow-Origin'' ''*'' w
                         else header_add ''Vary'' ''Origin'' (header_set ''Access-Control-Allow-Origin'' origin w)))
               else w)
      in if r_method r = MethodOptions then (write_header 204 w, s) else next_h r (w, s))"

definition MaxBody :: "int \<Rightarrow> (Principal, 's) handler \<Rightarrow> (Principal, 's) handler" where
  "MaxBody n next_h r ws = (if n \<le> 0 then next_h r ws else next_h (r\<lparr>r_limit := Some n\<rparr>) ws)"

definition SecurityHeaders :: "(Principal, 's) handler \<Rightarrow> (Principal, 's) handler" where
  "SecurityHeaders next_h r ws =
     (let (w, s) = ws;
          w = header_set ''X-Content-Type-Options'' ''nosniff'' w;
          w = header_set ''X-Frame-Options'' ''DENY'' w;
          w = header_set ''Referrer-Policy'' ''no-referrer'' w;
          w = header_set ''Content-Security-Policy'' (''default-src 'none'; frame-ancestors 'none'' @ [CHR 0x27]) w;
          w = header_set ''Strict-Transport-Security'' ''max-age=63072000; includeSubDomains'' w
      in next_h r (w, s))"

section \<open>The rate limiter\<close>

record Limiter =
  buckets :: "(string \<times> (f64 \<times> time)) list"
  last_seen :: "(string \<times> time) list"

definition limiter_new :: Limiter where
  "limiter_new = \<lparr>buckets = [], last_seen = []\<rparr>"

text \<open>The client's address: the first hop of the forwarding header when there is one.\<close>

definition clientIP :: "request \<Rightarrow> string" where
  "clientIP r =
     (let xff = get_first (r_headers r) ''X-Forwarded-For''
      in if xff \<noteq> [] then trim_space (takeWhile (\<lambda>c. c \<noteq> CHR '','') xff)
         else (case split_host_port (r_remote r) of None \<Rightarrow> r_remote r | Some (host, _) \<Rightarrow> host))"

definition refill :: "f64 \<Rightarrow> f64 \<Rightarrow> time \<Rightarrow> f64 \<times> time \<Rightarrow> f64 \<times> time" where
  "refill rate burst t b =
     (let (tokens, last_t) = b; elapsed = duration_seconds (time_sub t last_t)
      in if Fin 0 < elapsed then
           (let tokens = tokens + elapsed * rate in (if burst < tokens then burst else tokens, t))
         else (tokens, last_t))"

definition evict :: "time \<Rightarrow> Limiter \<Rightarrow> Limiter" where
  "evict t l =
     (let old = map fst (filter (\<lambda>(ip, seen). time_sub t seen > 10 * Minute) (last_seen l))
      in l\<lparr>last_seen := filter (\<lambda>(ip, _). ip \<notin> set old) (last_seen l),
           buckets := filter (\<lambda>(ip, _). ip \<notin> set old) (buckets l)\<rparr>)"

definition allow :: "f64 \<Rightarrow> f64 \<Rightarrow> string \<Rightarrow> time \<Rightarrow> Limiter \<Rightarrow> bool \<times> Limiter" where
  "allow rate burst ip t l =
     (let b = (case map_of (buckets l) ip of None \<Rightarrow> (burst, t) | Some b \<Rightarrow> b);
          (tokens, last_t) = refill rate burst t b;
          l = evict t (l\<lparr>buckets := AList.update ip (tokens, last_t) (buckets l),
                         last_seen := AList.update ip t (last_seen l)\<rparr>)
      in if tokens < to_f64 1 then (False, l)
         else (True, l\<lparr>buckets := AList.update ip (tokens - to_f64 1, last_t) (buckets l)\<rparr>))"

definition RateLimit ::
  "f64 \<Rightarrow> ('s \<Rightarrow> time) \<Rightarrow> ('s \<Rightarrow> Limiter) \<Rightarrow> (Limiter \<Rightarrow> 's \<Rightarrow> 's) \<Rightarrow> (Principal, 's) handler \<Rightarrow> (Principal, 's) handler" where
  "RateLimit perSecond now getl putl next_h r ws =
     (if perSecond \<le> Fin 0 then next_h r ws
      else if r_method r = MethodOptions then next_h r ws
      else (let (w, s) = ws; (ok, l) = allow perSecond (perSecond * to_f64 2) (clientIP r) (now s) (getl s)
            in if \<not> ok then (writeError 429 ''rate limit exceeded'' (header_set ''Retry-After'' ''1'' w), putl l s)
               else next_h r (w, putl l s)))"

section \<open>Buckets\<close>

lemma evict_keeps:
  assumes "distinct (map fst (last_seen l))" and "map_of (last_seen l) ip = Some t"
  shows "map_of (buckets (evict t l)) ip = map_of (buckets l) ip"
proof -
  have "ip \<notin> set (map fst (filter (\<lambda>(ip, seen). time_sub t seen > 10 * Minute) (last_seen l)))"
    using assms by (auto simp: time_sub_def Minute_def Second_def dest!: map_of_is_SomeI [rotated])
  then show ?thesis
    by (simp add: evict_def Let_def map_of_filter_key case_prod_unfold)
qed

text \<open>The keys of the two tables stay distinct.\<close>

definition limiter_wf :: "Limiter \<Rightarrow> bool" where
  "limiter_wf l \<longleftrightarrow> distinct (map fst (buckets l)) \<and> distinct (map fst (last_seen l))"

lemma evict_wf: "limiter_wf l \<Longrightarrow> limiter_wf (evict t l)"
  by (auto simp: limiter_wf_def evict_def Let_def intro: distinct_filter_key)

lemma limiter_new_wf: "limiter_wf limiter_new"
  by (simp add: limiter_wf_def limiter_new_def)

text \<open>The bucket a request of \<open>ip\<close> at \<open>t\<close> finds, refilled.\<close>

definition bucket_at :: "f64 \<Rightarrow> f64 \<Rightarrow> string \<Rightarrow> time \<Rightarrow> Limiter \<Rightarrow> f64 \<times> time" where
  "bucket_at rate burst ip t l =
     refill rate burst t (case map_of (buckets l) ip of None \<Rightarrow> (burst, t) | Some b \<Rightarrow> b)"

lemma allow_spec:
  fixes rate burst :: f64 and ip :: string and t :: time
  assumes "limiter_wf l"
  defines "b \<equiv> bucket_at rate burst ip t l" and "r \<equiv> allow rate burst ip t l"
  shows "fst r \<longleftrightarrow> \<not> fst b < to_f64 1"
    and "map_of (buckets (snd r)) ip = Some (if fst b < to_f64 1 then fst b else fst b - to_f64 1, snd b)"
    and "limiter_wf (snd r)"
    and "ip' \<noteq> ip \<Longrightarrow> map_of (buckets (snd r)) ip' \<in> {None, map_of (buckets l) ip'}"
proof -
  define l1 where "l1 = l\<lparr>buckets := AList.update ip b (buckets l), last_seen := AList.update ip t (last_seen l)\<rparr>"
  have wf1: "limiter_wf l1" using assms(1) by (auto simp: limiter_wf_def l1_def intro: distinct_update)
  have seen: "map_of (last_seen l1) ip = Some t" by (simp add: l1_def)
  have own: "map_of (buckets (evict t l1)) ip = Some b"
    using evict_keeps [of l1 ip t] wf1 seen by (simp add: limiter_wf_def l1_def)
  have other: "map_of (buckets (evict t l1)) ip' \<in> {None, map_of (buckets l) ip'}" if "ip' \<noteq> ip"
    using that by (auto simp: evict_def Let_def map_of_filter_key case_prod_unfold l1_def)
  have r: "r = (if fst b < to_f64 1 then (False, evict t l1)
      else (True, (evict t l1)\<lparr>buckets := AList.update ip (fst b - to_f64 1, snd b) (buckets (evict t l1))\<rparr>))"
    by (simp add: r_def allow_def b_def bucket_at_def l1_def Let_def case_prod_unfold)
  show "fst r \<longleftrightarrow> \<not> fst b < to_f64 1" by (simp add: r)
  show "map_of (buckets (snd r)) ip = Some (if fst b < to_f64 1 then fst b else fst b - to_f64 1, snd b)"
    using own by (simp add: r)
  show "limiter_wf (snd r)"
    using evict_wf [OF wf1] by (auto simp: r limiter_wf_def intro: distinct_update)
  show "ip' \<noteq> ip \<Longrightarrow> map_of (buckets (snd r)) ip' \<in> {None, map_of (buckets l) ip'}"
    using other by (simp add: r)
qed

lemma refill_now: "refill rate burst t (x, t) = (x, t)"
  by (simp add: refill_def time_sub_def duration_seconds_def duration_in_def Second_def
      signed_divide_int_def signed_modulo_int_def f64_of_int_small)

text \<open>A run of requests, with the answers.\<close>

fun allow_all :: "f64 \<Rightarrow> f64 \<Rightarrow> (string \<times> time) list \<Rightarrow> Limiter \<Rightarrow> bool list" where
  "allow_all rate burst [] l = []"
| "allow_all rate burst ((ip, t) # qs) l =
     (let (ok, l') = allow rate burst ip t l in ok # allow_all rate burst qs l')"

lemma allow_all_Cons:
  "allow_all rate burst ((ip, t) # qs) l =
     fst (allow rate burst ip t l) # allow_all rate burst qs (snd (allow rate burst ip t l))"
  by (simp add: Let_def case_prod_unfold)

declare allow_all.simps(2) [simp del]

lemma same_instant:
  assumes "limiter_wf l" and "rnd64 x = x" and "0 \<le> x" and "x < 2 ^ 53"
    and "bucket_at rate burst ip t l = (Fin x, t)"
  shows "allow_all rate burst (replicate n (ip, t)) l =
           replicate (min n (nat \<lfloor>x\<rfloor>)) True @ replicate (n - nat \<lfloor>x\<rfloor>) False"
  using assms
proof (induction n arbitrary: l x)
  case (Suc n)
  let ?l' = "snd (allow rate burst ip t l)"
  note sp = allow_spec [OF Suc.prems(1), where rate = rate and burst = burst and ip = ip and t = t, unfolded Suc.prems(5)]
  show ?case
  proof (cases "x < 1")
    case True
    then have "map_of (buckets ?l') ip = Some (Fin x, t)" and no: "\<not> fst (allow rate burst ip t l)"
      using sp(1,2) by simp_all
    then have "bucket_at rate burst ip t ?l' = (Fin x, t)" by (simp add: bucket_at_def refill_now)
    moreover have "\<lfloor>x\<rfloor> = 0" using True Suc.prems(3) by linarith
    ultimately show ?thesis using Suc.IH [OF sp(3) Suc.prems(2-4)] no by (simp add: allow_all_Cons)
  next
    case False
    then have x1: "1 \<le> x" by simp
    note dec = f64_dec [OF Suc.prems(2) x1 Suc.prems(4)]
    then have "map_of (buckets ?l') ip = Some (Fin (x - 1), t)" and ok: "fst (allow rate burst ip t l)"
      using sp(1,2) x1 by simp_all
    then have b: "bucket_at rate burst ip t ?l' = (Fin (x - 1), t)" by (simp add: bucket_at_def refill_now)
    have f: "nat \<lfloor>x\<rfloor> = Suc (nat \<lfloor>x - 1\<rfloor>)"
    proof -
      have "1 \<le> \<lfloor>x\<rfloor>" using x1 by simp
      then show ?thesis by (simp add: Suc_nat_eq_nat_zadd1)
    qed
    have "0 \<le> x - 1" "x - 1 < 2 ^ 53" using x1 Suc.prems(4) by linarith+
    then show ?thesis
      using Suc.IH [OF sp(3) rnd64_sub_one [OF Suc.prems(2) x1 Suc.prems(4)] _ _ b] ok
      by (simp add: allow_all_Cons f)
  qed
qed simp

text \<open>C24: A client that was idle gets at most its burst at one instant: of any number of simultaneous requests
  from an address without a bucket, exactly the first \<open>floor (2 * rate)\<close> are admitted and all
  later ones are refused.\<close>

theorem burst_limit:
  assumes "limiter_wf l" and "map_of (buckets l) ip = None"
    and "Fin q * to_f64 2 = Fin b" and "0 \<le> b" and "b < 2 ^ 53" and "rnd64 b = b"
  shows "allow_all (Fin q) (Fin q * to_f64 2) (replicate n (ip, t)) l =
           replicate (min n (nat \<lfloor>b\<rfloor>)) True @ replicate (n - nat \<lfloor>b\<rfloor>) False"
  unfolding assms(3)
  by (rule same_instant [OF assms(1,6,4,5)]) (simp add: bucket_at_def assms(2) refill_now)

theorem burst_limit_witness:
  "allow_all (Fin 2) (Fin 2 * to_f64 2) (replicate 6 (''10.0.0.9'', 17)) limiter_new =
     [True, True, True, True, False, False]"
proof -
  have "Fin 2 * to_f64 2 = Fin 4" by simp
  moreover have "rnd64 4 = 4" using rnd64_int [of 4] by simp
  ultimately show ?thesis
    using burst_limit [OF limiter_new_wf, of "''10.0.0.9''" 2 4 6 17]
    by (simp add: limiter_new_def numeral_eq_Suc)
qed

text \<open>Clients do not spend each other's tokens: a request changes at most its own address's bucket, apart from
  dropping buckets that were idle, and it is admitted exactly when that bucket, refilled, holds a
  whole token.\<close>

theorem clients_isolated:
  fixes rate burst :: f64 and ip :: string and t :: time
  assumes "limiter_wf l"
  defines "r \<equiv> allow rate burst ip t l"
  shows "(fst r \<longleftrightarrow> \<not> fst (bucket_at rate burst ip t l) < to_f64 1) \<and> limiter_wf (snd r) \<and>
         (\<forall>ip'. ip' \<noteq> ip \<longrightarrow> map_of (buckets (snd r)) ip' \<in> {None, map_of (buckets l) ip'})"
  using allow_spec [OF assms(1), where rate = rate and burst = burst and ip = ip and t = t] by (auto simp: r_def)

theorem clients_isolated_witness: "limiter_wf (snd (allow (Fin 2) (Fin 4) ''10.0.0.9'' 17 limiter_new))"
  using clients_isolated [OF limiter_new_wf] by blast

section \<open>Limits of the limiter\<close>

text \<open>Every bucket stays between nothing and the burst.\<close>

definition in_burst :: "rat \<Rightarrow> f64 \<Rightarrow> bool" where
  "in_burst b x \<longleftrightarrow> Fin 0 \<le> x \<and> x \<le> Fin b"

definition buckets_in :: "rat \<Rightarrow> Limiter \<Rightarrow> bool" where
  "buckets_in b l \<longleftrightarrow> limiter_wf l \<and> (\<forall>ip x. map_of (buckets l) ip = Some x \<longrightarrow> in_burst b (fst x))"

lemma f64_add_nonneg: "0 \<le> x \<Longrightarrow> Fin 0 \<le> p \<Longrightarrow> Fin 0 \<le> Fin x + p"
  using to_f64_mono [of 0 "x + a" for a] by (cases p) (simp_all add: plus_f64_def f64_le_iff)

lemma f64_not_less: "Fin 0 \<le> x \<Longrightarrow> \<not> Fin b < x \<Longrightarrow> x \<le> Fin b"
  by (cases x) (simp_all add: less_f64_def f64_le_iff)

lemma in_burst_Fin: "in_burst b x \<Longrightarrow> \<exists>z. x = Fin z \<and> 0 \<le> z \<and> z \<le> b"
  by (cases x) (simp_all add: in_burst_def f64_le_iff)

lemma refill_in_burst:
  assumes "in_burst b (fst c)" and "0 < q" and "0 \<le> b"
  shows "in_burst b (fst (refill (Fin q) (Fin b) t c))"
proof -
  obtain z where z: "fst c = Fin z" "0 \<le> z" "z \<le> b" using in_burst_Fin [OF assms(1)] by blast
  define d where "d = duration_seconds (time_sub t (snd c))"
  define y where "y = Fin z + d * Fin q"
  have r: "fst (refill (Fin q) (Fin b) t c) = (if Fin 0 < d then if Fin b < y then Fin b else y else Fin z)"
    using z(1) by (cases c) (simp add: refill_def Let_def d_def y_def)
  have "Fin 0 \<le> y" if "Fin 0 < d"
  proof -
    have "Fin 0 \<le> d" using that by (cases d) (simp_all add: less_f64_def f64_le_iff)
    then show ?thesis unfolding y_def by (intro f64_add_nonneg z f64_mult_nonneg assms(2))
  qed
  then show ?thesis unfolding r in_burst_def using z assms(3) f64_not_less by auto
qed

lemma allow_in_burst:
  assumes "buckets_in b l" and "0 < q" and "0 \<le> b" and "b < 1"
  shows "\<not> fst (allow (Fin q) (Fin b) ip t l)" and "buckets_in b (snd (allow (Fin q) (Fin b) ip t l))"
proof -
  let ?b = "bucket_at (Fin q) (Fin b) ip t l"
  have wf: "limiter_wf l" using assms(1) by (simp add: buckets_in_def)
  note sp = allow_spec [OF wf, where rate = "Fin q" and burst = "Fin b" and ip = ip and t = t]
  have "in_burst b (fst (case map_of (buckets l) ip of None \<Rightarrow> (Fin b, t) | Some b \<Rightarrow> b))"
    using assms(1,3) by (auto simp: buckets_in_def in_burst_def split: option.split)
  then have i: "in_burst b (fst ?b)" unfolding bucket_at_def by (rule refill_in_burst) (rule assms)+
  then obtain z where z: "fst ?b = Fin z" "z \<le> b" using in_burst_Fin by blast
  with assms(4) have less: "fst ?b < to_f64 1" by simp
  then show "\<not> fst (allow (Fin q) (Fin b) ip t l)" using sp(1) by simp
  show "buckets_in b (snd (allow (Fin q) (Fin b) ip t l))"
    unfolding buckets_in_def
  proof (intro conjI allI impI)
    show "limiter_wf (snd (allow (Fin q) (Fin b) ip t l))" by (rule sp(3))
    fix ip' x assume "map_of (buckets (snd (allow (Fin q) (Fin b) ip t l))) ip' = Some x"
    note m = this
    show "in_burst b (fst x)"
    proof (cases "ip' = ip")
      case True
      then have "fst x = fst ?b" using m sp(2) less by auto
      then show ?thesis using i by simp
    next
      case False
      then have "map_of (buckets l) ip' = Some x" using m sp(4) [OF False] by auto
      then show ?thesis using assms(1) unfolding buckets_in_def by blast
    qed
  qed
qed

text \<open>A configured rate below one request every two seconds makes the burst smaller than one token, so every
  request of every client is refused, however slowly they come.\<close>

theorem low_rate_refuses_all:
  assumes "0 < q" and "Fin q * to_f64 2 = Fin b" and "b < 1"
  shows "allow_all (Fin q) (Fin q * to_f64 2) qs limiter_new = replicate (length qs) False"
proof -
  have "Fin 0 \<le> Fin q * to_f64 2" using f64_mult_nonneg [of "Fin q" 2] assms(1) by simp
  then have b: "0 \<le> b" unfolding assms(2) by simp
  have "allow_all (Fin q) (Fin b) qs l = replicate (length qs) False" if "buckets_in b l" for l
    using that
  proof (induction qs arbitrary: l)
    case (Cons x qs)
    obtain ip t where "x = (ip, t)" by (cases x)
    with Cons allow_in_burst [OF Cons.prems _ b assms(3), of q ip t] assms(1) show ?case
      by (simp add: allow_all_Cons)
  qed simp
  moreover have "buckets_in b limiter_new" by (simp add: buckets_in_def limiter_new_wf) (simp add: limiter_new_def)
  ultimately show ?thesis unfolding assms(2) by blast
qed

theorem low_rate_refuses_all_witness:
  "allow_all (Fin (1 / 4)) (Fin (1 / 4) * to_f64 2) [(''10.0.0.9'', 0), (''10.0.0.9'', 900 * Second)] limiter_new = [False, False]"
proof -
  have "Fin (1 / 4) * to_f64 2 = Fin (1 / 2)" by simp
  from low_rate_refuses_all [OF _ this] show ?thesis by simp
qed

text \<open>A rate of NaN, which the check for a disabled limiter does not catch, admits every request.\<close>

theorem nan_rate_admits_all:
  "\<not> NaN \<le> Fin 0 \<and> allow_all NaN (NaN * to_f64 2) qs limiter_new = replicate (length qs) True"
proof -
  have n: "NaN * to_f64 2 = NaN" "d * NaN = NaN" "x + NaN = NaN" "NaN - x = NaN" for d x
    by (cases d; cases x; simp add: times_f64_def plus_f64_def minus_f64_def)+
  define inv where "inv l \<longleftrightarrow> limiter_wf l \<and> (\<forall>ip x. map_of (buckets l) ip = Some x \<longrightarrow> fst x = NaN)" for l
  have a: "fst (allow NaN NaN ip t l) \<and> inv (snd (allow NaN NaN ip t l))" if "inv l" for ip t l
  proof -
    let ?l' = "snd (allow NaN NaN ip t l)"
    have wf: "limiter_wf l" using that by (simp add: inv_def)
    note sp = allow_spec [OF wf, where rate = NaN and burst = NaN and ip = ip and t = t]
    have "fst (refill NaN NaN t c) = NaN" if "fst c = NaN" for c
      using that by (cases c) (simp add: refill_def n Let_def)
    moreover have "fst (case map_of (buckets l) ip of None \<Rightarrow> (NaN, t) | Some b \<Rightarrow> b) = NaN"
      using that by (auto simp: inv_def split: option.split)
    ultimately have b: "fst (bucket_at NaN NaN ip t l) = NaN" unfolding bucket_at_def by blast
    have own: "map_of (buckets ?l') ip = Some (NaN, snd (bucket_at NaN NaN ip t l))"
      using sp(2) by (simp add: b n)
    have "fst x = NaN" if m: "map_of (buckets ?l') ip' = Some x" for ip' x
    proof (cases "ip' = ip")
      case True
      then show ?thesis using m own by auto
    next
      case False
      then have "map_of (buckets l) ip' = Some x" using m sp(4) [OF False] by auto
      then show ?thesis using \<open>inv l\<close> unfolding inv_def by blast
    qed
    then show ?thesis using sp(1,3) by (simp add: b inv_def)
  qed
  have "allow_all NaN NaN qs l = replicate (length qs) True" if "inv l" for l
    using that
  proof (induction qs arbitrary: l)
    case (Cons x qs)
    obtain ip t where "x = (ip, t)" by (cases x)
    with Cons a [OF Cons.prems, of ip t] show ?case by (simp add: allow_all_Cons)
  qed simp
  moreover have "inv limiter_new" by (simp add: inv_def limiter_new_wf) (simp add: limiter_new_def)
  ultimately have "allow_all NaN NaN qs limiter_new = replicate (length qs) True" by blast
  then show ?thesis unfolding n by (simp add: less_eq_f64_def)
qed

section \<open>CORS\<close>

lemma header_set_map_of:
  "map_of (w_headers (header_set k v w)) k' =
     (if w_code w \<noteq> None then map_of (w_headers w) k' else if k' = k then Some v else map_of (w_headers w) k')"
proof -
  have "map_of (filter (\<lambda>(j, _). j \<noteq> k) xs @ [(k, v)]) k' = (if k' = k then Some v else map_of xs k')" for xs
    by (induction xs) auto
  then show ?thesis by (simp add: header_set_def)
qed

lemma header_add_map_of:
  "map_of (w_headers (header_add k v w)) k' =
     (if w_code w \<noteq> None \<or> map_of (w_headers w) k' \<noteq> None \<or> k' \<noteq> k then map_of (w_headers w) k' else Some v)"
  by (auto simp: header_add_def map_add_def split: option.split)

lemma header_code [simp]: "w_code (header_set k v w) = w_code w" "w_code (header_add k v w) = w_code w"
  by (simp_all add: header_set_def header_add_def)

text \<open>The server tells a browser to share a response with an origin only when that origin is on the
  configured list or the list contains the wildcard, and a preflight request is answered without
  running the handler.\<close>

theorem cors_restricted:
  assumes "w_code w = None" and "map_of (w_headers w) ''Access-Control-Allow-Origin'' = None"
  shows "\<exists>w'. CORS allowed h r (w, s) = (if r_method r = MethodOptions then (write_header 204 w', s) else h r (w', s)) \<and>
              w_code w' = None \<and>
              (case map_of (w_headers w') ''Access-Control-Allow-Origin'' of
                 None \<Rightarrow> w' = w
               | Some v \<Rightarrow> (v = ''*'' \<and> cors_wildcard allowed) \<or>
                            (v = get_first (r_headers r) ''Origin'' \<and> v \<in> cors_origins allowed))"
proof -
  let ?o = "get_first (r_headers r) ''Origin''"
  define ok where "ok \<longleftrightarrow> ?o \<noteq> [] \<and> (cors_wildcard allowed \<or> ?o \<in> cors_origins allowed)"
  define w' where "w' = (if ok
      then header_set ''Access-Control-Allow-Headers'' ''Content-Type, Authorization, X-API-Key''
             (header_set ''Access-Control-Allow-Methods'' ''GET, POST, PATCH, PUT, DELETE, OPTIONS''
               (if cors_wildcard allowed then header_set ''Access-Control-Allow-Origin'' ''*'' w
                else header_add ''Vary'' ''Origin'' (header_set ''Access-Control-Allow-Origin'' ?o w)))
      else w)"
  have c: "CORS allowed h r (w, s) = (if r_method r = MethodOptions then (write_header 204 w', s) else h r (w', s))"
    by (simp add: CORS_def Let_def w'_def ok_def)
  have code: "w_code w' = None" using assms(1) by (simp add: w'_def)
  have "map_of (w_headers w') ''Access-Control-Allow-Origin'' =
      (if ok then Some (if cors_wildcard allowed then ''*'' else ?o) else None)"
    using assms by (simp add: w'_def header_set_map_of header_add_map_of)
  then show ?thesis using c code by (intro exI [of _ w']) (auto simp: ok_def w'_def)
qed

theorem cors_restricted_witness:
  "\<exists>w'. CORS [] (\<lambda>r ws. ws) (demo_request []) (new_writer, 5 :: nat) = (w', 5)"
  using cors_restricted [of new_writer "[]" "\<lambda>r ws. ws" "demo_request []" "5 :: nat"]
  by (auto simp: new_writer_def demo_request_def)

end
