(* ===== verification/Job_Queue.thy ===== *)
theory Job_Queue
  imports Amankan_Prelude Store
begin

text \<open>
  \<open>internal/queue/queue.go\<close>: the job queue is a Redis list, pushed at its left end and popped at its
  right end.  Redis itself is a map from keys to lists, and a blocking pop of an empty list ends in the timeout.
  The connection may fail at any moment of a call: before the command reaches the server, or after the server has
  executed it, when only the reply is lost.  The client sends a command again when it loses the reply.  So the
  environment gives, per call, how often the server executes the command without its reply coming back
  (\<open>redis_lost\<close>), and whether the call then ends in an error (\<open>redis_fault\<close>) or with the reply of one more execution.
\<close>

record redis =
  lists :: "string \<Rightarrow> string list"
  redis_tick :: nat

record Queue =
  q_key :: string
  redis_fault :: "nat \<Rightarrow> bool"
  redis_lost :: "nat \<Rightarrow> nat"

definition lpush :: "string \<Rightarrow> string \<Rightarrow> redis \<Rightarrow> redis" where
  "lpush k v r = r\<lparr>lists := (lists r)(k := v # lists r k)\<rparr>"

text \<open>\<open>None\<close> is the timeout (\<open>redis.Nil\<close>).\<close>

definition brpop :: "string \<Rightarrow> redis \<Rightarrow> string option \<times> redis" where
  "brpop k r =
     (if lists r k = [] then (None, r)
      else (Some (last (lists r k)), r\<lparr>lists := (lists r)(k := butlast (lists r k))\<rparr>))"

definition redis_call :: "Queue \<Rightarrow> (redis \<Rightarrow> 'a \<times> redis) \<Rightarrow> redis \<Rightarrow> (unit + 'a) \<times> redis" where
  "redis_call q f r =
     (let t = redis_tick r; r = ((\<lambda>r. snd (f r)) ^^ redis_lost q t) (r\<lparr>redis_tick := Suc t\<rparr>)
      in if redis_fault q t then (Inl (), r) else (let (x, r) = f r in (Inr x, r)))"

definition Enqueue :: "Queue \<Rightarrow> string \<Rightarrow> redis \<Rightarrow> (unit + unit) \<times> redis" where
  "Enqueue q scanJobID = redis_call q (\<lambda>r. ((), lpush (q_key q) scanJobID r))"

definition Dequeue :: "Queue \<Rightarrow> redis \<Rightarrow> (unit + string) \<times> redis" where
  "Dequeue q r =
     (case redis_call q (brpop (q_key q)) r of
        (Inl e, r) \<Rightarrow> (Inl e, r)
      | (Inr None, r) \<Rightarrow> (Inr [], r)
      | (Inr (Some v), r) \<Rightarrow> (Inr v, r))"

section \<open>The queue as a sequence\<close>

text \<open>
  What the producer and the worker rely on: \<open>jobs\<close> reads the state as the sequence of waiting jobs,
  first come first.  Everything proved here holds for any provider of the three laws.
\<close>

locale fifo_queue =
  fixes enq :: "string \<Rightarrow> 's \<Rightarrow> 's" and deq :: "'s \<Rightarrow> string option \<times> 's" and jobs :: "'s \<Rightarrow> string list"
  assumes jobs_enq: "jobs (enq x s) = jobs s @ [x]"
    and deq_empty: "jobs s = [] \<Longrightarrow> fst (deq s) = None \<and> jobs (snd (deq s)) = []"
    and deq_first: "jobs s = x # xs \<Longrightarrow> fst (deq s) = Some x \<and> jobs (snd (deq s)) = xs"
begin

fun enq_all :: "string list \<Rightarrow> 's \<Rightarrow> 's" where
  "enq_all [] s = s"
| "enq_all (x # xs) s = enq_all xs (enq x s)"

fun deq_all :: "nat \<Rightarrow> 's \<Rightarrow> string list \<times> 's" where
  "deq_all 0 s = ([], s)"
| "deq_all (Suc n) s =
     (case deq s of
        (None, s') \<Rightarrow> deq_all n s'
      | (Some x, s') \<Rightarrow> (case deq_all n s' of (xs, s'') \<Rightarrow> (x # xs, s'')))"

lemma jobs_enq_all: "jobs (enq_all xs s) = jobs s @ xs"
  by (induction xs arbitrary: s) (simp_all add: jobs_enq)

lemma deq_all_takes: "fst (deq_all n s) = take n (jobs s) \<and> jobs (snd (deq_all n s)) = drop n (jobs s)"
proof (induction n arbitrary: s)
  case (Suc n)
  obtain r s' where d: "deq s = (r, s')" by (cases "deq s")
  show ?case
  proof (cases "jobs s")
    case Nil
    then show ?thesis using deq_empty [OF Nil] Suc.IH [of s'] d by simp
  next
    case (Cons x xs)
    then show ?thesis using deq_first [OF Cons] Suc.IH [of s'] d by (simp add: case_prod_unfold)
  qed
qed simp

lemma in_order: "jobs s = [] \<Longrightarrow> length xs \<le> n \<Longrightarrow> fst (deq_all n (enq_all xs s)) = xs"
  using deq_all_takes [of n "enq_all xs s"] jobs_enq_all [of xs s] by simp

end

definition waiting :: "string \<Rightarrow> redis \<Rightarrow> string list" where
  "waiting k r = rev (lists r k)"

interpretation redis_list: fifo_queue "lpush k" "brpop k" "waiting k" for k
proof unfold_locales
  show "waiting k (lpush k x s) = waiting k s @ [x]" for x s
    by (simp add: waiting_def lpush_def)
  show "waiting k s = [] \<Longrightarrow> fst (brpop k s) = None \<and> waiting k (snd (brpop k s)) = []" for s
    by (simp add: waiting_def brpop_def)
  show "fst (brpop k s) = Some x \<and> waiting k (snd (brpop k s)) = xs" if h: "waiting k s = x # xs" for s x xs
  proof -
    have "lists s k = rev xs @ [x]" using h unfolding waiting_def by (metis rev.simps(2) rev_rev_ident)
    then show ?thesis by (simp add: waiting_def brpop_def)
  qed
qed

section \<open>The calls\<close>

lemma waiting_tick [simp]: "waiting k (r\<lparr>redis_tick := n\<rparr>) = waiting k r"
  by (simp add: waiting_def)

lemma redis_call_tick:
  assumes "\<And>r. redis_tick (snd (f r)) = redis_tick r"
  shows "redis_tick (snd (redis_call q f r)) = Suc (redis_tick r)"
proof -
  have "redis_tick (((\<lambda>r. snd (f r)) ^^ n) u) = redis_tick u" for n u by (induction n) (simp_all add: assms)
  then show ?thesis using assms by (simp add: redis_call_def Let_def case_prod_unfold)
qed

lemma lpush_times: "waiting k (((\<lambda>r. snd ((), lpush k x r)) ^^ n) r) = waiting k r @ replicate n x"
  by (induction n) (simp_all add: redis_list.jobs_enq replicate_append_same)

lemma brpop_first:
  "fst (brpop k r) = (case waiting k r of [] \<Rightarrow> None | x # _ \<Rightarrow> Some x)" "waiting k (snd (brpop k r)) = tl (waiting k r)"
  using redis_list.deq_empty [of k r] redis_list.deq_first [of k r] by (cases "waiting k r"; simp)+

lemma brpop_times: "waiting k (((\<lambda>r. snd (brpop k r)) ^^ n) r) = drop n (waiting k r)"
  by (induction n) (simp_all add: brpop_first drop_Suc tl_drop)

text \<open>How often a push takes effect.\<close>

definition pushes :: "Queue \<Rightarrow> nat \<Rightarrow> nat" where
  "pushes q t = redis_lost q t + (if redis_fault q t then 0 else 1)"

lemma Enqueue_result: "fst (Enqueue q x r) = (if redis_fault q (redis_tick r) then Inl () else Inr ())"
  by (simp add: Enqueue_def redis_call_def Let_def)

lemma Enqueue_waiting:
  "waiting (q_key q) (snd (Enqueue q x r)) = waiting (q_key q) r @ replicate (pushes q (redis_tick r)) x"
  using lpush_times [where k = "q_key q" and x = x] redis_list.jobs_enq [of "q_key q" x]
  by (simp add: Enqueue_def redis_call_def Let_def pushes_def replicate_append_same)

lemma Dequeue_result:
  "fst (Dequeue q r) =
     (if redis_fault q (redis_tick r) then Inl ()
      else Inr (case drop (redis_lost q (redis_tick r)) (waiting (q_key q) r) of [] \<Rightarrow> [] | x # _ \<Rightarrow> x))"
  by (simp add: Dequeue_def redis_call_def Let_def case_prod_unfold brpop_first brpop_times split: list.split option.split)

lemma Dequeue_waiting:
  "waiting (q_key q) (snd (Dequeue q r)) = drop (pushes q (redis_tick r)) (waiting (q_key q) r)"
proof -
  have "drop (Suc n) w = tl (drop n w)" for n and w :: "string list" by (simp add: drop_Suc tl_drop)
  then show ?thesis
    by (auto simp: Dequeue_def redis_call_def Let_def case_prod_unfold brpop_first brpop_times pushes_def split: list.split option.split)
qed

text \<open>The circumstances in which every call is executed once and answered.\<close>

definition queue_works :: "Queue \<Rightarrow> bool" where
  "queue_works q \<longleftrightarrow> (\<forall>t. \<not> redis_fault q t \<and> redis_lost q t = 0)"

lemma queue_works_calls:
  assumes "queue_works q"
  shows "fst (Enqueue q x r) = Inr ()" "waiting (q_key q) (snd (Enqueue q x r)) = waiting (q_key q) r @ [x]"
    "fst (Dequeue q r) = Inr (case waiting (q_key q) r of [] \<Rightarrow> [] | x # _ \<Rightarrow> x)"
    "waiting (q_key q) (snd (Dequeue q r)) = tl (waiting (q_key q) r)"
  using assms by (simp_all add: queue_works_def Enqueue_result Enqueue_waiting Dequeue_result Dequeue_waiting pushes_def drop_Suc)

lemma queue_ticks:
  "redis_tick (snd (Enqueue q x r)) = Suc (redis_tick r)" "redis_tick (snd (Dequeue q r)) = Suc (redis_tick r)"
proof -
  show "redis_tick (snd (Enqueue q x r)) = Suc (redis_tick r)"
    unfolding Enqueue_def by (rule redis_call_tick) (simp add: lpush_def)
  have "redis_tick (snd (redis_call q (brpop (q_key q)) r)) = Suc (redis_tick r)"
    by (rule redis_call_tick) (simp add: brpop_def)
  then show "redis_tick (snd (Dequeue q r)) = Suc (redis_tick r)"
    by (auto simp: Dequeue_def split: prod.split sum.split option.split)
qed

text \<open>A run of producer and worker calls: the jobs that the workers get.\<close>

datatype queue_op = Put string | Get

fun run_queue :: "Queue \<Rightarrow> queue_op list \<Rightarrow> redis \<Rightarrow> string list \<times> redis" where
  "run_queue q [] r = ([], r)"
| "run_queue q (Put x # ops) r = run_queue q ops (snd (Enqueue q x r))"
| "run_queue q (Get # ops) r =
     (case Dequeue q r of
        (Inl _, r') \<Rightarrow> run_queue q ops r'
      | (Inr x, r') \<Rightarrow> (let (xs, r'') = run_queue q ops r' in (if x = [] then xs else x # xs, r'')))"

text \<open>What the run pushes, a job as often as its push took effect, and how many replies to its pops are lost.\<close>

fun pushed :: "Queue \<Rightarrow> queue_op list \<Rightarrow> nat \<Rightarrow> string list" where
  "pushed q [] t = []"
| "pushed q (Put x # ops) t = replicate (pushes q t) x @ pushed q ops (Suc t)"
| "pushed q (Get # ops) t = pushed q ops (Suc t)"

fun lost_pops :: "Queue \<Rightarrow> queue_op list \<Rightarrow> nat \<Rightarrow> nat" where
  "lost_pops q [] t = 0"
| "lost_pops q (Put x # ops) t = lost_pops q ops (Suc t)"
| "lost_pops q (Get # ops) t = redis_lost q t + lost_pops q ops (Suc t)"

text \<open>The jobs that leave the queue, in their order; the flag tells whether a worker got the job.\<close>

fun popped :: "Queue \<Rightarrow> queue_op list \<Rightarrow> nat \<Rightarrow> string list \<Rightarrow> (bool \<times> string) list" where
  "popped q [] t w = []"
| "popped q (Put x # ops) t w = popped q ops (Suc t) (w @ replicate (pushes q t) x)"
| "popped q (Get # ops) t w =
     map (Pair False) (take (redis_lost q t) w) @
     (if redis_fault q t then [] else map (Pair True) (take 1 (drop (redis_lost q t) w))) @
     popped q ops (Suc t) (drop (pushes q t) w)"

lemma popped_lost: "length (filter (\<lambda>p. \<not> fst p) (popped q ops t w)) \<le> lost_pops q ops t"
proof (induction q ops t w rule: popped.induct)
  case (3 q ops t w)
  have "length (filter (\<lambda>p. \<not> fst p) (map (Pair False) xs)) = length xs" "filter (\<lambda>p. \<not> fst p) (map (Pair True) xs) = []"
    for xs :: "string list" by (simp_all add: filter_map comp_def)
  then show ?case using 3 by auto
qed simp_all

lemma popped_handed:
  assumes "[] \<notin> set (waiting (q_key q) r)" and "Put [] \<notin> set ops"
  shows "fst (run_queue q ops r) = map snd (filter fst (popped q ops (redis_tick r) (waiting (q_key q) r)))"
    and "map snd (popped q ops (redis_tick r) (waiting (q_key q) r)) @ waiting (q_key q) (snd (run_queue q ops r)) =
      waiting (q_key q) r @ pushed q ops (redis_tick r)"
proof -
  have "fst (run_queue q ops r) = map snd (filter fst (popped q ops (redis_tick r) (waiting (q_key q) r))) \<and>
      map snd (popped q ops (redis_tick r) (waiting (q_key q) r)) @ waiting (q_key q) (snd (run_queue q ops r)) =
      waiting (q_key q) r @ pushed q ops (redis_tick r)"
    using assms
  proof (induction q ops r rule: run_queue.induct)
    case (2 q x ops r)
    then show ?case using queue_ticks(1) [of q x r] Enqueue_waiting [of q x r] by (auto split: if_splits)
  next
    case (3 q ops r)
    obtain a r' where d: "Dequeue q r = (a, r')" by (cases "Dequeue q r")
    define w t where "w = waiting (q_key q) r" and "t = redis_tick r"
    have w': "waiting (q_key q) r' = drop (pushes q t) w" "redis_tick r' = Suc t"
      using Dequeue_waiting [of q r] queue_ticks(2) [of q r] d by (simp_all add: w_def t_def)
    have a: "a = (if redis_fault q t then Inl () else Inr (case drop (redis_lost q t) w of [] \<Rightarrow> [] | x # _ \<Rightarrow> x))"
      using Dequeue_result [of q r] d by (simp add: w_def t_def)
    have ne: "[] \<notin> set w" "[] \<notin> set (waiting (q_key q) r')" "Put [] \<notin> set ops"
      using "3.prems" by (auto simp: w_def w' dest: in_set_dropD)
    have f: "filter fst (map (Pair False) xs) = []" "filter fst (map (Pair True) xs) = map (Pair True) xs" for xs :: "string list"
      by (induction xs) simp_all
    show ?case
    proof (cases "redis_fault q t")
      case True
      have IH: "fst (run_queue q ops r') = map snd (filter fst (popped q ops (Suc t) (drop (pushes q t) w)))"
          "map snd (popped q ops (Suc t) (drop (pushes q t) w)) @ waiting (q_key q) (snd (run_queue q ops r')) =
           drop (pushes q t) w @ pushed q ops (Suc t)"
        using "3.IH"(1) [OF d [symmetric], of "()"] ne(2,3) a True w' by simp_all
      show ?thesis using IH a True d unfolding w_def [symmetric] t_def [symmetric]
        by (simp add: f pushes_def comp_def append_assoc [symmetric] del: append_assoc) simp
    next
      case False
      have IH: "fst (run_queue q ops r') = map snd (filter fst (popped q ops (Suc t) (drop (pushes q t) w)))"
          "map snd (popped q ops (Suc t) (drop (pushes q t) w)) @ waiting (q_key q) (snd (run_queue q ops r')) =
           drop (pushes q t) w @ pushed q ops (Suc t)"
        using "3.IH"(2) [OF d [symmetric], of "case drop (redis_lost q t) w of [] \<Rightarrow> [] | x # _ \<Rightarrow> x"] ne(2,3) a False w' by simp_all
      show ?thesis
      proof (cases "drop (redis_lost q t) w")
        case Nil
        then have "drop (pushes q t) w = []" "take (redis_lost q t) w = w" using False by (simp_all add: pushes_def)
        then show ?thesis using IH a False d Nil unfolding w_def [symmetric] t_def [symmetric]
          by (simp add: f comp_def case_prod_unfold Let_def)
      next
        case (Cons x u)
        then have "x \<in> set w" by (metis in_set_dropD list.set_intros(1))
        then have u: "drop (pushes q t) w = u" "w = take (redis_lost q t) w @ x # u" "x \<noteq> []"
          using False ne(1) Cons by (auto simp: pushes_def drop_Suc tl_drop [symmetric]) (metis append_take_drop_id)
        have "map snd (popped q (Get # ops) t w) @ waiting (q_key q) (snd (run_queue q ops r')) =
            take (redis_lost q t) w @ x # (u @ pushed q ops (Suc t))"
          using IH(2) False Cons u(1) by (simp add: comp_def)
        also have "\<dots> = w @ pushed q ops (Suc t)" using u(2) by (metis append.assoc append_Cons)
        finally show ?thesis using IH(1) a False d Cons u(1,3) unfolding w_def [symmetric] t_def [symmetric]
          by (simp add: f case_prod_unfold Let_def)
      qed
    qed
  qed simp
  then show "fst (run_queue q ops r) = map snd (filter fst (popped q ops (redis_tick r) (waiting (q_key q) r)))"
    "map snd (popped q ops (redis_tick r) (waiting (q_key q) r)) @ waiting (q_key q) (snd (run_queue q ops r)) =
      waiting (q_key q) r @ pushed q ops (redis_tick r)" by simp_all
qed


text \<open>A queue whose second push fails before it reaches the server and whose third is executed twice.\<close>

definition rough_queue :: Queue where
  "rough_queue = \<lparr>q_key = ''k'', redis_fault = (\<lambda>n. n = 1), redis_lost = (\<lambda>n. if n = 2 then 1 else 0)\<rparr>"


end
