(* ===== verification/Go_Crypto.thy ===== *)
theory Go_Crypto
  imports Go_Sha256 "HOL-Library.Log_Nat"
begin

text \<open>
  \<open>encoding/base64\<close> (the unpadded URL alphabet), the big-endian conversions of \<open>math/big\<close>, and the
  check of an RSA signature: \<open>rsa.VerifyPKCS1v15\<close> with SHA-256, as RFC 8017 defines it and with the
  limits the Go package puts on keys (1024 bits at least, an odd modulus, an odd exponent of at most
  31 bits).
\<close>

section \<open>Base64\<close>

definition b64_val :: "char \<Rightarrow> nat option" where
  "b64_val c =
     (let n = of_char c :: nat
      in if 65 \<le> n \<and> n \<le> 90 then Some (n - 65)
         else if 97 \<le> n \<and> n \<le> 122 then Some (n - 71)
         else if 48 \<le> n \<and> n \<le> 57 then Some (n + 4)
         else if c = CHR ''-'' then Some 62
         else if c = CHR ''_'' then Some 63
         else None)"

text \<open>Four digits are three bytes; the last group may have two or three digits, whose spare bits are dropped.\<close>

fun b64_bytes :: "nat list \<Rightarrow> nat list" where
  "b64_bytes (a # b # c # d # ds) =
     [4 * a + b div 16, b mod 16 * 16 + c div 4, c mod 4 * 64 + d] @ b64_bytes ds"
| "b64_bytes [a, b, c] = [4 * a + b div 16, b mod 16 * 16 + c div 4]"
| "b64_bytes [a, b] = [4 * a + b div 16]"
| "b64_bytes _ = []"

text \<open>\<open>RawURLEncoding.DecodeString\<close>: line breaks are skipped; one digit left over is an error.\<close>

definition b64url_decode :: "string \<Rightarrow> string option" where
  "b64url_decode s =
     (let ds = map b64_val (filter (\<lambda>c. c \<noteq> CHR 0x0A \<and> c \<noteq> CHR 0x0D) s)
      in if length ds mod 4 = 1 \<or> None \<in> set ds then None
         else Some (map char_of (b64_bytes (map the ds))))"

section \<open>Numbers as bytes\<close>

text \<open>\<open>SetBytes\<close>, and the bytes of a number that is known to fit.\<close>

definition os2ip :: "string \<Rightarrow> nat" where
  "os2ip s = fold (\<lambda>c n. 256 * n + of_char c) s 0"

definition i2osp :: "nat \<Rightarrow> nat \<Rightarrow> string" where
  "i2osp k n = map char_of (be_bytes k n)"

lemma of_char_less: "(of_char c :: nat) < 256"
  by (metis mod_less_divisor of_char_mod_256 zero_less_numeral)

lemma os2ip_snoc [simp]: "os2ip (s @ [c]) = 256 * os2ip s + of_char c"
  by (simp add: os2ip_def)

lemma os2ip_Nil [simp]: "os2ip [] = 0"
  by (simp add: os2ip_def)

lemma os2ip_append: "os2ip (s @ t) = 256 ^ length t * os2ip s + os2ip t"
proof (induction t rule: rev_induct)
  case Nil
  then show ?case by simp
next
  case (snoc c t)
  then show ?case by (simp flip: append_assoc add: algebra_simps)
qed

lemma os2ip_less: "os2ip s < 256 ^ length s"
proof (induction s rule: rev_induct)
  case Nil
  then show ?case by simp
next
  case (snoc c s)
  have "(of_char c :: nat) < 256" by (rule of_char_less)
  then have "256 * os2ip s + of_char c < 256 * (os2ip s + 1)" by simp
  also have "\<dots> \<le> 256 * 256 ^ length s" using snoc by (intro mult_le_mono) simp_all
  finally show ?case by simp
qed

lemma i2osp_os2ip: "length s = k \<Longrightarrow> i2osp k (os2ip s) = s"
proof (induction s arbitrary: k rule: rev_induct)
  case Nil
  then show ?case by (simp add: i2osp_def)
next
  case (snoc c s)
  obtain j where "k = Suc j" "length s = j" using snoc.prems by (cases k) auto
  moreover have "(of_char c :: nat) < 256" by (rule of_char_less)
  ultimately show ?case using snoc.IH [of j] by (simp add: i2osp_def)
qed

lemma length_i2osp [simp]: "length (i2osp k n) = k"
  by (simp add: i2osp_def)

section \<open>RSA signatures\<close>

record rsa_key =
  rsa_N :: nat
  rsa_E :: int

text \<open>Modular exponentiation by squaring.\<close>

function pow_mod :: "nat \<Rightarrow> nat \<Rightarrow> nat \<Rightarrow> nat" where
  "pow_mod b e n =
     (if e = 0 then 1 mod n
      else let h = pow_mod (b * b mod n) (e div 2) n in if odd e then b * h mod n else h)"
  by pat_completeness auto
termination
  by (relation "measure (\<lambda>(b, e, n). e)") auto

declare pow_mod.simps [simp del]

lemma pow_mod_eq: "pow_mod b e n = b ^ e mod n"
proof (induction b e n rule: pow_mod.induct)
  case (1 b e n)
  show ?case
  proof (cases "e = 0")
    case True
    then show ?thesis by (subst pow_mod.simps) simp
  next
    case False
    have h: "pow_mod (b * b mod n) (e div 2) n = (b ^ 2) ^ (e div 2) mod n"
      using 1 False by (simp add: power_mod power2_eq_square)
    have "b ^ e = (if odd e then b else 1) * (b ^ 2) ^ (e div 2)"
      by (cases "odd e") (auto simp flip: power_mult power_Suc)
    then show ?thesis using False h
      by (subst pow_mod.simps) (simp add: Let_def mod_mult_right_eq)
  qed
qed

text \<open>The encoded message: the padding, the header that names SHA-256, and the digest.\<close>

definition sha256_header :: string where
  "sha256_header =
     map char_of [48, 49, 48, 13, 6, 9, 96, 134, 72, 1, 101, 3, 4, 2, 1, 5, 0, 4, 32 :: nat]"

definition pkcs1v15_encode :: "nat \<Rightarrow> string \<Rightarrow> string" where
  "pkcs1v15_encode k digest =
     [CHR 0x00, CHR 0x01] @ replicate (k - 54) (CHR 0xFF) @ [CHR 0x00] @ sha256_header @ digest"

definition rsa_size :: "nat \<Rightarrow> nat" where
  "rsa_size n = floorlog 256 n"

definition rsa_verify :: "rsa_key \<Rightarrow> string \<Rightarrow> string \<Rightarrow> bool" where
  "rsa_verify key digest sig \<longleftrightarrow>
     2 ^ 1023 \<le> rsa_N key \<and> odd (rsa_N key) \<and> 2 \<le> rsa_E key \<and> odd (rsa_E key) \<and> rsa_E key < 2 ^ 31 \<and>
     length sig = rsa_size (rsa_N key) \<and> os2ip sig < rsa_N key \<and>
     i2osp (rsa_size (rsa_N key)) (pow_mod (os2ip sig) (nat (rsa_E key)) (rsa_N key)) =
       pkcs1v15_encode (rsa_size (rsa_N key)) digest"

text \<open>A signature fixes the digest it is for.\<close>

lemma rsa_verify_digest:
  assumes "rsa_verify key d sig" and "rsa_verify key d' sig"
  shows "d = d'"
  using assms by (simp add: rsa_verify_def pkcs1v15_encode_def)

end
