(* ===== verification/Oidc.thy ===== *)
theory Oidc
  imports Auth Go_Json Go_Crypto
begin

text \<open>
  \<open>internal/auth/oidc.go\<close>: bearer tokens.  The verifier keeps the issuer's keys, fetched on first use;
  that cache is its state.  The environment gives the answers of the key endpoint (transport error,
  or status and body) and the clock, per call, and the texts of the errors of \<open>encoding/base64\<close>,
  \<open>encoding/json\<close> and of \<open>%q\<close>.  Base64, JSON, SHA-256 and the signature check are modelled.
\<close>

record OIDCConfig =
  cfg_Issuer :: string
  cfg_Audience :: string
  cfg_JWKSURL :: string
  cfg_RoleMap :: "(string \<times> Role) list"

record OIDCVerifier =
  v_issuer :: string
  v_audience :: string
  v_jwksURL :: string
  v_roleMap :: "(string \<times> Role) list"

record key_cache =
  v_keys :: "(string \<times> rsa_key) list"
  v_fetched :: bool
  v_tick :: nat

record oidc_env =
  jwks_get :: "string \<Rightarrow> nat \<Rightarrow> string + (int \<times> string)"
  now_at :: "nat \<Rightarrow> time"
  b64_text :: "string \<Rightarrow> string"
  json_text :: "string \<Rightarrow> string"
  quoted :: "string \<Rightarrow> string"

definition DefaultRoleMap :: "(string \<times> Role) list" where
  "DefaultRoleMap =
     [(''amankan-admin'', RoleAdmin), (''amankan-analyst'', RoleAnalyst), (''amankan-viewer'', RoleViewer)]"

definition NewOIDCVerifier :: "OIDCConfig \<Rightarrow> OIDCVerifier \<times> key_cache" where
  "NewOIDCVerifier cfg =
     (let rm = (if length (cfg_RoleMap cfg) = 0 then DefaultRoleMap else cfg_RoleMap cfg);
          jwks = (if cfg_JWKSURL cfg = [] \<and> cfg_Issuer cfg \<noteq> []
                  then trim_right_char (CHR ''/'') (cfg_Issuer cfg) @ ''/protocol/openid-connect/certs''
                  else cfg_JWKSURL cfg)
      in (\<lparr>v_issuer = cfg_Issuer cfg, v_audience = cfg_Audience cfg, v_jwksURL = jwks, v_roleMap = rm\<rparr>,
          \<lparr>v_keys = [], v_fetched = False, v_tick = 0\<rparr>))"

section \<open>Tokens\<close>

record jwtHeader =
  hdr_Alg :: string
  hdr_Kid :: string

text \<open>\<open>aud\<close> is kept as a tree until it is looked at.\<close>

record jwtClaims =
  c_Iss :: string
  c_Sub :: string
  c_Exp :: int
  c_Aud :: "json option"
  c_Roles :: "string list"
  c_PreferredUsername :: string

definition header_fields :: "(string \<times> jwtHeader decoder) list" where
  "header_fields =
     [(''alg'', on_field hdr_Alg (\<lambda>x. hdr_Alg_update (\<lambda>_. x)) dec_string),
      (''kid'', on_field hdr_Kid (\<lambda>x. hdr_Kid_update (\<lambda>_. x)) dec_string)]"

definition claims_fields :: "(string \<times> jwtClaims decoder) list" where
  "claims_fields =
     [(''iss'', on_field c_Iss (\<lambda>x. c_Iss_update (\<lambda>_. x)) dec_string),
      (''sub'', on_field c_Sub (\<lambda>x. c_Sub_update (\<lambda>_. x)) dec_string),
      (''exp'', on_field c_Exp (\<lambda>x. c_Exp_update (\<lambda>_. x)) dec_int),
      (''aud'', on_field c_Aud (\<lambda>x. c_Aud_update (\<lambda>_. x)) (\<lambda>v _. (Some v, False))),
      (''realm_access'', on_field c_Roles (\<lambda>x. c_Roles_update (\<lambda>_. x))
         (dec_struct False [(''roles'', dec_list [] dec_string)])),
      (''preferred_username'', on_field c_PreferredUsername (\<lambda>x. c_PreferredUsername_update (\<lambda>_. x)) dec_string)]"

definition no_header :: jwtHeader where
  "no_header = \<lparr>hdr_Alg = [], hdr_Kid = []\<rparr>"

definition no_claims :: jwtClaims where
  "no_claims = \<lparr>c_Iss = [], c_Sub = [], c_Exp = 0, c_Aud = None, c_Roles = [], c_PreferredUsername = []\<rparr>"

definition decodeSegment :: "oidc_env \<Rightarrow> string \<Rightarrow> 'a decoder \<Rightarrow> 'a \<Rightarrow> string + 'a" where
  "decodeSegment env seg d z =
     (case b64url_decode seg of
        None \<Rightarrow> Inl (b64_text env seg)
      | Some data \<Rightarrow> (let (x, bad) = unmarshal d data z in if bad then Inl (json_text env data) else Inr x))"

definition audienceContains :: "json option \<Rightarrow> string \<Rightarrow> bool" where
  "audienceContains raw want =
     (case raw of
        None \<Rightarrow> False
      | Some v \<Rightarrow>
          (let (single, bad) = dec_string v []
           in if \<not> bad then single = want
              else let (many, bad') = dec_list [] dec_string v []
                   in \<not> bad' \<and> list_ex (\<lambda>a. a = want) many))"

text \<open>The highest role granted.\<close>

definition mapRoles :: "OIDCVerifier \<Rightarrow> string list \<Rightarrow> Role" where
  "mapRoles v roles =
     fold (\<lambda>r best. case map_of (v_roleMap v) r of
                      Some mapped \<Rightarrow> if best < mapped then mapped else best
                    | None \<Rightarrow> best)
       roles RoleNone"

section \<open>Keys\<close>

record jwk =
  k_Kty :: string
  k_Kid :: string
  k_N :: string
  k_E :: string

definition jwk_fields :: "(string \<times> jwk decoder) list" where
  "jwk_fields =
     [(''kty'', on_field k_Kty (\<lambda>x. k_Kty_update (\<lambda>_. x)) dec_string),
      (''kid'', on_field k_Kid (\<lambda>x. k_Kid_update (\<lambda>_. x)) dec_string),
      (''n'', on_field k_N (\<lambda>x. k_N_update (\<lambda>_. x)) dec_string),
      (''e'', on_field k_E (\<lambda>x. k_E_update (\<lambda>_. x)) dec_string)]"

definition jwks_doc :: "jwk list decoder" where
  "jwks_doc =
     dec_struct False [(''keys'', dec_list \<lparr>k_Kty = [], k_Kid = [], k_N = [], k_E = []\<rparr> (dec_struct False jwk_fields))]"

definition rsaKeyFromJWK :: "jwk \<Rightarrow> rsa_key option" where
  "rsaKeyFromJWK k =
     (case (b64url_decode (k_N k), b64url_decode (k_E k)) of
        (Some nBytes, Some eBytes) \<Rightarrow>
          (let e = os2ip eBytes
           in if 2 ^ 63 \<le> e \<or> e < 2 then None else Some \<lparr>rsa_N = os2ip nBytes, rsa_E = int e\<rparr>)
      | _ \<Rightarrow> None)"

definition refreshKeys :: "oidc_env \<Rightarrow> OIDCVerifier \<Rightarrow> key_cache \<Rightarrow> (string + unit) \<times> key_cache" where
  "refreshKeys env v st =
     (let t = v_tick st; st = st\<lparr>v_tick := Suc t\<rparr>
      in case jwks_get env (v_jwksURL v) t of
           Inl err \<Rightarrow> (Inl err, st)
         | Inr (status, body) \<Rightarrow>
             if status \<noteq> 200 then (Inl (''HTTP '' @ itoa status @ '' from JWKS endpoint''), st)
             else (let (doc, bad) = decode_first jwks_doc body []
                   in if bad then (Inl (json_text env body), st)
                      else let ks = fold (\<lambda>k m. if k_Kty k \<noteq> ''RSA'' then m
                                           else (case rsaKeyFromJWK k of
                                                   None \<Rightarrow> m
                                                 | Some pk \<Rightarrow> AList.update (k_Kid k) pk m))
                                      doc []
                           in (Inr (), st\<lparr>v_keys := ks, v_fetched := True\<rparr>)))"

definition keyForKid :: "oidc_env \<Rightarrow> OIDCVerifier \<Rightarrow> string \<Rightarrow> key_cache \<Rightarrow> (string + rsa_key) \<times> key_cache" where
  "keyForKid env v kid st =
     (let missing = ''no key for kid '' @ quoted env kid
      in case map_of (v_keys st) kid of
           Some key \<Rightarrow> (Inr key, st)
         | None \<Rightarrow>
             if v_fetched st then (Inl missing, st)
             else (case refreshKeys env v st of
                     (Inl err, st) \<Rightarrow> (Inl (''fetch JWKS: '' @ err), st)
                   | (Inr _, st) \<Rightarrow>
                       (case map_of (v_keys st) kid of
                          Some key \<Rightarrow> (Inr key, st)
                        | None \<Rightarrow> (Inl missing, st))))"

section \<open>Verification\<close>

text \<open>What the claims of a token whose signature holds are checked for, and the principal they give.\<close>

definition check_claims :: "OIDCVerifier \<Rightarrow> time \<Rightarrow> jwtClaims \<Rightarrow> string + Principal" where
  "check_claims v now cs =
     (if c_Exp cs \<noteq> 0 \<and> c_Exp cs \<le> unix_seconds now then Inl ''token expired''
      else if v_issuer v \<noteq> [] \<and> c_Iss cs \<noteq> v_issuer v then Inl ''issuer mismatch''
      else if v_audience v \<noteq> [] \<and> \<not> audienceContains (c_Aud cs) (v_audience v) then Inl ''audience mismatch''
      else let role = mapRoles v (c_Roles cs)
           in if role = RoleNone then Inl ''no recognized Amankan role in token''
              else Inr \<lparr>p_ID = (if c_PreferredUsername cs = [] then c_Sub cs else c_PreferredUsername cs), p_Role = role\<rparr>)"

definition verify :: "oidc_env \<Rightarrow> OIDCVerifier \<Rightarrow> string \<Rightarrow> key_cache \<Rightarrow> (string + Principal) \<times> key_cache" where
  "verify env v token st =
     (case split_on (CHR ''.'') token of
        [h, p, s] \<Rightarrow>
          (case decodeSegment env h (dec_struct False header_fields) no_header of
             Inl err \<Rightarrow> (Inl (''header: '' @ err), st)
           | Inr hdr \<Rightarrow>
               if hdr_Alg hdr \<noteq> ''RS256'' then (Inl (''unsupported alg '' @ quoted env (hdr_Alg hdr)), st)
               else (case keyForKid env v (hdr_Kid hdr) st of
                  (Inl err, st) \<Rightarrow> (Inl err, st)
                | (Inr key, st) \<Rightarrow>
                    (case b64url_decode s of
                       None \<Rightarrow> (Inl (''signature: '' @ b64_text env s), st)
                     | Some sig \<Rightarrow>
                         if \<not> rsa_verify key (sha256_sum (h @ ''.'' @ p)) sig
                         then (Inl ''signature verification failed'', st)
                         else (case decodeSegment env p (dec_struct False claims_fields) no_claims of
                            Inl err \<Rightarrow> (Inl (''claims: '' @ err), st)
                          | Inr cs \<Rightarrow> (check_claims v (now_at env (v_tick st)) cs, st\<lparr>v_tick := Suc (v_tick st)\<rparr>)))))
      | _ \<Rightarrow> (Inl ''malformed JWT'', st))"

section \<open>The middlewares\<close>

definition oidc_Authenticate ::
  "oidc_env \<Rightarrow> OIDCVerifier \<Rightarrow> (Principal, key_cache \<times> 's) handler \<Rightarrow> (Principal, key_cache \<times> 's) handler" where
  "oidc_Authenticate env v next_h r ws =
     (if r_method r = MethodOptions then next_h r ws
      else let tok = bearer r; (w, st, s) = ws
           in if tok = [] then (writeError 401 ''missing bearer token'' w, st, s)
              else (case verify env v tok st of
                      (Inl err, st) \<Rightarrow> (writeError 401 (''invalid token: '' @ err) w, st, s)
                    | (Inr p, st) \<Rightarrow> next_h (r\<lparr>r_ctx := Some p\<rparr>) (w, st, s)))"

definition oidc_Require ::
  "Role \<Rightarrow> (Principal, key_cache \<times> 's) handler \<Rightarrow> (Principal, key_cache \<times> 's) handler" where
  "oidc_Require min_role next_h r ws =
     (if r_method r = MethodOptions then next_h r ws
      else (case principalFrom r of
              None \<Rightarrow> (writeError 401 ''authentication required'' (fst ws), snd ws)
            | Some p \<Rightarrow>
                if p_Role p < min_role
                then (writeError 403 (''insufficient role: '' @ role_string min_role @ '' required'') (fst ws), snd ws)
                else next_h r ws))"

definition token_resolve ::
  "oidc_env \<Rightarrow> OIDCVerifier \<Rightarrow> request \<Rightarrow> key_cache \<times> 's \<Rightarrow> (string + Principal) \<times> key_cache \<times> 's" where
  "token_resolve env v r cs =
     (let tok = bearer r
      in if tok = [] then (Inl ''missing bearer token'', cs)
         else (case verify env v tok (fst cs) of
                 (Inl err, st) \<Rightarrow> (Inl (''invalid token: '' @ err), st, snd cs)
               | (Inr p, st) \<Rightarrow> (Inr p, st, snd cs)))"

text \<open>Tokens keep the promise the router relies on: the guards of the locale hold for them too.\<close>

interpretation tokens: auth_provider "oidc_Authenticate env v" oidc_Require True "token_resolve env v" snd
  for env :: oidc_env and v :: OIDCVerifier
  by unfold_locales
    (auto simp: oidc_Authenticate_def oidc_Require_def token_resolve_def principalFrom_def Let_def
        split: option.splits sum.splits prod.splits if_splits)

section \<open>Roles\<close>

lemma mapRoles_fold:
  "fold (\<lambda>r best. case map_of rm r of Some mapped \<Rightarrow> if best < mapped then mapped else best | None \<Rightarrow> best) roles b
   = Max (insert b {q. \<exists>r \<in> set roles. map_of rm r = Some q})"
proof (induction roles arbitrary: b)
  case Nil
  then show ?case by simp
next
  case (Cons r rs)
  have f: "finite {q. \<exists>r \<in> set rs. map_of rm r = Some q}"
    by (rule finite_subset [of _ "(\<lambda>r. the (map_of rm r)) ` set rs"]) (auto intro: rev_image_eqI)
  show ?case
  proof (cases "map_of rm r")
    case None
    then have "{q. \<exists>x \<in> set (r # rs). map_of rm x = Some q} = {q. \<exists>x \<in> set rs. map_of rm x = Some q}" by auto
    with None Cons show ?thesis by simp
  next
    case (Some q)
    then have s: "insert b {q. \<exists>x \<in> set (r # rs). map_of rm x = Some q} =
        insert b (insert q {q. \<exists>x \<in> set rs. map_of rm x = Some q})" by auto
    have "(if b < q then q else b) = max b q" by (auto simp: max_def not_less less_imp_le)
    then show ?thesis using Some Cons f unfolding s
      by (cases "{q. \<exists>x \<in> set rs. map_of rm x = Some q} = {}") (simp_all add: max.assoc max.commute max.left_commute)
  qed
qed

lemma mapRoles_Max: "mapRoles v roles = Max (insert RoleNone {q. \<exists>r \<in> set roles. map_of (v_roleMap v) r = Some q})"
  by (simp add: mapRoles_def mapRoles_fold)

section \<open>The cache\<close>

lemma keyForKid_cached: "map_of (v_keys st) kid = Some key \<Longrightarrow> keyForKid env v kid st = (Inr key, st)"
  by (simp add: keyForKid_def)

lemma keyForKid_fetched:
  "v_fetched st \<Longrightarrow> keyForKid env v kid st =
     (case map_of (v_keys st) kid of
        Some key \<Rightarrow> (Inr key, st) | None \<Rightarrow> (Inl (''no key for kid '' @ quoted env kid), st))"
  by (simp add: keyForKid_def split: option.split)

text \<open>A key that is handed out is the cached one afterwards.\<close>

lemma keyForKid_Inr: "keyForKid env v kid st = (Inr key, st') \<Longrightarrow> map_of (v_keys st') kid = Some key"
  by (auto simp: keyForKid_def Let_def split: option.splits sum.splits prod.splits if_splits)

lemma verify_keys_fixed:
  assumes "v_fetched st"
  shows "v_keys (snd (verify env v token st)) = v_keys st \<and> v_fetched (snd (verify env v token st))"
  using assms
  by (auto simp: verify_def keyForKid_fetched Let_def split: list.splits option.splits sum.splits prod.splits if_splits)

section \<open>What an accepted token shows\<close>

text \<open>The three parts of a token, decoded, with the key its header names signing the first two.\<close>

definition signed_token :: "oidc_env \<Rightarrow> rsa_key \<Rightarrow> string \<Rightarrow> string \<Rightarrow> string \<Rightarrow> jwtHeader \<Rightarrow> jwtClaims \<Rightarrow> bool" where
  "signed_token env key h p s hdr cs \<longleftrightarrow>
     decodeSegment env h (dec_struct False header_fields) no_header = Inr hdr \<and> hdr_Alg hdr = ''RS256'' \<and>
     (\<exists>sig. b64url_decode s = Some sig \<and> rsa_verify key (sha256_sum (h @ ''.'' @ p)) sig) \<and>
     decodeSegment env p (dec_struct False claims_fields) no_claims = Inr cs"

lemma check_claims_Inr:
  "check_claims v now cs = Inr pr \<longleftrightarrow>
     (c_Exp cs = 0 \<or> unix_seconds now < c_Exp cs) \<and>
     (v_issuer v = [] \<or> c_Iss cs = v_issuer v) \<and>
     (v_audience v = [] \<or> audienceContains (c_Aud cs) (v_audience v)) \<and>
     mapRoles v (c_Roles cs) \<noteq> RoleNone \<and>
     pr = \<lparr>p_ID = (if c_PreferredUsername cs = [] then c_Sub cs else c_PreferredUsername cs), p_Role = mapRoles v (c_Roles cs)\<rparr>"
  by (auto simp: check_claims_def Let_def)

lemma verify_Inr:
  "verify env v token st = (Inr pr, st') \<longleftrightarrow>
     (\<exists>h p s hdr key cs st1.
        split_on (CHR ''.'') token = [h, p, s] \<and> signed_token env key h p s hdr cs \<and>
        keyForKid env v (hdr_Kid hdr) st = (Inr key, st1) \<and>
        check_claims v (now_at env (v_tick st1)) cs = Inr pr \<and> st' = st1\<lparr>v_tick := Suc (v_tick st1)\<rparr>)"
proof
  assume "verify env v token st = (Inr pr, st')"
  then show "\<exists>h p s hdr key cs st1.
        split_on (CHR ''.'') token = [h, p, s] \<and> signed_token env key h p s hdr cs \<and>
        keyForKid env v (hdr_Kid hdr) st = (Inr key, st1) \<and>
        check_claims v (now_at env (v_tick st1)) cs = Inr pr \<and> st' = st1\<lparr>v_tick := Suc (v_tick st1)\<rparr>"
    by (auto simp: verify_def signed_token_def split: list.splits option.splits sum.splits prod.splits if_splits)
next
  assume "\<exists>h p s hdr key cs st1.
        split_on (CHR ''.'') token = [h, p, s] \<and> signed_token env key h p s hdr cs \<and>
        keyForKid env v (hdr_Kid hdr) st = (Inr key, st1) \<and>
        check_claims v (now_at env (v_tick st1)) cs = Inr pr \<and> st' = st1\<lparr>v_tick := Suc (v_tick st1)\<rparr>"
  then show "verify env v token st = (Inr pr, st')"
    by (auto simp: verify_def signed_token_def)
qed

section \<open>Properties\<close>

lemma split_on_sep: "split_on c (a @ c # b) = split_on c a @ split_on c b"
  by (induction a) (auto split: list.split)

lemma split_on_single: "split_on c s = [x] \<Longrightarrow> x = s"
  using join_split_on [of c s] by simp

lemma split_on_three:
  assumes "split_on c (h @ c # p @ c # g) = [x, y, z]"
  shows "x = h \<and> y = p \<and> z = g"
proof -
  have e: "split_on c h @ split_on c p @ split_on c g = [x, y, z]" using assms by (simp add: split_on_sep)
  obtain a as b bs d ds where l: "split_on c h = a # as" "split_on c p = b # bs" "split_on c g = d # ds"
    by (metis split_on_nonempty list.exhaust)
  then have "length as + length bs + length ds = 0" using arg_cong [OF e, of length] by simp
  with l e have "split_on c h = [x]" "split_on c p = [y]" "split_on c g = [z]" by auto
  then show ?thesis by (auto dest: split_on_single)
qed

lemma mapRoles_granted:
  assumes "m \<le> mapRoles v roles" and "mapRoles v roles \<noteq> RoleNone"
  shows "\<exists>role \<in> set roles. \<exists>q. map_of (v_roleMap v) role = Some q \<and> m \<le> q"
proof -
  let ?Q = "{q. \<exists>r \<in> set roles. map_of (v_roleMap v) r = Some q}"
  have "finite ?Q"
    by (rule finite_subset [of _ "(\<lambda>r. the (map_of (v_roleMap v) r)) ` set roles"]) (auto intro: rev_image_eqI)
  then have "mapRoles v roles \<in> insert RoleNone ?Q" using Max_in [of "insert RoleNone ?Q"] by (simp add: mapRoles_Max)
  then show ?thesis using assms by auto
qed

text \<open>C11: With tokens, a guarded handler changes the program's state only for a bearer token of three parts whose
  header says RS256, whose first two parts are signed by the key cached for the header's key id, that
  has not expired, names the configured issuer and audience (where they are configured) and holds a
  realm role that is mapped to at least the role required.\<close>

theorem token_guard:
  assumes "r_method r \<noteq> MethodOptions"
    and "snd (snd (oidc_Authenticate env v (oidc_Require m next_h) r (w, st, s))) \<noteq> s"
  defines "st' \<equiv> snd (verify env v (bearer r) st)"
  shows "\<exists>h p g hdr key cs. split_on (CHR ''.'') (bearer r) = [h, p, g] \<and> signed_token env key h p g hdr cs \<and>
      map_of (v_keys st') (hdr_Kid hdr) = Some key \<and>
      (c_Exp cs = 0 \<or> unix_seconds (now_at env (v_tick st' - 1)) < c_Exp cs) \<and>
      (v_issuer v = [] \<or> c_Iss cs = v_issuer v) \<and>
      (v_audience v = [] \<or> audienceContains (c_Aud cs) (v_audience v)) \<and>
      (\<exists>role \<in> set (c_Roles cs). \<exists>q. map_of (v_roleMap v) role = Some q \<and> m \<le> q)"
proof -
  have "\<not> (\<forall>p. fst (token_resolve env v r (st, s)) = Inr p \<longrightarrow> p_Role p < m)"
    using tokens.refused_core(1) [of r env v "(st, s)" m next_h w] assms(1,2) by auto
  then obtain pr where "fst (token_resolve env v r (st, s)) = Inr pr" and m: "m \<le> p_Role pr"
    by (auto simp: not_less)
  then have ok: "verify env v (bearer r) st = (Inr pr, st')"
    by (auto simp: token_resolve_def st'_def Let_def split: if_splits prod.splits sum.splits)
  then obtain h p g hdr key cs st1 where sp: "split_on (CHR ''.'') (bearer r) = [h, p, g]"
      and sg: "signed_token env key h p g hdr cs" and k: "keyForKid env v (hdr_Kid hdr) st = (Inr key, st1)"
      and c: "check_claims v (now_at env (v_tick st1)) cs = Inr pr" and st': "st' = st1\<lparr>v_tick := Suc (v_tick st1)\<rparr>"
    by (auto simp: verify_Inr)
  note cc = c [unfolded check_claims_Inr]
  have role: "\<exists>role \<in> set (c_Roles cs). \<exists>q. map_of (v_roleMap v) role = Some q \<and> m \<le> q"
    using mapRoles_granted [of m v "c_Roles cs"] m cc by simp
  have "map_of (v_keys st') (hdr_Kid hdr) = Some key" using keyForKid_Inr [OF k] st' by simp
  moreover have "v_tick st' - 1 = v_tick st1" using st' by simp
  ultimately show ?thesis using sp sg cc role by metis
qed


text \<open>The cache after a sequence of tokens.\<close>

definition verify_all :: "oidc_env \<Rightarrow> OIDCVerifier \<Rightarrow> string list \<Rightarrow> key_cache \<Rightarrow> key_cache" where
  "verify_all env v tokens st = fold (\<lambda>t s. snd (verify env v t s)) tokens st"

lemma verify_all_fixed:
  "v_fetched st \<Longrightarrow> v_keys (verify_all env v tokens st) = v_keys st \<and> v_fetched (verify_all env v tokens st)"
  unfolding verify_all_def
proof (induction tokens arbitrary: st)
  case (Cons t ts)
  then show ?case using verify_keys_fixed [of st env v t] by auto
qed simp

text \<open>Once the key table has been fetched it never changes, whatever tokens arrive: a token signed with a key the
  issuer has introduced since is refused, and the endpoint is not asked again.\<close>

theorem keys_pinned:
  fixes env tokens v st
  defines "st' \<equiv> verify_all env v tokens st"
  assumes "v_fetched st"
  shows "v_keys st' = v_keys st \<and>
    (\<forall>h p g hdr. split_on (CHR ''.'') token = [h, p, g] \<longrightarrow>
       decodeSegment env h (dec_struct False header_fields) no_header = Inr hdr \<longrightarrow> hdr_Alg hdr = ''RS256'' \<longrightarrow>
       map_of (v_keys st) (hdr_Kid hdr) = None \<longrightarrow>
       verify env v token st' = (Inl (''no key for kid '' @ quoted env (hdr_Kid hdr)), st'))"
  using verify_all_fixed [OF assms(2), of env v tokens] unfolding st'_def [symmetric]
  by (auto simp: verify_def keyForKid_fetched)

section \<open>A concrete token\<close>

text \<open>
  The token names the key \<open>k\<close> and grants \<open>amankan-admin\<close>.  Its key is made for it: with the encoded
  message \<open>m\<close> of its digest and a number \<open>s\<close>, the modulus \<open>s ^ 3 - m\<close> and the exponent 3 make \<open>s\<close> a
  signature.  So the example needs no value of the digest.
\<close>

definition sample_text :: string where
  "sample_text = ''eyJhbGciOiJSUzI1NiIsImtpZCI6ImsifQ.eyJyZWFsbV9hY2Nlc3MiOnsicm9sZXMiOlsiYW1hbmthbi1hZG1pbiJdfX0''"

definition sample_em :: nat where
  "sample_em = os2ip (pkcs1v15_encode 128 (sha256_sum sample_text))"

definition sample_s :: nat where
  "sample_s = 2 ^ 341 + 2 ^ 330 + (if even sample_em then 1 else 0)"

definition sample_key :: rsa_key where
  "sample_key = \<lparr>rsa_N = sample_s ^ 3 - sample_em, rsa_E = 3\<rparr>"

definition sample_sig :: string where
  "sample_sig = replicate 112 (CHR ''A'') @ ''ACAE'' @ replicate 54 (CHR ''A'') @ (if even sample_em then ''E'' else ''A'')"

definition sample_token :: string where
  "sample_token = sample_text @ ''.'' @ sample_sig"

definition sample_verifier :: OIDCVerifier where
  "sample_verifier = fst (NewOIDCVerifier \<lparr>cfg_Issuer = [], cfg_Audience = [], cfg_JWKSURL = [], cfg_RoleMap = []\<rparr>)"

definition sample_env :: oidc_env where
  "sample_env = \<lparr>jwks_get = (\<lambda>u t. Inl ''offline''), now_at = (\<lambda>t. 0), b64_text = (\<lambda>s. s), json_text = (\<lambda>s. s), quoted = (\<lambda>s. s)\<rparr>"

definition sample_cache :: key_cache where
  "sample_cache = \<lparr>v_keys = [(''k'', sample_key)], v_fetched = True, v_tick = 0\<rparr>"

lemma sample_em_bound: "sample_em < 2 ^ 1009"
proof -
  let ?t = "replicate 74 (CHR 0xFF) @ [CHR 0x00] @ sha256_header @ sha256_sum sample_text"
  have "pkcs1v15_encode 128 (sha256_sum sample_text) = [CHR 0x00, CHR 0x01] @ ?t"
    by (simp add: pkcs1v15_encode_def)
  moreover have "length ?t = 126" by (simp add: sha256_header_def)
  moreover have "os2ip [CHR 0x00, CHR 0x01] = 1" by (simp add: os2ip_def)
  ultimately have "sample_em = 256 ^ 126 + os2ip ?t" unfolding sample_em_def
    by (metis os2ip_append mult.right_neutral)
  moreover have "os2ip ?t < 256 ^ 126" using os2ip_less [of ?t] by (simp add: sha256_header_def)
  ultimately show ?thesis by simp
qed

lemma sample_s_bounds: "2 ^ 341 + 2 ^ 330 \<le> sample_s \<and> sample_s \<le> 2 ^ 341 + 2 ^ 330 + 1"
  by (simp add: sample_s_def)

lemma sample_n_bounds: "2 ^ 1023 \<le> rsa_N sample_key \<and> rsa_N sample_key < 256 ^ 128 \<and> sample_em < rsa_N sample_key \<and>
    sample_s ^ 3 = rsa_N sample_key + sample_em"
proof -
  have "(2 ^ 341 + 2 ^ 330) ^ 3 \<le> sample_s ^ 3" "sample_s ^ 3 \<le> (2 ^ 341 + 2 ^ 330 + 1) ^ 3"
    by (rule power_mono [OF _ le0], use sample_s_bounds in blast)+
  moreover have "(2 :: nat) ^ 1023 + 2 ^ 1009 \<le> (2 ^ 341 + 2 ^ 330) ^ 3" "(2 ^ 341 + 2 ^ 330 + 1) ^ 3 < (256 :: nat) ^ 128"
    by simp_all
  ultimately have b: "2 ^ 1023 + 2 ^ 1009 \<le> sample_s ^ 3" "sample_s ^ 3 < 256 ^ 128" by linarith+
  have "(2 :: nat) ^ 1009 \<le> 2 ^ 1023" by simp
  with b sample_em_bound show ?thesis unfolding sample_key_def rsa_key.select_convs by linarith
qed


lemma os2ip_zeros: "os2ip (replicate k (CHR 0x00) @ t) = os2ip t"
  by (induction k) (simp_all add: os2ip_def)

lemma os2ip_shift: "os2ip (t @ replicate k (CHR 0x00)) = 256 ^ k * os2ip t"
  using os2ip_zeros [of k "[]"] by (simp add: os2ip_append)

definition sample_bytes :: string where
  "sample_bytes = replicate 85 (CHR 0x00) @ ([CHR 0x20, CHR 0x04] @ replicate 40 (CHR 0x00)) @
     [if even sample_em then CHR 0x01 else CHR 0x00]"

lemma sample_sig_decode: "b64url_decode sample_sig = Some sample_bytes"
proof (cases "even sample_em")
  case True
  have "b64url_decode (replicate 112 (CHR ''A'') @ ''ACAE'' @ replicate 54 (CHR ''A'') @ ''E'') =
      Some (replicate 85 (CHR 0x00) @ ([CHR 0x20, CHR 0x04] @ replicate 40 (CHR 0x00)) @ [CHR 0x01])"
    by code_simp
  with True show ?thesis by (simp add: sample_sig_def sample_bytes_def)
next
  case False
  have "b64url_decode (replicate 112 (CHR ''A'') @ ''ACAE'' @ replicate 54 (CHR ''A'') @ ''A'') =
      Some (replicate 85 (CHR 0x00) @ ([CHR 0x20, CHR 0x04] @ replicate 40 (CHR 0x00)) @ [CHR 0x00])"
    by code_simp
  with False show ?thesis by (simp add: sample_sig_def sample_bytes_def)
qed

lemma os2ip_sample_bytes: "os2ip sample_bytes = sample_s"
proof -
  have "os2ip [CHR 0x20, CHR 0x04] = 8196" by (simp add: os2ip_def)
  then have "os2ip ([CHR 0x20, CHR 0x04] @ replicate 40 (CHR 0x00)) = 256 ^ 40 * 8196" using os2ip_shift by metis
  then show ?thesis unfolding sample_bytes_def os2ip_zeros
    by (simp only: os2ip_snoc) (simp add: sample_s_def)
qed

lemma sample_signed: "rsa_verify sample_key (sha256_sum sample_text) sample_bytes"
proof -
  let ?n = "rsa_N sample_key"
  have "(256 :: nat) ^ (128 - 1) \<le> 2 ^ 1023" by simp
  then have "256 ^ (128 - 1) \<le> ?n" using sample_n_bounds order_trans by blast
  then have "128 \<le> floorlog 256 ?n" by (rule floorlog_geI) simp
  moreover have "floorlog 256 ?n \<le> 128" using sample_n_bounds by (intro floorlog_leI) simp_all
  ultimately have size: "rsa_size ?n = 128" unfolding rsa_size_def by (rule antisym [rotated])
  have "sample_s < ?n"
  proof -
    have "sample_s \<le> 2 ^ 341 + 2 ^ 330 + 1" using sample_s_bounds by blast
    also have "(2 ^ 341 + 2 ^ 330 + 1 :: nat) < 2 ^ 1023" by simp
    finally show ?thesis using sample_n_bounds by linarith
  qed
  moreover have "odd ?n"
  proof -
    have "even (?n + sample_em) \<longleftrightarrow> even sample_s" using sample_n_bounds by (metis even_power zero_less_numeral)
    moreover have "even sample_s \<longleftrightarrow> odd sample_em" by (simp add: sample_s_def)
    ultimately show ?thesis by auto
  qed
  moreover have "sample_s ^ 3 mod ?n = sample_em"
    using sample_n_bounds by (metis mod_add_self1 mod_less)
  moreover have "i2osp 128 sample_em = pkcs1v15_encode 128 (sha256_sum sample_text)"
    unfolding sample_em_def by (rule i2osp_os2ip) (simp add: pkcs1v15_encode_def sha256_header_def)
  moreover have "length sample_bytes = 128" by (simp add: sample_bytes_def)
  moreover have "rsa_E sample_key = 3" by (simp add: sample_key_def)
  moreover have "2 ^ 1023 \<le> ?n" using sample_n_bounds by blast
  ultimately show ?thesis unfolding rsa_verify_def size pow_mod_eq os2ip_sample_bytes
    by (intro conjI) simp_all
qed

definition sample_claims :: jwtClaims where
  "sample_claims = no_claims\<lparr>c_Roles := [''amankan-admin'']\<rparr>"

lemma sample_header:
  "decodeSegment sample_env ''eyJhbGciOiJSUzI1NiIsImtpZCI6ImsifQ'' (dec_struct False header_fields) no_header =
     Inr \<lparr>hdr_Alg = ''RS256'', hdr_Kid = ''k''\<rparr>"
  by code_simp

lemma sample_payload:
  "decodeSegment sample_env ''eyJyZWFsbV9hY2Nlc3MiOnsicm9sZXMiOlsiYW1hbmthbi1hZG1pbiJdfX0''
     (dec_struct False claims_fields) no_claims = Inr sample_claims"
  by code_simp

lemma sample_split:
  "split_on (CHR ''.'') sample_token =
     [''eyJhbGciOiJSUzI1NiIsImtpZCI6ImsifQ'', ''eyJyZWFsbV9hY2Nlc3MiOnsicm9sZXMiOlsiYW1hbmthbi1hZG1pbiJdfX0'', sample_sig]"
proof -
  have "CHR ''.'' \<notin> set sample_sig" by (simp add: sample_sig_def)
  then have "split_on (CHR ''.'') sample_sig = [sample_sig]" by (rule split_on_none)
  then show ?thesis by (simp add: sample_token_def sample_text_def)
qed

lemma sample_accepted:
  "verify sample_env sample_verifier sample_token sample_cache =
     (Inr \<lparr>p_ID = [], p_Role = RoleAdmin\<rparr>, sample_cache\<lparr>v_tick := 1\<rparr>)"
proof -
  have "keyForKid sample_env sample_verifier ''k'' sample_cache = (Inr sample_key, sample_cache)"
    by (rule keyForKid_cached) (simp add: sample_cache_def)
  moreover have "check_claims sample_verifier 0 sample_claims = Inr \<lparr>p_ID = [], p_Role = RoleAdmin\<rparr>" by code_simp
  moreover have "now_at sample_env t = 0" for t by (simp add: sample_env_def)
  moreover have "v_tick sample_cache = 0" by (simp add: sample_cache_def)
  ultimately show ?thesis using sample_signed [unfolded sample_text_def]
    by (simp add: verify_def sample_split sample_header sample_payload sample_sig_decode)
qed

definition sample_request :: request where
  "sample_request = \<lparr>r_method = MethodGet, r_path = ''/api/v1/assets'', r_query = [],
     r_headers = [(''Authorization'', ''Bearer '' @ sample_token)], r_remote = ''10.0.0.1:4000'', r_body = [],
     r_limit = None, r_ctx = None\<rparr>"

lemma sample_bearer: "bearer sample_request = sample_token"
proof -
  have "list_all visible sample_text" by code_simp
  then have v: "visible c" if "c \<in> set sample_token" for c
    using that by (auto simp: sample_token_def sample_sig_def list_all_iff visible_def split: if_splits)
  then have "trim_space sample_token = sample_token" by (rule trim_space_visible)
  then show ?thesis by (simp add: bearer_def sample_request_def get_first_def has_prefix_def trim_prefix_def)
qed

theorem token_guard_witness:
  "\<exists>h p g hdr key cs. split_on (CHR ''.'') (bearer sample_request) = [h, p, g] \<and>
      signed_token sample_env key h p g hdr cs \<and>
      map_of (v_keys (snd (verify sample_env sample_verifier (bearer sample_request) sample_cache))) (hdr_Kid hdr) = Some key \<and>
      (c_Exp cs = 0 \<or> unix_seconds (now_at sample_env
         (v_tick (snd (verify sample_env sample_verifier (bearer sample_request) sample_cache)) - 1)) < c_Exp cs) \<and>
      (v_issuer sample_verifier = [] \<or> c_Iss cs = v_issuer sample_verifier) \<and>
      (v_audience sample_verifier = [] \<or> audienceContains (c_Aud cs) (v_audience sample_verifier)) \<and>
      (\<exists>role \<in> set (c_Roles cs). \<exists>q. map_of (v_roleMap sample_verifier) role = Some q \<and> RoleAnalyst \<le> q)"
proof (rule token_guard)
  show "r_method sample_request \<noteq> MethodOptions" by (simp add: sample_request_def)
  show "snd (snd (oidc_Authenticate sample_env sample_verifier
      (oidc_Require RoleAnalyst (\<lambda>r (w, st, n). (w, st, Suc n))) sample_request (new_writer, sample_cache, 0 :: nat))) \<noteq> 0"
    by (simp add: oidc_Authenticate_def oidc_Require_def sample_bearer sample_accepted principalFrom_def)
      (simp add: sample_request_def sample_token_def sample_text_def less_Role_def)
qed


theorem keys_pinned_witness:
  "v_keys (verify_all sample_env sample_verifier [sample_token] sample_cache) = v_keys sample_cache \<and>
   verify sample_env sample_verifier sample_token
     (verify_all sample_env sample_verifier [sample_token] (sample_cache\<lparr>v_keys := []\<rparr>)) =
     (Inl ''no key for kid k'', verify_all sample_env sample_verifier [sample_token] (sample_cache\<lparr>v_keys := []\<rparr>))"
  using keys_pinned [of sample_cache sample_env sample_verifier "[sample_token]" sample_token]
    keys_pinned [of "sample_cache\<lparr>v_keys := []\<rparr>" sample_env sample_verifier "[sample_token]" sample_token]
    sample_split sample_header
  by (simp add: sample_cache_def sample_env_def)

end
