(* ===== verification/Go_Net.thy ===== *)
theory Go_Net
  imports Go_Strconv
begin

text \<open>
  \<open>net.IP\<close>: an address is its bytes, 4 or 16; \<open>parse_ip\<close> is \<open>net.ParseIP\<close> (through
  \<open>netip.ParseAddr\<close>), which gives 16 bytes, an IPv4 address in its mapped form.
\<close>

type_synonym ip = "nat list"

definition mapped_prefix :: "nat list" where
  "mapped_prefix = replicate 10 0 @ [255, 255]"

definition to4 :: "ip \<Rightarrow> ip option" where
  "to4 a =
     (if length a = 4 then Some a
      else if length a = 16 \<and> take 12 a = mapped_prefix then Some (drop 12 a)
      else None)"

definition is_loopback :: "ip \<Rightarrow> bool" where
  "is_loopback a \<longleftrightarrow> (case to4 a of Some v \<Rightarrow> hd v = 127 | None \<Rightarrow> a = replicate 15 0 @ [1])"

text \<open>RFC 1918 and RFC 4193.\<close>

definition is_private :: "ip \<Rightarrow> bool" where
  "is_private a \<longleftrightarrow>
     (case to4 a of
        Some v \<Rightarrow> v ! 0 = 10 \<or> (v ! 0 = 172 \<and> v ! 1 div 16 = 1) \<or> (v ! 0 = 192 \<and> v ! 1 = 168)
      | None \<Rightarrow> length a = 16 \<and> a ! 0 div 2 = 126)"

section \<open>Parsing\<close>

text \<open>One field of a dotted address: up to 255, no leading zero.\<close>

definition parse_octet :: "string \<Rightarrow> nat option" where
  "parse_octet f =
     (if f = [] \<or> \<not> list_all is_digit f \<or> (1 < length f \<and> hd f = CHR ''0'') \<or> 255 < digits_val f then None
      else Some (digits_val f))"

definition parse_ipv4 :: "string \<Rightarrow> nat list option" where
  "parse_ipv4 s =
     (case map parse_octet (split_on (CHR ''.'') s) of
        [Some a, Some b, Some c, Some d] \<Rightarrow> Some [a, b, c, d]
      | _ \<Rightarrow> None)"

text \<open>
  The groups of an IPv6 address: the bytes so far, where the double colon was, the rest of the text.
  Eight groups fill the address, so eight steps are enough.
\<close>

fun parse_groups :: "nat \<Rightarrow> nat list \<Rightarrow> nat option \<Rightarrow> string \<Rightarrow> (nat list \<times> nat option) option" where
  "parse_groups n bs e s =
     (let h = takeWhile is_hex_digit s; r = dropWhile is_hex_digit s; v = fold (\<lambda>c m. 16 * m + hex_val c) h 0
      in if n = 0 \<or> h = [] \<or> 4 < length h then None
         else if take 1 r = ''.'' then
           (if (e = None \<and> length bs \<noteq> 12) \<or> 12 < length bs then None
            else (case parse_ipv4 s of None \<Rightarrow> None | Some v4 \<Rightarrow> Some (bs @ v4, e)))
         else let bs = bs @ [v div 256, v mod 256]
              in if r = [] then Some (bs, e)
                 else if hd r \<noteq> CHR '':'' \<or> length r = 1 then None
                 else let r = tl r
                      in if hd r = CHR '':'' then
                           (if e \<noteq> None then None
                            else if tl r = [] then Some (bs, Some (length bs))
                            else parse_groups (n - 1) bs (Some (length bs)) (tl r))
                         else parse_groups (n - 1) bs e r)"

definition fill_zeros :: "nat list \<times> nat option \<Rightarrow> nat list option" where
  "fill_zeros be =
     (let (bs, e) = be
      in case e of
           None \<Rightarrow> if length bs = 16 then Some bs else None
         | Some i \<Rightarrow> if length bs < 16 then Some (take i bs @ replicate (16 - length bs) 0 @ drop i bs) else None)"

definition parse_ipv6 :: "string \<Rightarrow> nat list option" where
  "parse_ipv6 s =
     (let lead = (take 2 s = ''::''); r = (if lead then drop 2 s else s)
      in if lead \<and> r = [] then Some (replicate 16 0)
         else (case parse_groups 8 [] (if lead then Some 0 else None) r of
                 None \<Rightarrow> None
               | Some be \<Rightarrow> fill_zeros be))"

definition parse_ip :: "string \<Rightarrow> ip option" where
  "parse_ip s =
     (case dropWhile (\<lambda>c. c \<notin> set ''.:%'') s of
        [] \<Rightarrow> None
      | c # _ \<Rightarrow>
          if c = CHR ''.'' then map_option (\<lambda>v. mapped_prefix @ v) (parse_ipv4 s)
          else if c = CHR '':'' then parse_ipv6 s
          else None)"

lemma parse_ip_examples:
  "parse_ip ''10.0.1.7'' = Some (mapped_prefix @ [10, 0, 1, 7])"
  "parse_ip ''10.0.1.07'' = None"
  "parse_ip ''::1'' = Some (replicate 15 0 @ [1])"
  "parse_ip ''1::2::3'' = None"
  by code_simp+

lemma parse_ipv4_bytes: "parse_ipv4 s = Some v \<Longrightarrow> length v = 4 \<and> (\<forall>b \<in> set v. b \<le> 255)"
  by (auto simp: parse_ipv4_def parse_octet_def split: list.splits option.splits if_splits)

lemma to4_mapped: "length v = 4 \<Longrightarrow> to4 (mapped_prefix @ v) = Some v"
  by (simp add: to4_def mapped_prefix_def)

end
