(* ===== verification/Scanner.thy ===== *)
theory Scanner
  imports Models Go_Json Go_Net
begin

text \<open>
  \<open>internal/scanner\<close>: the four tool adapters behind one interface.  The environment holds what is
  outside the program: the binaries on the path, what running one gives (output and error), name
  resolution, TLS handshakes, and the texts of \<open>%q\<close> and of errors.  A scan returns its result with the
  list of contacts it made, the programs run and the hosts dialled, which is what the authorisation
  rule is about.
\<close>

record RawResult =
  raw_Scanner :: ScannerType
  raw_Format :: string
  raw_Data :: string
  raw_Mock :: bool

record Options =
  NmapBin :: string
  NucleiBin :: string
  GitleaksBin :: string
  AllowLiveScan :: bool
  Production :: bool
  ScanAuthorized :: bool

text \<open>\<open>exec.ExitError\<close> carries the exit code; any other failure does not.\<close>

datatype run_error = ExitError int | RunError

record scan_env =
  look_path :: "string \<Rightarrow> string option"
  run_cmd :: "string \<Rightarrow> string list \<Rightarrow> string \<times> run_error option"
  lookup_ip :: "string \<Rightarrow> ip list option"
  tls_dial :: "string \<Rightarrow> (nat \<times> nat) option"
  quote_text :: "string \<Rightarrow> string"
  error_text :: "run_error \<Rightarrow> string"

datatype contact = Exec string "string list" | Dial string

type_synonym scan_outcome = "(string + RawResult) \<times> contact list"

abbreviation nl :: string where "nl \<equiv> [CHR 0x0A]"

definition error_verb :: "scan_env \<Rightarrow> run_error option \<Rightarrow> string" where
  "error_verb env e = (case e of None \<Rightarrow> ''%!w(<nil>)'' | Some x \<Rightarrow> error_text env x)"

section \<open>What may be scanned\<close>

definition isSafeTarget :: "scan_env \<Rightarrow> string \<Rightarrow> bool" where
  "isSafeTarget env target =
     (let host = trim_prefix (trim_prefix target ''http://'') ''https://'';
          host = cut_any ''/:'' host
      in if host = ''localhost'' then True
         else case (case lookup_ip env host of
                      Some ips \<Rightarrow> Some ips
                    | None \<Rightarrow> map_option (\<lambda>a. [a]) (parse_ip host)) of
                None \<Rightarrow> False
              | Some ips \<Rightarrow> list_ex (\<lambda>a. is_loopback a \<or> is_private a) ips)"

definition liveAllowed :: "scan_env \<Rightarrow> Options \<Rightarrow> Asset \<Rightarrow> bool" where
  "liveAllowed env opts a =
     (if \<not> AllowLiveScan opts then False
      else if ScanAuthorized opts \<or> a_ScanAuthorized a then True
      else isSafeTarget env (a_Target a))"

text \<open>The case without a real scan: an error in production, mock data in development.\<close>

definition fallback :: "Options \<Rightarrow> RawResult \<Rightarrow> string \<Rightarrow> string \<Rightarrow> string + RawResult" where
  "fallback opts res mockData reason =
     (if Production opts
      then Inl (raw_Scanner res @ '': cannot run real scan ('' @ reason @ '') and mock is disabled in production'')
      else Inr (res\<lparr>raw_Data := mockData, raw_Mock := True\<rparr>))"

definition blank_result :: "ScannerType \<Rightarrow> string \<Rightarrow> RawResult" where
  "blank_result ty format = \<lparr>raw_Scanner = ty, raw_Format = format, raw_Data = [], raw_Mock = False\<rparr>"

section \<open>nmap\<close>

definition escapeAttr :: "string \<Rightarrow> string" where
  "escapeAttr s = filter (\<lambda>c. c \<notin> {CHR 0x22, CHR ''<'', CHR ''>'', CHR ''&''}) (utf8_fix s)"

definition mockNmapXML :: "string \<Rightarrow> string" where
  "mockNmapXML target =
     ''<?xml version=\"1.0\"?>'' @ nl @
     ''<nmaprun scanner=\"nmap\" args=\"mock\">'' @ nl @
     ''  <host>'' @ nl @
     ''    <address addr=\"'' @ escapeAttr target @
     ''\" addrtype=\"ipv4\"/>'' @ nl @
     ''    <ports>'' @ nl @
     ''      <port protocol=\"tcp\" portid=\"22\">'' @ nl @
     ''        <state state=\"open\"/>'' @ nl @
     ''        <service name=\"ssh\" product=\"OpenSSH\" version=\"7.4\"/>'' @ nl @
     ''      </port>'' @ nl @
     ''      <port protocol=\"tcp\" portid=\"80\">'' @ nl @
     ''        <state state=\"open\"/>'' @ nl @
     ''        <service name=\"http\" product=\"Apache httpd\" version=\"2.4.29\"/>'' @ nl @
     ''      </port>'' @ nl @
     ''      <port protocol=\"tcp\" portid=\"443\">'' @ nl @
     ''        <state state=\"open\"/>'' @ nl @
     ''        <service name=\"https\" product=\"nginx\" version=\"1.14.0\" tunnel=\"ssl\"/>'' @ nl @
     ''      </port>'' @ nl @
     ''      <port protocol=\"tcp\" portid=\"3306\">'' @ nl @
     ''        <state state=\"open\"/>'' @ nl @
     ''        <service name=\"mysql\" product=\"MySQL\" version=\"5.7.31\"/>'' @ nl @
     ''      </port>'' @ nl @
     ''    </ports>'' @ nl @
     ''  </host>'' @ nl @
     ''</nmaprun>''"

definition Nmap_Scan :: "scan_env \<Rightarrow> Options \<Rightarrow> Asset \<Rightarrow> scan_outcome" where
  "Nmap_Scan env opts a =
     (let res = blank_result ScannerNmap ''nmap-xml''; target = a_Target a
      in case look_path env (NmapBin opts) of
           None \<Rightarrow> (fallback opts res (mockNmapXML target) ''nmap binary not found'', [])
         | Some bin \<Rightarrow>
             if \<not> liveAllowed env opts a
             then (fallback opts res (mockNmapXML target) ''live scanning not permitted for this target'', [])
             else let args = [''-sV'', ''-T4'', ''--top-ports'', ''100'', ''-oX'', ''-'', target];
                      (out, runErr) = run_cmd env bin args
                  in (if runErr \<noteq> None \<or> out = [] then
                        (if Production opts
                         then Inl (''nmap: scan of '' @ quote_text env target @ '' failed: '' @ error_verb env runErr)
                         else Inr (res\<lparr>raw_Data := mockNmapXML target, raw_Mock := True\<rparr>))
                      else Inr (res\<lparr>raw_Data := out\<rparr>),
                      [Exec bin args]))"

section \<open>nuclei\<close>

definition mockNucleiJSONL :: "string \<Rightarrow> string" where
  "mockNucleiJSONL target =
     ''{\"template-id\":\"git-config\",\"info\":{\"name\":\"Git Configuration Exposure\",\"severity\":\"medium\",\"classification\":{\"cve-id\":[],\"cwe-id\":[\"CWE-538\"]}},\"matched-at\":\"http://'' @ escapeAttr target @
     ''/.git/config\"}'' @ nl @
     ''{\"template-id\":\"missing-csp\",\"info\":{\"name\":\"Missing Content-Security-Policy Header\",\"severity\":\"low\",\"classification\":{\"cve-id\":[],\"cwe-id\":[\"CWE-693\"]}},\"matched-at\":\"http://'' @ escapeAttr target @
     ''/\"}'' @ nl @
     ''{\"template-id\":\"CVE-2021-44228\",\"info\":{\"name\":\"Apache Log4j RCE (Log4Shell)\",\"severity\":\"critical\",\"classification\":{\"cve-id\":[\"CVE-2021-44228\"],\"cwe-id\":[\"CWE-502\"]}},\"matched-at\":\"http://'' @ escapeAttr target @
     ''/api\"}'' @ nl @
     ''{\"template-id\":\"CVE-2021-4034\",\"info\":{\"name\":\"Polkit pkexec Local Privilege Escalation (PwnKit)\",\"severity\":\"high\",\"classification\":{\"cve-id\":[\"CVE-2021-4034\"],\"cwe-id\":[\"CWE-269\"]}},\"matched-at\":\"'' @ escapeAttr target @
     ''\"}''"

text \<open>No output without an error is a clean scan; in development it is replaced by the mock.\<close>

definition Nuclei_Scan :: "scan_env \<Rightarrow> Options \<Rightarrow> Asset \<Rightarrow> scan_outcome" where
  "Nuclei_Scan env opts a =
     (let res = blank_result ScannerNuclei ''nuclei-jsonl''; target = a_Target a
      in case look_path env (NucleiBin opts) of
           None \<Rightarrow> (fallback opts res (mockNucleiJSONL target) ''nuclei binary not found'', [])
         | Some bin \<Rightarrow>
             if \<not> liveAllowed env opts a
             then (fallback opts res (mockNucleiJSONL target) ''live scanning not permitted for this target'', [])
             else let args = [''-jsonl'', ''-silent'', ''-u'', target];
                      (out, runErr) = run_cmd env bin args
                  in (if runErr \<noteq> None \<or> out = [] then
                        (if runErr \<noteq> None \<and> Production opts
                         then Inl (''nuclei: scan of '' @ quote_text env target @ '' failed: '' @ error_verb env runErr)
                         else if Production opts then Inr (res\<lparr>raw_Data := []\<rparr>)
                         else Inr (res\<lparr>raw_Data := mockNucleiJSONL target, raw_Mock := True\<rparr>))
                      else Inr (res\<lparr>raw_Data := out\<rparr>),
                      [Exec bin args]))"

section \<open>Cryptographic audit\<close>

record cryptoReport =
  cr_Target :: string
  cr_TLSVersion :: string
  cr_WeakTLS :: bool
  cr_WeakRSA :: bool
  cr_Note :: string

text \<open>\<open>json.Marshal\<close> of a report: the fields in their order.\<close>

definition crypto_json :: "cryptoReport \<Rightarrow> json" where
  "crypto_json rep =
     JObj [(''target'', JStr (cr_Target rep)), (''tls_version'', JStr (cr_TLSVersion rep)),
           (''weak_tls'', JBool (cr_WeakTLS rep)), (''weak_rsa'', JBool (cr_WeakRSA rep)), (''note'', JStr (cr_Note rep))]"

text \<open>\<open>tls.VersionTLS12\<close> is 0x0303; the older and newer versions are its neighbours.\<close>

definition tlsVersionString :: "nat \<Rightarrow> string" where
  "tlsVersionString v =
     (if v = 0x0301 then ''1.0'' else if v = 0x0302 then ''1.1''
      else if v = 0x0303 then ''1.2'' else if v = 0x0304 then ''1.3'' else ''unknown'')"

definition indexAny :: "string \<Rightarrow> string \<Rightarrow> int" where
  "indexAny s chars =
     (let p = takeWhile (\<lambda>c. c \<notin> set chars) s in if length p = length s then -1 else int (length p))"

definition stripScheme :: "string \<Rightarrow> string" where
  "stripScheme s =
     (let s = fold (\<lambda>p s. if length p < length s \<and> take (length p) s = p then drop (length p) s else s)
                [''https://'', ''http://''] s;
          i = indexAny s ''/:''
      in if 0 \<le> i then take (nat i) s else s)"

fun hex_pad :: "nat \<Rightarrow> nat \<Rightarrow> string" where
  "hex_pad 0 n = []"
| "hex_pad (Suc k) n = hex_pad k (n div 16) @ [hex_lower (n mod 16)]"

definition probeTLS :: "scan_env \<Rightarrow> string \<Rightarrow> cryptoReport option \<times> contact list" where
  "probeTLS env target =
     (let addr = stripScheme target @ '':443''
      in (case tls_dial env addr of
            None \<Rightarrow> None
          | Some (version, cipher) \<Rightarrow>
              let ver = tlsVersionString version
              in Some \<lparr>cr_Target = target, cr_TLSVersion = ver, cr_WeakTLS = version < 0x0303, cr_WeakRSA = False,
                   cr_Note = ''live handshake negotiated TLS '' @ ver @ '', cipher 0x'' @ hex_pad 4 cipher\<rparr>,
          [Dial addr]))"

definition Crypto_Scan :: "scan_env \<Rightarrow> Options \<Rightarrow> Asset \<Rightarrow> scan_outcome" where
  "Crypto_Scan env opts a =
     (let res = blank_result ScannerCrypto ''crypto-json''; target = a_Target a;
          mock = \<lparr>cr_Target = target, cr_TLSVersion = ''1.0'', cr_WeakTLS = True, cr_WeakRSA = True,
                  cr_Note = ''mock crypto audit: TLS 1.0 and RSA-1024 detected''\<rparr>;
          mocked = Inr (res\<lparr>raw_Data := enc (crypto_json mock), raw_Mock := True\<rparr>)
      in if liveAllowed env opts a then
           (let (rep, cs) = probeTLS env target
            in (case rep of
                  Some r \<Rightarrow> Inr (res\<lparr>raw_Data := enc (crypto_json r)\<rparr>)
                | None \<Rightarrow>
                    if Production opts
                    then Inl (''crypto: TLS probe of '' @ quote_text env target @ '' failed (host unreachable or no TLS on :443)'')
                    else mocked, cs))
         else (if Production opts
               then Inl (''crypto: live scanning not permitted for '' @ quote_text env target @ '' and mock is disabled in production'')
               else mocked, []))"

section \<open>Secrets\<close>

record gitleaksFinding =
  gl_RuleID :: string
  gl_Description :: string
  gl_File :: string
  gl_StartLine :: int
  gl_Fingerprint :: string

definition gitleaks_fields :: "(string \<times> gitleaksFinding decoder) list" where
  "gitleaks_fields =
     [(''RuleID'', on_field gl_RuleID (\<lambda>x. gl_RuleID_update (\<lambda>_. x)) dec_string),
      (''Description'', on_field gl_Description (\<lambda>x. gl_Description_update (\<lambda>_. x)) dec_string),
      (''File'', on_field gl_File (\<lambda>x. gl_File_update (\<lambda>_. x)) dec_string),
      (''StartLine'', on_field gl_StartLine (\<lambda>x. gl_StartLine_update (\<lambda>_. x)) dec_int),
      (''Fingerprint'', on_field gl_Fingerprint (\<lambda>x. gl_Fingerprint_update (\<lambda>_. x)) dec_string)]"

definition no_gitleaks :: gitleaksFinding where
  "no_gitleaks = \<lparr>gl_RuleID = [], gl_Description = [], gl_File = [], gl_StartLine = 0, gl_Fingerprint = []\<rparr>"

text \<open>The report is decoded as far as it goes; an error is ignored.\<close>

definition gitleaks_findings :: "string \<Rightarrow> gitleaksFinding list" where
  "gitleaks_findings raw =
     (if 0 < length raw then fst (unmarshal (dec_list no_gitleaks (dec_struct False gitleaks_fields)) raw []) else [])"

definition cred_json :: "gitleaksFinding \<Rightarrow> json" where
  "cred_json f =
     JObj [(''principal'', JStr (gl_RuleID f)),
           (''fingerprint'', JStr (if gl_Fingerprint f = []
              then gl_RuleID f @ '':'' @ gl_File f @ '':'' @ itoa (gl_StartLine f) else gl_Fingerprint f)),
           (''type'', JStr (gl_Description f)),
           (''location'', JStr (gl_File f @ '':'' @ itoa (gl_StartLine f)))]"

definition convertGitleaks :: "string \<Rightarrow> string" where
  "convertGitleaks raw = enc (JObj [(''credentials'', JArr (map cred_json (gitleaks_findings raw)))])"

definition mockSecretsJSON :: string where
  "mockSecretsJSON =
     ''{\"credentials\":['' @ nl @
     [CHR 0x09] @ ''  {\"principal\":\"svc-deploy\",\"fingerprint\":\"sha256:9f86d0818884\",\"type\":\"service_account\",\"location\":\"/etc/app/deploy.yaml\"}'' @ nl @
     [CHR 0x09] @ '']}''"

text \<open>Exit code 1 means that leaks were found.\<close>

definition Secrets_Scan :: "scan_env \<Rightarrow> Options \<Rightarrow> Asset \<Rightarrow> scan_outcome" where
  "Secrets_Scan env opts a =
     (let res = blank_result ScannerSecrets ''secrets-json''
      in if a_Type a \<noteq> AssetRepo then (Inr (res\<lparr>raw_Data := ''{\"credentials\":[]}''\<rparr>), [])
         else let binName = (if GitleaksBin opts = [] then ''gitleaks'' else GitleaksBin opts)
         in case look_path env binName of
              None \<Rightarrow> (fallback opts res mockSecretsJSON ''gitleaks binary not found'', [])
            | Some bin \<Rightarrow>
                let args = [''detect'', ''--source'', a_Target a, ''--no-banner'', ''--exit-code'', ''1'',
                            ''--report-format'', ''json'', ''--report-path'', ''/dev/stdout''];
                    (out, runErr) = run_cmd env bin args
                in (if runErr \<noteq> None \<and> runErr \<noteq> Some (ExitError 1) then
                      (if Production opts
                       then Inl (''gitleaks: scan of '' @ quote_text env (a_Target a) @ '' failed: '' @ error_verb env runErr)
                       else fallback opts res mockSecretsJSON ''gitleaks run failed'')
                    else Inr (res\<lparr>raw_Data := convertGitleaks out\<rparr>),
                    [Exec bin args]))"

section \<open>Profiles\<close>

datatype Scanner = Nmap Options | Nuclei Options | Crypto Options | Secrets Options

fun Scanner_Type :: "Scanner \<Rightarrow> ScannerType" where
  "Scanner_Type (Nmap _) = ScannerNmap"
| "Scanner_Type (Nuclei _) = ScannerNuclei"
| "Scanner_Type (Crypto _) = ScannerCrypto"
| "Scanner_Type (Secrets _) = ScannerSecrets"

fun Scan :: "scan_env \<Rightarrow> Scanner \<Rightarrow> Asset \<Rightarrow> scan_outcome" where
  "Scan env (Nmap opts) a = Nmap_Scan env opts a"
| "Scan env (Nuclei opts) a = Nuclei_Scan env opts a"
| "Scan env (Crypto opts) a = Crypto_Scan env opts a"
| "Scan env (Secrets opts) a = Secrets_Scan env opts a"

definition ForProfile :: "ScanProfile \<Rightarrow> Options \<Rightarrow> Scanner list" where
  "ForProfile p opts =
     (if p = ProfileQuick then [Nmap opts]
      else if p = ProfileWeb then [Nuclei opts]
      else if p = ProfileCritical then [Nmap opts, Nuclei opts, Crypto opts, Secrets opts]
      else [Nmap opts])"

section \<open>The adapter interface\<close>

text \<open>
  What the engine relies on, whatever the tool: a result carries the adapter's name and format; in
  production it is not mock data, in development there always is one; a contact is made only where
  the adapter's rule permits it, and concerns the asset's target; a result that is not mock comes from
  a contact, unless the tool does not apply to the asset.
\<close>

fun concerns :: "string \<Rightarrow> contact \<Rightarrow> bool" where
  "concerns t (Exec b args) = (t \<in> set args)"
| "concerns t (Dial addr) = (addr = stripScheme t @ '':443'')"

locale scan_adapter =
  fixes scan :: "scan_env \<Rightarrow> Options \<Rightarrow> Asset \<Rightarrow> scan_outcome"
    and ty :: ScannerType
    and format :: string
    and permitted :: "scan_env \<Rightarrow> Options \<Rightarrow> Asset \<Rightarrow> bool"
    and applies :: "Asset \<Rightarrow> bool"
  assumes labels: "scan env opts a = (Inr r, cs) \<Longrightarrow> raw_Scanner r = ty \<and> raw_Format r = format"
    and genuine: "Production opts \<Longrightarrow> scan env opts a = (Inr r, cs) \<Longrightarrow> \<not> raw_Mock r"
    and available: "\<not> Production opts \<Longrightarrow> \<exists>r cs. scan env opts a = (Inr r, cs)"
    and contacts: "scan env opts a = (x, cs) \<Longrightarrow> cs \<noteq> [] \<Longrightarrow> permitted env opts a \<and> list_all (concerns (a_Target a)) cs"
    and sourced: "scan env opts a = (Inr r, cs) \<Longrightarrow> \<not> raw_Mock r \<Longrightarrow> cs \<noteq> [] \<or> \<not> applies a"
begin

lemma refused_in_production:
  assumes "Production opts" and "\<not> permitted env opts a" and "applies a"
  shows "\<exists>e. scan env opts a = (Inl e, [])"
proof -
  obtain x cs where s: "scan env opts a = (x, cs)" by (cases "scan env opts a")
  then have "cs = []" using contacts [OF s] assms(2) by blast
  moreover have "\<exists>e. x = Inl e"
    using s genuine [OF assms(1)] sourced \<open>cs = []\<close> assms(3) by (cases x) blast+
  ultimately show ?thesis using s by blast
qed

lemma adapter_result:
  assumes "scan env opts a = (Inr r, cs)"
  shows "raw_Scanner r = ty \<and> (Production opts \<longrightarrow> \<not> raw_Mock r) \<and> (\<not> raw_Mock r \<longrightarrow> cs \<noteq> [] \<or> \<not> applies a)"
  using assms labels genuine sourced by blast

end

lemmas scan_defs = fallback_def blank_result_def Let_def

interpretation nmap: scan_adapter Nmap_Scan ScannerNmap "''nmap-xml''" liveAllowed "\<lambda>a. True"
  by unfold_locales (auto simp: Nmap_Scan_def scan_defs split: option.splits if_splits prod.splits)

interpretation nuclei: scan_adapter Nuclei_Scan ScannerNuclei "''nuclei-jsonl''" liveAllowed "\<lambda>a. True"
  by unfold_locales (auto simp: Nuclei_Scan_def scan_defs split: option.splits if_splits prod.splits)

interpretation crypto: scan_adapter Crypto_Scan ScannerCrypto "''crypto-json''" liveAllowed "\<lambda>a. True"
  by unfold_locales (auto simp: Crypto_Scan_def probeTLS_def scan_defs split: option.splits if_splits prod.splits)

text \<open>The secrets adapter does not look at the live-scan rule at all: the asset's type decides.\<close>

interpretation secrets: scan_adapter Secrets_Scan ScannerSecrets "''secrets-json''"
    "\<lambda>env opts a. a_Type a = AssetRepo" "\<lambda>a. a_Type a = AssetRepo"
  by unfold_locales (auto simp: Secrets_Scan_def scan_defs split: option.splits if_splits prod.splits)

lemma ForProfile_cases:
  "sc \<in> set (ForProfile p opts) \<Longrightarrow> sc \<in> {Nmap opts, Nuclei opts, Crypto opts, Secrets opts}"
  by (auto simp: ForProfile_def split: if_splits)

section \<open>Properties\<close>

text \<open>No adapter of any profile passes made-up data for real: a result is labelled with its adapter, in production
  it is never mock data, and a result not marked as mock comes from a program run or a handshake (or is
  the empty report of the secrets adapter for an asset that is not a repository).\<close>

theorem no_fabricated_results:
  assumes "sc \<in> set (ForProfile p opts)" and "Scan env sc a = (Inr r, cs)"
  shows "raw_Scanner r = Scanner_Type sc \<and> (Production opts \<longrightarrow> \<not> raw_Mock r) \<and>
    (\<not> raw_Mock r \<longrightarrow> cs \<noteq> [] \<or> (a_Type a \<noteq> AssetRepo \<and> sc = Secrets opts))"
  using ForProfile_cases [OF assms(1)] assms(2)
    nmap.adapter_result [of env opts a r cs] nuclei.adapter_result [of env opts a r cs]
    crypto.adapter_result [of env opts a r cs] secrets.adapter_result [of env opts a r cs]
  by auto



definition sample_opts :: Options where
  "sample_opts = \<lparr>NmapBin = ''nmap'', NucleiBin = ''nuclei'', GitleaksBin = [], AllowLiveScan = True,
     Production = True, ScanAuthorized = False\<rparr>"

definition sample_asset :: "string \<Rightarrow> Asset" where
  "sample_asset t = \<lparr>a_ID = ''1'', a_Name = ''web'', a_Type = AssetIP, a_Target = t, a_Criticality = CritHigh, a_Tags = [],
     a_ScanAuthorized = False, a_CreatedAt = 0\<rparr>"

text \<open>A machine with the tools, without a resolver, whose commands print \<open>done\<close>.\<close>

definition sample_scan_env :: scan_env where
  "sample_scan_env = \<lparr>look_path = (\<lambda>b. Some (''/usr/bin/'' @ b)), run_cmd = (\<lambda>b args. (''done'', None)), lookup_ip = (\<lambda>h. None),
     tls_dial = (\<lambda>h. None), quote_text = (\<lambda>s. s), error_text = (\<lambda>e. ''failed'')\<rparr>"

theorem no_fabricated_results_witness:
  "\<exists>r cs. Scan sample_scan_env (Nmap sample_opts) (sample_asset ''10.0.0.7'') = (Inr r, cs) \<and> \<not> raw_Mock r \<and>
     raw_Scanner r = ScannerNmap"
proof -
  have "isSafeTarget sample_scan_env ''10.0.0.7''" by code_simp
  then obtain r cs where s: "Scan sample_scan_env (Nmap sample_opts) (sample_asset ''10.0.0.7'') = (Inr r, cs)"
    by (simp add: Nmap_Scan_def sample_scan_env_def sample_opts_def sample_asset_def liveAllowed_def Let_def)
  moreover have "Nmap sample_opts \<in> set (ForProfile ProfileQuick sample_opts)" by (simp add: ForProfile_def)
  ultimately show ?thesis using no_fabricated_results [OF _ s, of ProfileQuick sample_opts] by (auto simp: sample_opts_def)
qed


text \<open>C29: The rule for unauthorised targets judges only the host before the first slash or colon, but nmap is given
  the whole target: where live scanning is on and \<open>10.0.0.1\<close> resolves to itself (or not at all), an
  asset whose target is \<open>10.0.0.1/0\<close>, every IPv4 address, is scanned without any authorisation.\<close>

theorem cidr_escapes_rule:
  assumes "AllowLiveScan opts" and "look_path env (NmapBin opts) = Some bin" and "a_Target a = ''10.0.0.1/0''"
    and "lookup_ip env ''10.0.0.1'' \<in> {None, Some [mapped_prefix @ [10, 0, 0, 1]]}"
  shows "snd (Nmap_Scan env opts a) =
    [Exec bin [''-sV'', ''-T4'', ''--top-ports'', ''100'', ''-oX'', ''-'', ''10.0.0.1/0'']]"
proof -
  have h: "cut_any ''/:'' (trim_prefix (trim_prefix ''10.0.0.1/0'' ''http://'') ''https://'') = ''10.0.0.1''" by code_simp
  have p: "parse_ip ''10.0.0.1'' = Some (mapped_prefix @ [10, 0, 0, 1])" by code_simp
  have "is_private (mapped_prefix @ [10, 0, 0, 1])" by code_simp
  then have "isSafeTarget env ''10.0.0.1/0''" using assms(4) by (auto simp: isSafeTarget_def Let_def h p)
  then have "liveAllowed env opts a" using assms(1,3) by (simp add: liveAllowed_def)
  then show ?thesis using assms(2,3) by (simp add: Nmap_Scan_def Let_def split: prod.split)
qed

theorem cidr_escapes_rule_witness:
  "snd (Nmap_Scan sample_scan_env sample_opts (sample_asset ''10.0.0.1/0'')) =
    [Exec ''/usr/bin/nmap'' [''-sV'', ''-T4'', ''--top-ports'', ''100'', ''-oX'', ''-'', ''10.0.0.1/0'']]"
  by (rule cidr_escapes_rule) (simp_all add: sample_opts_def sample_scan_env_def sample_asset_def)

section \<open>What is kept of a leaked secret\<close>

text \<open>A gitleaks report without the members the adapter does not decode, the secret itself among them.\<close>

definition decoded_member :: "string \<times> json \<Rightarrow> bool" where
  "decoded_member m \<longleftrightarrow> find_field gitleaks_fields (fst m) \<noteq> None"

fun scrub_entry :: "json \<Rightarrow> json" where
  "scrub_entry (JObj ms) = JObj (filter decoded_member ms)"
| "scrub_entry v = v"

fun scrub :: "json \<Rightarrow> json" where
  "scrub (JArr vs) = JArr (map scrub_entry vs)"
| "scrub v = v"

lemma dec_struct_scrub: "dec_struct False gitleaks_fields (scrub_entry v) x = dec_struct False gitleaks_fields v x"
proof (cases v)
  case (JObj ms)
  have "fold f (filter decoded_member ms) st = fold f ms st"
    if f: "\<And>k w st. find_field gitleaks_fields k = None \<Longrightarrow> f (k, w) st = st" for f st
    using f by (induction ms arbitrary: st) (auto simp: decoded_member_def)
  from this [of "\<lambda>(k, v) (y, e). case find_field gitleaks_fields k of None \<Rightarrow> (y, e \<or> False)
      | Some d \<Rightarrow> let (y', e') = d v y in (y', e \<or> e')" "(x, False)"] JObj
  show ?thesis by (simp add: case_prod_unfold)
qed simp_all

lemma dec_list_scrub:
  "dec_list z (dec_struct False gitleaks_fields) (scrub v) xs = dec_list z (dec_struct False gitleaks_fields) v xs"
  by (cases v) (simp_all add: dec_struct_scrub list_ex_iff)



end
