(* ===== verification/Go_Xml.thy ===== *)
theory Go_Xml
  imports Go_Json
begin

text \<open>
  The part of \<open>encoding/xml\<close> the program uses: the strict decoder up to the end of the first element,
  as a tree of names, attributes and child elements (character data is checked and dropped, because
  no field of the program holds any).  Names outside ASCII are refused here, where the package has
  tables of letters; the nesting limit and the texts of its errors are not modelled.
\<close>

datatype xml = Elem (x_name: string) (x_attrs: "(string \<times> string) list") (x_kids: "xml list")

datatype token = TStart string "(string \<times> string) list" bool | TEnd string | TOther

section \<open>Characters\<close>

definition xml_space :: "char \<Rightarrow> bool" where
  "xml_space c \<longleftrightarrow> c \<in> {CHR '' '', CHR 0x09, CHR 0x0A, CHR 0x0D}"

text \<open>Valid UTF-8 without control characters (other than white space) and without U+FFFE and U+FFFF.\<close>

function xml_chars :: "string \<Rightarrow> bool" where
  "xml_chars s =
     (if s = [] then True
      else rune_len s \<noteq> 0 \<and> (rune_len s = 1 \<longrightarrow> 32 \<le> byte (hd s) \<or> xml_space (hd s)) \<and>
           take 3 s \<notin> {[CHR 0xEF, CHR 0xBF, CHR 0xBE], [CHR 0xEF, CHR 0xBF, CHR 0xBF]} \<and>
           xml_chars (drop (max 1 (rune_len s)) s))"
  by pat_completeness auto
termination
  by (relation "measure length") auto

declare xml_chars.simps [simp del]

definition ascii_letter :: "char \<Rightarrow> bool" where
  "ascii_letter c \<longleftrightarrow> byte_in 65 90 c \<or> byte_in 97 122 c"

definition name_byte :: "char \<Rightarrow> bool" where
  "name_byte c \<longleftrightarrow> ascii_letter c \<or> is_digit c \<or> c \<in> set ''_:.-''"

text \<open>A name and what follows it; a colon separates a prefix, at most once.\<close>

definition xml_name :: "string \<Rightarrow> (string \<times> string) option" where
  "xml_name s =
     (let n = takeWhile name_byte s; r = dropWhile name_byte s
      in if n = [] \<or> (r \<noteq> [] \<and> 128 \<le> byte (hd r)) \<or> \<not> (ascii_letter (hd n) \<or> hd n \<in> set ''_:'') then None
         else Some (n, r))"

definition xml_nsname :: "string \<Rightarrow> (string \<times> string) option" where
  "xml_nsname s =
     (case xml_name s of
        None \<Rightarrow> None
      | Some (n, r) \<Rightarrow> if 1 < length (filter (\<lambda>c. c = CHR '':'') n) then None else Some (n, r))"

text \<open>The local part, which is what a struct tag is compared with.\<close>

definition local_name :: "string \<Rightarrow> string" where
  "local_name n =
     (let p = takeWhile (\<lambda>c. c \<noteq> CHR '':'') n; l = drop (Suc (length p)) n
      in if p = [] \<or> l = [] then n else l)"

section \<open>Text\<close>

definition entities :: "(string \<times> string) list" where
  "entities = [(''lt'', ''<''), (''gt'', ''>''), (''amp'', ''&''), (''apos'', [CHR 0x27]), (''quot'', [CHR 0x22])]"

definition rune_text :: "nat \<Rightarrow> string" where
  "rune_text n = (if 0xD800 \<le> n \<and> n < 0xE000 then rune_error else utf8_rune n)"

text \<open>What an ampersand introduces: the text it stands for, and how many characters it takes.\<close>

definition entity :: "string \<Rightarrow> (string \<times> nat) option" where
  "entity s =
     (if take 1 s = ''#'' then
        (let hex = (take 1 (drop 1 s) = ''x'');
             d = takeWhile (if hex then is_hex_digit else is_digit) (drop (if hex then 2 else 1) s);
             k = length d + (if hex then 3 else 2);
             v = (if hex then fold (\<lambda>c m. 16 * m + hex_val c) d 0 else digits_val d)
         in if d \<noteq> [] \<and> take 1 (drop (k - 1) s) = '';'' \<and> v \<le> 0x10FFFF then Some (rune_text v, k) else None)
      else (case xml_name s of
              None \<Rightarrow> None
            | Some (n, r) \<Rightarrow>
                if take 1 r = '';'' then map_option (\<lambda>t. (t, Suc (length n))) (map_of entities n) else None))"

text \<open>
  Character data up to the next tag (or the end), or up to the closing quote of an attribute value:
  the text, with line ends normalised, and what follows.  \<open>p\<close> is the number of closing brackets just
  read and \<open>cr\<close> whether the last character was a carriage return.
\<close>

function xml_text :: "char option \<Rightarrow> nat \<Rightarrow> bool \<Rightarrow> string \<Rightarrow> (string \<times> string) option" where
  "xml_text q p cr [] = (if q = None then Some ([], []) else None)"
| "xml_text q p cr (c # s) =
     (if q = None \<and> c = CHR ''>'' \<and> 2 \<le> p then None
      else if c = CHR ''<'' then (if q = None then Some ([], c # s) else None)
      else if q = Some c then Some ([], s)
      else if c = CHR ''&'' then
        (case entity s of
           None \<Rightarrow> None
         | Some (t, k) \<Rightarrow> map_option (\<lambda>(u, r). (t @ u, r)) (xml_text q 0 False (drop k s)))
      else map_option (\<lambda>(u, r). ((if c = CHR 0x0D then [CHR 0x0A] else if cr \<and> c = CHR 0x0A then [] else [c]) @ u, r))
             (xml_text q (if c = CHR '']'' then Suc p else 0) (c = CHR 0x0D) s))"
  by pat_completeness auto
termination
  by (relation "measure (\<lambda>(q, p, cr, s). length s)") auto

definition xml_checked :: "(string \<times> string) option \<Rightarrow> (string \<times> string) option" where
  "xml_checked x = (case x of Some (t, r) \<Rightarrow> if xml_chars t then Some (t, r) else None | None \<Rightarrow> None)"

section \<open>Tags\<close>

definition skip_xml_space :: "string \<Rightarrow> string" where
  "skip_xml_space s = dropWhile xml_space s"

definition attr_value :: "string \<Rightarrow> (string \<times> string) option" where
  "attr_value s =
     (case s of
        [] \<Rightarrow> None
      | q # r \<Rightarrow> if q = CHR 0x22 \<or> q = CHR 0x27 then xml_checked (xml_text (Some q) 0 False r) else None)"

text \<open>The attributes and the end of a start tag; \<open>True\<close> for an empty element.  The fuel is the length of the text.\<close>

fun xml_attrs :: "nat \<Rightarrow> string \<Rightarrow> ((string \<times> string) list \<times> bool \<times> string) option" where
  "xml_attrs 0 s = None"
| "xml_attrs (Suc n) s =
     (case skip_xml_space s of
        [] \<Rightarrow> None
      | c # r \<Rightarrow>
          if c = CHR ''/'' then (if take 1 r = ''>'' then Some ([], True, drop 1 r) else None)
          else if c = CHR ''>'' then Some ([], False, r)
          else (case xml_nsname (c # r) of
              None \<Rightarrow> None
            | Some (name, r1) \<Rightarrow>
                if take 1 (skip_xml_space r1) \<noteq> ''='' then None
                else (case attr_value (skip_xml_space (drop 1 (skip_xml_space r1))) of
                    None \<Rightarrow> None
                  | Some (v, r2) \<Rightarrow> map_option (\<lambda>(as, e, r). ((name, v) # as, e, r)) (xml_attrs n r2))))"

text \<open>The rest after the first occurrence of a text, and what comes before it.\<close>

fun find_sub :: "string \<Rightarrow> string \<Rightarrow> (string \<times> string) option" where
  "find_sub p s =
     (if has_prefix s p then Some ([], drop (length p) s)
      else case s of [] \<Rightarrow> None | c # r \<Rightarrow> map_option (\<lambda>(a, b). (c # a, b)) (find_sub p r))"

declare find_sub.simps [simp del]

text \<open>The value of \<open>version\<close> or \<open>encoding\<close> in an XML declaration, empty if there is none.  The search goes on
  after an occurrence that no quote follows.\<close>

fun proc_inst :: "nat \<Rightarrow> string \<Rightarrow> string \<Rightarrow> string" where
  "proc_inst 0 param s = []"
| "proc_inst (Suc n) param s =
     (case find_sub (param @ ''='') s of
        None \<Rightarrow> []
      | Some (_, []) \<Rightarrow> []
      | Some (_, q # r) \<Rightarrow>
          if q = CHR 0x22 \<or> q = CHR 0x27
          then (if q \<in> set r then takeWhile (\<lambda>c. c \<noteq> q) r else [])
          else proc_inst n param r)"

definition declaration_ok :: "string \<Rightarrow> bool" where
  "declaration_ok content \<longleftrightarrow>
     proc_inst (Suc (length content)) ''version'' content \<in> {[], ''1.0''} \<and>
     (let e = proc_inst (Suc (length content)) ''encoding'' content in e = [] \<or> equal_fold e ''utf-8'')"

text \<open>A directive such as \<open>DOCTYPE\<close>: up to its closing angle bracket, not counting quoted ones; nested brackets are
  counted and comments skipped.\<close>

function skip_directive :: "nat \<Rightarrow> char option \<Rightarrow> string \<Rightarrow> string option" where
  "skip_directive d q [] = None"
| "skip_directive d q (c # s) =
     (if q = None \<and> c = CHR ''>'' \<and> d = 0 then Some s
      else if q = Some c then skip_directive d None s
      else if q \<noteq> None then skip_directive d q s
      else if c = CHR 0x22 \<or> c = CHR 0x27 then skip_directive d (Some c) s
      else if c = CHR ''>'' then skip_directive (d - 1) None s
      else if c = CHR ''<'' then
        (if has_prefix s ''!--'' then
           (case find_sub ''-->'' (drop 3 s) of None \<Rightarrow> None | Some (a, r) \<Rightarrow> skip_directive d None (drop (length a + 6) s))
         else skip_directive (Suc d) None s)
      else skip_directive d None s)"
  by pat_completeness auto
termination
  by (relation "measure (\<lambda>(d, q, s). length s)") auto

text \<open>One token of a text that is not empty; \<open>None\<close> is a syntax error.\<close>

definition xml_token :: "string \<Rightarrow> (token \<times> string) option" where
  "xml_token s =
     (if take 1 s \<noteq> ''<'' then map_option (\<lambda>(t, r). (TOther, r)) (xml_checked (xml_text None 0 False s))
      else let r = drop 1 s
      in if take 1 r = ''/'' then
           (case xml_nsname (drop 1 r) of
              None \<Rightarrow> None
            | Some (n, r) \<Rightarrow>
                let r = skip_xml_space r in if take 1 r = ''>'' then Some (TEnd n, drop 1 r) else None)
         else if take 1 r = ''?'' then
           (case xml_name (drop 1 r) of
              None \<Rightarrow> None
            | Some (target, r) \<Rightarrow>
                (case find_sub ''?>'' (skip_xml_space r) of
                   None \<Rightarrow> None
                 | Some (content, r) \<Rightarrow>
                     if target = ''xml'' \<and> \<not> declaration_ok content then None else Some (TOther, r)))
         else if has_prefix r ''!-'' then
           (if has_prefix r ''!--'' then
              (case find_sub ''--'' (drop 3 r) of
                 None \<Rightarrow> None
               | Some (_, r) \<Rightarrow> if take 1 r = ''>'' then Some (TOther, drop 1 r) else None)
            else None)
         else if has_prefix r ''!['' then
           (if has_prefix r ''![CDATA['' then
              (case find_sub '']]>'' (drop 8 r) of
                 None \<Rightarrow> None
               | Some (t, r) \<Rightarrow> if xml_chars t then Some (TOther, r) else None)
            else None)
         else if take 1 r = ''!'' then
           (if drop 1 r = [] then None else map_option (\<lambda>r. (TOther, r)) (skip_directive 0 None (drop 2 r)))
         else (case xml_nsname r of
                 None \<Rightarrow> None
               | Some (n, r) \<Rightarrow>
                   map_option (\<lambda>(as, e, r). (TStart n as e, r)) (xml_attrs (Suc (length r)) r)))"

section \<open>Trees\<close>

text \<open>
  The open elements, innermost first, with the children seen so far (latest first).  The first element
  that closes with none open is the result; what follows it is not read.
\<close>

type_synonym open_elem = "string \<times> (string \<times> string) list \<times> xml list"

fun xml_build :: "nat \<Rightarrow> open_elem list \<Rightarrow> string \<Rightarrow> xml option" where
  "xml_build 0 st s = None"
| "xml_build (Suc n) st s =
     (if s = [] then None
      else case xml_token s of
        None \<Rightarrow> None
      | Some (TOther, r) \<Rightarrow> xml_build n st r
      | Some (TStart name as False, r) \<Rightarrow> xml_build n ((name, as, []) # st) r
      | Some (TStart name as True, r) \<Rightarrow>
          (case st of
             [] \<Rightarrow> Some (Elem name as [])
           | (m, bs, ks) # st \<Rightarrow> xml_build n ((m, bs, Elem name as [] # ks) # st) r)
      | Some (TEnd name, r) \<Rightarrow>
          (case st of
             [] \<Rightarrow> None
           | (m, bs, ks) # st \<Rightarrow>
               if m \<noteq> name then None
               else (case st of
                   [] \<Rightarrow> Some (Elem m bs (rev ks))
                 | (m', bs', ks') # st \<Rightarrow> xml_build n ((m', bs', Elem m bs (rev ks) # ks') # st) r)))"

definition parse_xml :: "string \<Rightarrow> xml option" where
  "parse_xml s = xml_build (Suc (length s)) [] s"

section \<open>Decoding into structs\<close>

text \<open>The children with a tag, and the last attribute with a name.\<close>

definition kids_named :: "string \<Rightarrow> xml \<Rightarrow> xml list" where
  "kids_named n e = filter (\<lambda>k. local_name (x_name k) = n) (x_kids e)"

definition attr_named :: "string \<Rightarrow> xml \<Rightarrow> string option" where
  "attr_named n e = map_of (rev (map (\<lambda>(k, v). (local_name k, v)) (x_attrs e))) n"

text \<open>An integer attribute: the empty text is zero; anything else is trimmed and has to be a number.\<close>

definition int_attr :: "string \<Rightarrow> int option" where
  "int_attr v = (if v = [] then Some 0 else atoi (trim_space v))"

end
