(* ===== verification/Normalize.thy ===== *)
theory Normalize
  imports Scanner Go_Xml Risk Compliance
begin

text \<open>
  \<open>internal/normalize/normalize.go\<close>: raw scanner output becomes findings.  XML and JSON are decoded by
  the models of the packages; the environment holds the texts of their errors and of \<open>%q\<close>.  The feed
  that the risk score looks at is an argument.
\<close>

record norm_env =
  xml_error :: "string \<Rightarrow> string"
  json_error :: "string \<Rightarrow> string"
  go_quoted :: "string \<Rightarrow> string"

section \<open>Severities\<close>

definition parseSeverity :: "string \<Rightarrow> Severity" where
  "parseSeverity s =
     (let t = to_lower s
      in if t = ''critical'' then SevCritical
         else if t = ''high'' then SevHigh
         else if t = ''medium'' then SevMedium
         else if t = ''low'' then SevLow
         else SevInfo)"

definition severityFromCVSS :: "f64 \<Rightarrow> Severity" where
  "severityFromCVSS cvss =
     (if to_f64 9 \<le> cvss then SevCritical
      else if to_f64 7 \<le> cvss then SevHigh
      else if to_f64 4 \<le> cvss then SevMedium
      else if to_f64 0 < cvss then SevLow
      else SevInfo)"

section \<open>nmap\<close>

record nmapPort =
  np_Protocol :: string
  np_PortID :: int
  np_State :: string
  np_Name :: string
  np_Product :: string
  np_Version :: string
  np_Tunnel :: string

text \<open>
  \<open>xml.Unmarshal\<close> into \<open>nmapRun\<close>: every \<open>host\<close> of the root element, every \<open>port\<close> of its \<open>ports\<close>.  An
  element that is given twice is decoded into the same struct, so the last value of an attribute
  stays.  A port number that is not an integer makes the whole decoding fail.
\<close>

definition last_attr :: "string \<Rightarrow> xml list \<Rightarrow> string" where
  "last_attr n es = fold (\<lambda>e v. case attr_named n e of Some w \<Rightarrow> w | None \<Rightarrow> v) es []"

definition decode_port :: "xml \<Rightarrow> nmapPort option" where
  "decode_port e =
     (case (case attr_named ''portid'' e of None \<Rightarrow> Some 0 | Some v \<Rightarrow> int_attr v) of
        None \<Rightarrow> None
      | Some n \<Rightarrow>
          let state = kids_named ''state'' e; service = kids_named ''service'' e
          in Some \<lparr>np_Protocol = last_attr ''protocol'' [e], np_PortID = n, np_State = last_attr ''state'' state,
               np_Name = last_attr ''name'' service, np_Product = last_attr ''product'' service,
               np_Version = last_attr ''version'' service, np_Tunnel = last_attr ''tunnel'' service\<rparr>)"

definition nmap_ports :: "xml \<Rightarrow> nmapPort option list" where
  "nmap_ports doc =
     map decode_port
       (concat (map (kids_named ''port'') (concat (map (kids_named ''ports'') (kids_named ''host'' doc)))))"

definition decode_nmap :: "string \<Rightarrow> nmapPort list option" where
  "decode_nmap data =
     (case parse_xml data of
        None \<Rightarrow> None
      | Some doc \<Rightarrow> let ps = nmap_ports doc in if None \<in> set ps then None else Some (map the ps))"

definition sensitiveServices :: "(string \<times> f64) list" where
  "sensitiveServices =
     [(''ssh'', to_f64 4), (''mysql'', to_f64 (65 / 10)), (''mssql'', to_f64 (65 / 10)), (''postgresql'', to_f64 6),
      (''redis'', to_f64 7), (''mongodb'', to_f64 7), (''telnet'', to_f64 8), (''ftp'', to_f64 (55 / 10)),
      (''rdp'', to_f64 (75 / 10))]"

definition port_finding :: "nmapPort \<Rightarrow> Finding" where
  "port_finding p =
     (let svc = to_lower (np_Name p);
          (cvss, sensitive) = (case map_of sensitiveServices svc of Some c \<Rightarrow> (c, True) | None \<Rightarrow> (Fin 0, False));
          sev = (if sensitive then severityFromCVSS cvss else SevInfo)
      in Finding_zero
           \<lparr>f_Title := ''Open port '' @ itoa (np_PortID p) @ ''/'' @ np_Protocol p @ '' ('' @ svc @ '')'',
            f_Desc := ''Service '' @ np_Product p @ '' '' @ np_Version p @ '' exposed on port '' @ itoa (np_PortID p),
            f_Severity := sev, f_CVSS := cvss, f_CWE := ''CWE-1327'', f_Port := np_PortID p, f_Service := svc,
            f_Evidence := np_Product p @ '' '' @ np_Version p @ '' on '' @ itoa (np_PortID p) @ ''/'' @ np_Protocol p\<rparr>)"

definition parseNmap :: "norm_env \<Rightarrow> string \<Rightarrow> string + Finding list" where
  "parseNmap env data =
     (case decode_nmap data of
        None \<Rightarrow> Inl (''parse nmap xml: '' @ xml_error env data)
      | Some ports \<Rightarrow> Inr (map port_finding (filter (\<lambda>p. np_State p = ''open'') ports)))"

section \<open>nuclei\<close>

record nucleiLine =
  n_TemplateID :: string
  n_MatchedAt :: string
  n_Name :: string
  n_Severity :: string
  n_CVE :: "string list"
  n_CWE :: "string list"

definition classification_fields :: "(string \<times> nucleiLine decoder) list" where
  "classification_fields =
     [(''cve-id'', on_field n_CVE (\<lambda>x. n_CVE_update (\<lambda>_. x)) (dec_list [] dec_string)),
      (''cwe-id'', on_field n_CWE (\<lambda>x. n_CWE_update (\<lambda>_. x)) (dec_list [] dec_string))]"

definition info_fields :: "(string \<times> nucleiLine decoder) list" where
  "info_fields =
     [(''name'', on_field n_Name (\<lambda>x. n_Name_update (\<lambda>_. x)) dec_string),
      (''severity'', on_field n_Severity (\<lambda>x. n_Severity_update (\<lambda>_. x)) dec_string),
      (''classification'', dec_struct False classification_fields)]"

definition nuclei_fields :: "(string \<times> nucleiLine decoder) list" where
  "nuclei_fields =
     [(''template-id'', on_field n_TemplateID (\<lambda>x. n_TemplateID_update (\<lambda>_. x)) dec_string),
      (''matched-at'', on_field n_MatchedAt (\<lambda>x. n_MatchedAt_update (\<lambda>_. x)) dec_string),
      (''info'', dec_struct False info_fields)]"

definition no_nuclei :: nucleiLine where
  "no_nuclei = \<lparr>n_TemplateID = [], n_MatchedAt = [], n_Name = [], n_Severity = [], n_CVE = [], n_CWE = []\<rparr>"

definition nuclei_finding :: "nucleiLine \<Rightarrow> Finding" where
  "nuclei_finding n =
     (let cwe = (if 0 < length (n_CWE n) then n_CWE n ! 0 else [])
      in Finding_zero
           \<lparr>f_Title := n_Name n,
            f_Desc := ''Template '' @ n_TemplateID n @ '' matched at '' @ n_MatchedAt n,
            f_Severity := parseSeverity (n_Severity n), f_CVE := join '','' (n_CVE n), f_CWE := cwe,
            f_Evidence := n_MatchedAt n\<rparr>)"

text \<open>The loop over the lines: blank lines and lines that do not decode are skipped.\<close>

definition nuclei_step :: "string \<Rightarrow> Finding list \<Rightarrow> Finding list" where
  "nuclei_step line out =
     (let line = trim_space line
      in if line = [] then out
         else let (n, bad) = unmarshal (dec_struct False nuclei_fields) line no_nuclei
              in if bad then out else out @ [nuclei_finding n])"

definition parseNuclei :: "string \<Rightarrow> string + Finding list" where
  "parseNuclei data = Inr (fold nuclei_step (split_on (CHR 0x0A) (trim_space data)) [])"

section \<open>Cryptographic audit\<close>

definition crypto_fields :: "(string \<times> cryptoReport decoder) list" where
  "crypto_fields =
     [(''target'', on_field cr_Target (\<lambda>x. cr_Target_update (\<lambda>_. x)) dec_string),
      (''tls_version'', on_field cr_TLSVersion (\<lambda>x. cr_TLSVersion_update (\<lambda>_. x)) dec_string),
      (''weak_tls'', on_field cr_WeakTLS (\<lambda>x. cr_WeakTLS_update (\<lambda>_. x)) dec_bool),
      (''weak_rsa'', on_field cr_WeakRSA (\<lambda>x. cr_WeakRSA_update (\<lambda>_. x)) dec_bool),
      (''note'', on_field cr_Note (\<lambda>x. cr_Note_update (\<lambda>_. x)) dec_string)]"

definition no_report :: cryptoReport where
  "no_report = \<lparr>cr_Target = [], cr_TLSVersion = [], cr_WeakTLS = False, cr_WeakRSA = False, cr_Note = []\<rparr>"

definition crypto_findings :: "cryptoReport \<Rightarrow> Finding list" where
  "crypto_findings rep =
     (if cr_WeakTLS rep then
        [Finding_zero
           \<lparr>f_Title := ''Weak TLS protocol version (TLS '' @ cr_TLSVersion rep @ '')'',
            f_Desc := ''Endpoint negotiates TLS < 1.2, below BSSN/NIST minimums. '' @ cr_Note rep,
            f_Severity := SevHigh, f_CVSS := to_f64 (74 / 10), f_CWE := ''CWE-327'', f_Service := ''https'',
            f_Port := 443, f_Evidence := cr_Note rep\<rparr>]
      else []) @
     (if cr_WeakRSA rep then
        [Finding_zero
           \<lparr>f_Title := ''Weak RSA key length (< 2048-bit)'',
            f_Desc := ''Certificate uses an RSA key below the 2048-bit national crypto standard.'',
            f_Severity := SevMedium, f_CVSS := to_f64 (59 / 10), f_CWE := ''CWE-327'', f_Service := ''https'',
            f_Port := 443, f_Evidence := cr_Note rep\<rparr>]
      else [])"

definition parseCrypto :: "norm_env \<Rightarrow> string \<Rightarrow> string + Finding list" where
  "parseCrypto env data =
     (let (rep, bad) = unmarshal (dec_struct False crypto_fields) data no_report
      in if bad then Inl (''parse crypto report: '' @ json_error env data) else Inr (crypto_findings rep))"

section \<open>Secrets\<close>

record credential =
  cd_Principal :: string
  cd_Fingerprint :: string
  cd_Type :: string
  cd_Location :: string

definition credential_fields :: "(string \<times> credential decoder) list" where
  "credential_fields =
     [(''principal'', on_field cd_Principal (\<lambda>x. cd_Principal_update (\<lambda>_. x)) dec_string),
      (''fingerprint'', on_field cd_Fingerprint (\<lambda>x. cd_Fingerprint_update (\<lambda>_. x)) dec_string),
      (''type'', on_field cd_Type (\<lambda>x. cd_Type_update (\<lambda>_. x)) dec_string),
      (''location'', on_field cd_Location (\<lambda>x. cd_Location_update (\<lambda>_. x)) dec_string)]"

definition no_credential :: credential where
  "no_credential = \<lparr>cd_Principal = [], cd_Fingerprint = [], cd_Type = [], cd_Location = []\<rparr>"

definition secrets_report :: "credential list decoder" where
  "secrets_report = dec_struct False [(''credentials'', dec_list no_credential (dec_struct False credential_fields))]"

definition secret_finding :: "norm_env \<Rightarrow> credential \<Rightarrow> Finding" where
  "secret_finding env c =
     Finding_zero
       \<lparr>f_Title := ''Hard-coded credential for '' @ go_quoted env (cd_Principal c),
        f_Desc := cd_Type c @ '' credential found at '' @ cd_Location c @ '' (fingerprint '' @ cd_Fingerprint c @ '')'',
        f_Severity := SevHigh, f_CVSS := to_f64 (82 / 10), f_CWE := ''CWE-798'', f_Evidence := cd_Location c,
        f_Principal := cd_Principal c, f_CredFP := cd_Fingerprint c\<rparr>"

definition parseSecrets :: "norm_env \<Rightarrow> string \<Rightarrow> string + Finding list" where
  "parseSecrets env data =
     (let (rep, bad) = unmarshal secrets_report data []
      in if bad then Inl (''parse secrets report: '' @ json_error env data) else Inr (map (secret_finding env) rep))"

section \<open>Normalization\<close>

definition enrich :: "Feed \<Rightarrow> Asset \<Rightarrow> string \<Rightarrow> ScannerType \<Rightarrow> Finding \<Rightarrow> Finding" where
  "enrich fd a scanJobID sc f =
     (let f = f\<lparr>f_ScanJobID := scanJobID, f_AssetID := a_ID a, f_Scanner := sc, f_Status := FindingOpen\<rparr>;
          f = (if f64_eq (f_CVSS f) (Fin 0) then f\<lparr>f_CVSS := SeverityToCVSS (f_Severity f)\<rparr> else f);
          (score, known) = Score fd (f_CVSS f) (f_CVE f) (a_Criticality a);
          f = f\<lparr>f_RiskScore := score, f_KnownExploit := known\<rparr>
      in if f_CWE f \<noteq> []
         then f\<lparr>f_Compliance := Refs (f_CWE f), f_Remediation := Some (Remediation (f_CWE f))\<rparr>
         else f)"

definition Normalize :: "norm_env \<Rightarrow> Feed \<Rightarrow> RawResult \<Rightarrow> Asset \<Rightarrow> string \<Rightarrow> string + Finding list" where
  "Normalize env fd raw a scanJobID =
     (case (if raw_Format raw = ''nmap-xml'' then parseNmap env (raw_Data raw)
            else if raw_Format raw = ''nuclei-jsonl'' then parseNuclei (raw_Data raw)
            else if raw_Format raw = ''crypto-json'' then parseCrypto env (raw_Data raw)
            else if raw_Format raw = ''secrets-json'' then parseSecrets env (raw_Data raw)
            else Inl (''unknown format '' @ go_quoted env (raw_Format raw))) of
        Inl err \<Rightarrow> Inl err
      | Inr findings \<Rightarrow> Inr (map (enrich fd a scanJobID (raw_Scanner raw)) findings))"

section \<open>The reports of the adapters read back\<close>

definition report_ok :: "cryptoReport \<Rightarrow> bool" where
  "report_ok rep \<longleftrightarrow> utf8_ok (cr_Target rep) \<and> utf8_ok (cr_TLSVersion rep) \<and> utf8_ok (cr_Note rep)"

lemma utf8_ok_ascii_literal:
  "utf8_ok ''target''" "utf8_ok ''tls_version''" "utf8_ok ''weak_tls''" "utf8_ok ''weak_rsa''" "utf8_ok ''note''"
  "utf8_ok ''principal''" "utf8_ok ''fingerprint''" "utf8_ok ''type''" "utf8_ok ''location''" "utf8_ok ''credentials''"
  by (rule utf8_ok_ascii, simp add: byte_def)+

lemma crypto_read_back:
  assumes "report_ok rep"
  shows "unmarshal (dec_struct False crypto_fields) (enc (crypto_json rep)) no_report = (rep, False)"
proof -
  have "json_clean (crypto_json rep)"
    using assms by (simp add: crypto_json_def report_ok_def utf8_ok_ascii_literal)
  then have "parse_json (enc (crypto_json rep)) = Some (crypto_json rep)" by (rule parse_enc)
  then show ?thesis
    by (simp add: unmarshal_def crypto_json_def crypto_fields_def find_field_def on_field_def no_report_def)
qed

definition credential_of :: "gitleaksFinding \<Rightarrow> credential" where
  "credential_of f =
     \<lparr>cd_Principal = gl_RuleID f,
      cd_Fingerprint = (if gl_Fingerprint f = [] then gl_RuleID f @ '':'' @ gl_File f @ '':'' @ itoa (gl_StartLine f)
                        else gl_Fingerprint f),
      cd_Type = gl_Description f, cd_Location = gl_File f @ '':'' @ itoa (gl_StartLine f)\<rparr>"

definition gitleaks_ok :: "gitleaksFinding \<Rightarrow> bool" where
  "gitleaks_ok f \<longleftrightarrow> utf8_ok (gl_RuleID f) \<and> utf8_ok (gl_Description f) \<and> utf8_ok (gl_File f) \<and> utf8_ok (gl_Fingerprint f)"

lemma dec_string_ok: "texts_ok v \<Longrightarrow> utf8_ok x \<Longrightarrow> utf8_ok (fst (dec_string v x))"
  by (cases v) auto

lemma gitleaks_field_ok:
  assumes "find_field gitleaks_fields k = Some d" and "texts_ok v" and "gitleaks_ok f"
  shows "gitleaks_ok (fst (d v f))"
proof -
  have "d \<in> snd ` set gitleaks_fields"
    using assms(1) by (force simp: find_field_def dest: map_of_SomeD find_SomeD split: option.splits)
  then show ?thesis using assms(2,3) dec_string_ok
    by (auto simp: gitleaks_fields_def on_field_def gitleaks_ok_def case_prod_unfold Let_def)
qed

lemma gitleaks_struct_ok:
  assumes "texts_ok v" and "gitleaks_ok f"
  shows "gitleaks_ok (fst (dec_struct False gitleaks_fields v f))"
proof (cases v)
  case (JObj ms)
  have "members_ok ms \<Longrightarrow> gitleaks_ok (fst st) \<Longrightarrow>
      gitleaks_ok (fst (fold (\<lambda>(k, v) (y, e). case find_field gitleaks_fields k of None \<Rightarrow> (y, e \<or> False)
        | Some d \<Rightarrow> (let (y', e') = d v y in (y', e \<or> e'))) ms st))" for st
    by (induction ms arbitrary: st)
      (auto simp: case_prod_unfold Let_def gitleaks_field_ok split: option.split)
  from this [of "(f, False)"] assms JObj show ?thesis by simp
qed (use assms in auto)

lemma gitleaks_findings_ok: "f \<in> set (gitleaks_findings raw) \<Longrightarrow> gitleaks_ok f"
proof -
  assume f: "f \<in> set (gitleaks_findings raw)"
  have z: "gitleaks_ok no_gitleaks" by (simp add: gitleaks_ok_def no_gitleaks_def)
  obtain v where p: "parse_json raw = Some v" and f: "f \<in> set (fst (dec_list no_gitleaks (dec_struct False gitleaks_fields) v []))"
    using f by (auto simp: gitleaks_findings_def unmarshal_def split: if_splits option.splits)
  have t: "texts_ok v" using p by (rule parse_json_texts_ok)
  from f t show ?thesis
    by (cases v) (auto simp: all_texts_ok_iff intro: gitleaks_struct_ok z)
qed

lemma jsons_clean_iff: "jsons_clean vs \<longleftrightarrow> (\<forall>v \<in> set vs. json_clean v)"
  by (induction vs) auto

lemma cred_json_clean: "gitleaks_ok f \<Longrightarrow> json_clean (cred_json f)"
  by (auto simp: cred_json_def gitleaks_ok_def utf8_ok_ascii_literal utf8_ok_itoa
      byte_def intro!: utf8_ok_append utf8_ok_Cons)

lemma dec_credential: "dec_struct False credential_fields (cred_json f) no_credential = (credential_of f, False)"
  by (simp add: cred_json_def credential_fields_def find_field_def on_field_def no_credential_def credential_of_def)

lemma secrets_read_back:
  "unmarshal secrets_report (convertGitleaks raw) [] = (map credential_of (gitleaks_findings raw), False)"
proof -
  let ?v = "JObj [(''credentials'', JArr (map cred_json (gitleaks_findings raw)))]"
  have "json_clean ?v"
    by (auto simp: jsons_clean_iff utf8_ok_ascii_literal intro!: cred_json_clean gitleaks_findings_ok)
  then have "parse_json (convertGitleaks raw) = Some ?v" unfolding convertGitleaks_def by (rule parse_enc)
  then show ?thesis
    by (simp add: unmarshal_def secrets_report_def find_field_def dec_credential comp_def list_ex_iff)
qed

section \<open>What every parser gives\<close>

definition severities :: "Severity set" where
  "severities = {SevInfo, SevLow, SevMedium, SevHigh, SevCritical}"

text \<open>A finding before it is enriched: a known severity and a base score that is zero or between 4 and 10.\<close>

definition base_ok :: "Finding \<Rightarrow> bool" where
  "base_ok f \<longleftrightarrow> f_Severity f \<in> severities \<and>
     (f_CVSS f = Fin 0 \<or> (Fin 4 \<le> f_CVSS f \<and> f_CVSS f \<le> Fin 10)) \<and> f_ID f = []"

lemma f64_between: "4 \<le> q \<Longrightarrow> q \<le> 10 \<Longrightarrow> Fin 4 \<le> to_f64 q \<and> to_f64 q \<le> Fin 10"
  using to_f64_mono [of 4 q] to_f64_mono [of q 10] by simp

lemma severityFromCVSS_in: "severityFromCVSS c \<in> severities"
  by (simp add: severityFromCVSS_def severities_def)

lemma parseSeverity_in: "parseSeverity s \<in> severities"
  by (simp add: parseSeverity_def severities_def Let_def)

lemma sensitiveServices_between: "map_of sensitiveServices svc = Some c \<Longrightarrow> Fin 4 \<le> c \<and> c \<le> Fin 10"
proof -
  have "list_all (\<lambda>(s, c). Fin 4 \<le> c \<and> c \<le> Fin 10) sensitiveServices"
    unfolding sensitiveServices_def list.pred_inject split
    by (intro conjI f64_between [THEN conjunct1] f64_between [THEN conjunct2]) simp_all
  moreover assume "map_of sensitiveServices svc = Some c"
  ultimately show ?thesis by (auto simp: list_all_iff dest: map_of_SomeD)
qed

lemma port_finding_ok: "base_ok (port_finding p)"
  using sensitiveServices_between severityFromCVSS_in
  by (auto simp: port_finding_def base_ok_def Let_def Finding_zero_def severities_def split: option.split)

lemma nuclei_finding_ok: "base_ok (nuclei_finding n)"
  using parseSeverity_in by (simp add: nuclei_finding_def base_ok_def Let_def Finding_zero_def)

lemma crypto_findings_ok: "f \<in> set (crypto_findings rep) \<Longrightarrow> base_ok f"
  using f64_between [of "74 / 10"] f64_between [of "59 / 10"]
  by (auto simp: crypto_findings_def base_ok_def Finding_zero_def severities_def split: if_splits)

lemma secret_finding_ok: "base_ok (secret_finding env c)"
  using f64_between [of "82 / 10"] by (simp add: secret_finding_def base_ok_def Finding_zero_def severities_def)

text \<open>The lines of nuclei that count.\<close>

definition nuclei_line :: "string \<Rightarrow> nucleiLine option" where
  "nuclei_line line =
     (let line = trim_space line; (n, bad) = unmarshal (dec_struct False nuclei_fields) line no_nuclei
      in if line = [] \<or> bad then None else Some n)"

lemma parseNuclei_lines:
  "parseNuclei data = Inr (map nuclei_finding (List.map_filter nuclei_line (split_on (CHR 0x0A) (trim_space data))))"
proof -
  have "fold nuclei_step ls out = out @ map nuclei_finding (List.map_filter nuclei_line ls)" for ls out
    by (induction ls arbitrary: out)
      (auto simp: nuclei_step_def nuclei_line_def map_filter_simps Let_def split: prod.split)
  then show ?thesis by (simp add: parseNuclei_def)
qed

definition parse_raw :: "norm_env \<Rightarrow> RawResult \<Rightarrow> string + Finding list" where
  "parse_raw env raw =
     (if raw_Format raw = ''nmap-xml'' then parseNmap env (raw_Data raw)
      else if raw_Format raw = ''nuclei-jsonl'' then parseNuclei (raw_Data raw)
      else if raw_Format raw = ''crypto-json'' then parseCrypto env (raw_Data raw)
      else if raw_Format raw = ''secrets-json'' then parseSecrets env (raw_Data raw)
      else Inl (''unknown format '' @ go_quoted env (raw_Format raw)))"

lemma Normalize_alt:
  "Normalize env fd raw a jid =
     (case parse_raw env raw of Inl err \<Rightarrow> Inl err | Inr fs \<Rightarrow> Inr (map (enrich fd a jid (raw_Scanner raw)) fs))"
  by (simp add: Normalize_def parse_raw_def)

lemma parse_raw_ok: "parse_raw env raw = Inr fs \<Longrightarrow> f \<in> set fs \<Longrightarrow> base_ok f"
  using port_finding_ok nuclei_finding_ok crypto_findings_ok secret_finding_ok
  by (auto simp: parse_raw_def parseNmap_def parseNuclei_lines parseCrypto_def parseSecrets_def Let_def
      split: if_splits option.splits prod.splits)

lemma SeverityToCVSS_between: "Fin 1 \<le> SeverityToCVSS s \<and> SeverityToCVSS s \<le> Fin 10"
  using to_f64_mono [of 1 "95 / 10"] to_f64_mono [of "95 / 10" 10] to_f64_mono [of 1 "75 / 10"] to_f64_mono [of "75 / 10" 10]
  by (simp add: SeverityToCVSS_def)

lemma enrich_base:
  assumes "base_ok f"
  shows "Fin 1 \<le> f_CVSS (enrich fd a jid sc f) \<and> f_CVSS (enrich fd a jid sc f) \<le> Fin 10 \<and>
    f_Severity (enrich fd a jid sc f) \<in> severities"
proof -
  have "Fin 1 \<le> f_CVSS f" if "Fin 4 \<le> f_CVSS f" using f64_le_trans [OF _ that] by simp
  with assms SeverityToCVSS_between [of "f_Severity f"] show ?thesis
    by (auto simp: enrich_def base_ok_def Let_def split: prod.split)
qed

lemma enrich_rest:
  "f_ScanJobID (enrich fd a jid sc f) = jid \<and> f_AssetID (enrich fd a jid sc f) = a_ID a \<and>
   f_Scanner (enrich fd a jid sc f) = sc \<and> f_Status (enrich fd a jid sc f) = FindingOpen \<and>
   (f_RiskScore (enrich fd a jid sc f), f_KnownExploit (enrich fd a jid sc f)) =
     Score fd (f_CVSS (enrich fd a jid sc f)) (f_CVE f) (a_Criticality a) \<and>
   f_CVE (enrich fd a jid sc f) = f_CVE f \<and> f_CWE (enrich fd a jid sc f) = f_CWE f \<and>
   f_Principal (enrich fd a jid sc f) = f_Principal f \<and> f_CredFP (enrich fd a jid sc f) = f_CredFP f \<and>
   (f_CWE f \<noteq> [] \<longrightarrow> f_Compliance (enrich fd a jid sc f) = Refs (f_CWE f) \<and>
      f_Remediation (enrich fd a jid sc f) = Some (Remediation (f_CWE f)))"
  by (auto simp: enrich_def Let_def split: prod.split)

section \<open>Properties\<close>

lemma normalized_exploit:
  assumes "Normalize env fd raw a jid = Inr fs" and "f \<in> set fs"
  shows "f_KnownExploit f = IsKEV fd (f_CVE f)"
proof -
  obtain gs where "parse_raw env raw = Inr gs" and "fs = map (enrich fd a jid (raw_Scanner raw)) gs"
    using assms(1) by (auto simp: Normalize_alt split: sum.splits)
  then obtain g where f: "f = enrich fd a jid (raw_Scanner raw) g" using assms(2) by auto
  have "(f_RiskScore f, f_KnownExploit f) = Score fd (f_CVSS f) (f_CVE f) (a_Criticality a)"
    unfolding f using enrich_rest [of fd a jid "raw_Scanner raw" g] by simp
  then show ?thesis by (metis Score_alt snd_conv)
qed

text \<open>C31: Every finding that normalization produces, from whatever tool and text, belongs to the job, the asset and the
  scanner it came from, is open, has one of the five severities, a base score between 1 and 10 and a
  risk score of a whole number of tenths between 0 and 10, is flagged as exploited when its CVE list
  says so, and carries the controls and the remediation of its weakness if it has one.\<close>

theorem findings_enriched:
  assumes "Normalize env fd raw a jid = Inr fs" and "f \<in> set fs"
  shows "f_ScanJobID f = jid \<and> f_AssetID f = a_ID a \<and> f_Scanner f = raw_Scanner raw \<and> f_Status f = FindingOpen \<and>
    f_Severity f \<in> severities \<and> Fin 1 \<le> f_CVSS f \<and> f_CVSS f \<le> Fin 10 \<and>
    (\<exists>k. 0 \<le> k \<and> k \<le> 100 \<and> f_RiskScore f = Fin (rnd64 (of_int k / 10))) \<and>
    f_KnownExploit f = IsKEV fd (f_CVE f) \<and>
    (f_CWE f \<noteq> [] \<longrightarrow> map c_Framework (f_Compliance f) = frameworks \<and> f_Remediation f = Some (Remediation (f_CWE f)))"
proof -
  obtain gs where p: "parse_raw env raw = Inr gs" and fs: "fs = map (enrich fd a jid (raw_Scanner raw)) gs"
    using assms(1) by (auto simp: Normalize_alt split: sum.splits)
  then obtain g where "g \<in> set gs" and f: "f = enrich fd a jid (raw_Scanner raw) g" using assms(2) by auto
  with p have "base_ok g" by (intro parse_raw_ok)
  then have b: "Fin 1 \<le> f_CVSS f" "f_CVSS f \<le> Fin 10" "f_Severity f \<in> severities"
    and r: "(f_RiskScore f, f_KnownExploit f) = Score fd (f_CVSS f) (f_CVE f) (a_Criticality a)"
    unfolding f using enrich_base enrich_rest by auto
  have "f_CVSS f \<noteq> NaN" using b(1) by (cases "f_CVSS f") auto
  from Score_tenths [OF this, of fd "f_CVE f" "a_Criticality a"] r
  obtain k where k: "0 \<le> k" "k \<le> 100" "f_RiskScore f = Fin (rnd64 (of_int k / 10))" by (metis fst_conv)
  have "f_KnownExploit f = IsKEV fd (f_CVE f)" by (rule normalized_exploit [OF assms])
  moreover have "map c_Framework (Refs cwe) = frameworks" for cwe by (simp add: Refs_entry_of frameworks_def)
  ultimately show ?thesis using b k enrich_rest [of fd a jid "raw_Scanner raw" g] by (auto simp: f)
qed

text \<open>C32: The reports the adapters write are read back without loss: a cryptographic audit with valid texts gives its
  findings, and a gitleaks report gives one finding per entry, in order, with its rule, place and
  fingerprint.\<close>

theorem reports_round_trip:
  assumes "report_ok rep"
  shows "parseCrypto env (enc (crypto_json rep)) = Inr (crypto_findings rep) \<and>
    parseSecrets env (convertGitleaks raw) = Inr (map (\<lambda>f. secret_finding env (credential_of f)) (gitleaks_findings raw))"
  using crypto_read_back [OF assms] secrets_read_back [of raw]
  by (simp add: parseCrypto_def parseSecrets_def comp_def)

lemma sample_report_ok: "report_ok \<lparr>cr_Target = ''10.0.0.1'', cr_TLSVersion = ''1.0'', cr_WeakTLS = True, cr_WeakRSA = False, cr_Note = ''old''\<rparr>"
  by (simp add: report_ok_def utf8_ok_ascii byte_def)

text \<open>An environment that quotes nothing.\<close>

definition sample_norm_env :: norm_env where
  "sample_norm_env = \<lparr>xml_error = (\<lambda>s. s), json_error = (\<lambda>s. s), go_quoted = (\<lambda>s. s)\<rparr>"

theorem reports_round_trip_witness:
  "parseCrypto sample_norm_env (enc (crypto_json \<lparr>cr_Target = ''10.0.0.1'', cr_TLSVersion = ''1.0'', cr_WeakTLS = True, cr_WeakRSA = False, cr_Note = ''old''\<rparr>)) =
     Inr (crypto_findings \<lparr>cr_Target = ''10.0.0.1'', cr_TLSVersion = ''1.0'', cr_WeakTLS = True, cr_WeakRSA = False, cr_Note = ''old''\<rparr>)"
  using reports_round_trip [OF sample_report_ok] by blast

text \<open>What nmap prints for one open port, read by the model of the XML decoder.\<close>

definition sample_nmap :: string where
  "sample_nmap = ''<?xml version=\"1.0\"?><nmaprun><host><ports><port protocol=\"tcp\" portid=\"22\"><state state=\"open\"/><service name=\"SSH\" product=\"OpenSSH\" version=\"7.4\"/></port></ports></host></nmaprun>''"

lemma sample_nmap_decoded:
  "decode_nmap sample_nmap = Some [\<lparr>np_Protocol = ''tcp'', np_PortID = 22, np_State = ''open'', np_Name = ''SSH'',
     np_Product = ''OpenSSH'', np_Version = ''7.4'', np_Tunnel = []\<rparr>]"
  by code_simp

theorem findings_enriched_witness:
  "\<exists>f. Normalize sample_norm_env global_feed
       \<lparr>raw_Scanner = ScannerNmap, raw_Format = ''nmap-xml'', raw_Data = sample_nmap, raw_Mock = False\<rparr>
       (sample_asset ''10.0.0.7'') ''j1'' = Inr [f] \<and>
     f_ScanJobID f = ''j1'' \<and> f_Severity f \<in> severities \<and> Fin 1 \<le> f_CVSS f \<and> f_CVSS f \<le> Fin 10"
proof -
  let ?r = "\<lparr>raw_Scanner = ScannerNmap, raw_Format = ''nmap-xml'', raw_Data = sample_nmap, raw_Mock = False\<rparr>"
  obtain f where n: "Normalize sample_norm_env global_feed ?r (sample_asset ''10.0.0.7'') ''j1'' = Inr [f]"
    by (simp add: Normalize_def parseNmap_def sample_nmap_decoded)
  then show ?thesis using findings_enriched [OF n, of f] by auto
qed

end
