(* ===== verification/Graph.thy ===== *)
theory Graph
  imports Models "HOL-Library.List_Lexorder" "HOL-Library.Char_ord" "HOL-Library.Product_Lexorder"
begin

text \<open>
  \<open>internal/graph/graph.go\<close>: the attack graph in Neo4j.  The database is a record with a list per node
  label and relationship type, in creation order; each method is the Cypher statement it sends, run in
  a transaction, and the Go code around it.  What is outside the program enters through an
  environment: whether the \<open>n\<close>-th transaction fails and with which error, the order in which rows and
  list items come back where the statement leaves it open, and the procedure \<open>apoc.algo.dijkstra\<close>.
\<close>

section \<open>The database\<close>

record asset_node =
  an_id :: string
  an_name :: string
  an_target :: string
  an_criticality :: string
  an_exposure :: string

record vuln_node =
  vn_id :: string
  vn_title :: string
  vn_cwe :: string
  vn_cvss :: f64
  vn_risk :: f64
  vn_kev :: bool
  vn_severity :: string

record account_node =
  ac_id :: string
  ac_username :: string
  ac_privilege :: string
  ac_asset_id :: string

record cred_node =
  cn_fingerprint :: string
  cn_principal :: string

record reach_rel =
  rr_ends :: "string \<times> string"
  rr_port :: int
  rr_proto :: string

record escalate_rel =
  es_ends :: "string \<times> string"
  es_technique :: string
  es_cwe :: string
  es_weight :: f64
  es_risk :: "f64 option"

record reuse_rel =
  ru_ends :: "string \<times> string"
  ru_weight :: f64
  ru_via :: "string option"

record read_rel =
  rd_ends :: "string \<times> string"
  rd_technique :: string

record graph =
  g_assets :: "asset_node list"
  g_vulns :: "vuln_node list"
  g_accounts :: "account_node list"
  g_creds :: "cred_node list"
  has_vuln :: "(string \<times> string) list"
  can_reach :: "reach_rel list"
  has_account :: "(string \<times> string) list"
  can_escalate :: "escalate_rel list"
  can_read :: "read_rel list"
  valid_on :: "(string \<times> string) list"
  cred_reuse :: "reuse_rel list"
  g_tick :: nat

definition graph_empty :: graph where
  "graph_empty = \<lparr>g_assets = [], g_vulns = [], g_accounts = [], g_creds = [], has_vuln = [], can_reach = [],
     has_account = [], can_escalate = [], can_read = [], valid_on = [], cred_reuse = [], g_tick = 0\<rparr>"

text \<open>Values of the driver: the Go code looks at their dynamic type.\<close>

datatype neo = NNull | NStr string | NInt int | NFloat f64 | NList "neo list" | NMap "(string \<times> neo) list"

text \<open>A relationship as a path shows it.\<close>

record path_rel =
  pr_type :: string
  pr_technique :: neo
  pr_cwe :: neo
  pr_weight :: f64

record graph_env =
  g_fault :: "nat \<Rightarrow> string option"
  g_late :: "nat \<Rightarrow> bool"
  row_order :: "nat \<Rightarrow> nat \<Rightarrow> nat list"
  item_order :: "nat \<Rightarrow> string \<Rightarrow> nat \<Rightarrow> nat list"
  apoc_dijkstra :: "graph \<Rightarrow> string \<Rightarrow> string \<Rightarrow> (string list \<times> path_rel list \<times> f64) list"

text \<open>A permutation of positions, applied to rows; anything else leaves them alone.\<close>

definition arrange :: "nat list \<Rightarrow> 'a list \<Rightarrow> 'a list" where
  "arrange p xs = (if mset p = mset [0..<length xs] then map (\<lambda>i. xs ! i) p else xs)"

text \<open>
  A transaction: it runs, or it fails and leaves the graph alone, or it is committed and only the reply is lost
  (\<open>g_late\<close>).  The driver repeats an attempt that failed before its commit, which the server has rolled back, and gives
  up when the commit itself got no reply: what the environment says of a transaction is of its last attempt.
\<close>

definition transaction :: "graph_env \<Rightarrow> (nat \<Rightarrow> graph \<Rightarrow> 'a \<times> graph) \<Rightarrow> graph \<Rightarrow> (string + 'a) \<times> graph" where
  "transaction env f g =
     (let t = g_tick g; g = g\<lparr>g_tick := Suc t\<rparr>
      in case g_fault env t of
           Some e \<Rightarrow> (Inl e, if g_late env t then snd (f t g) else g)
         | None \<Rightarrow> (let (x, g) = f t g in (Inr x, g)))"

text \<open>\<open>MERGE\<close> of a node or relationship with a key: a match gets the change \<open>on_match\<close>, a new one is created.\<close>

definition has_row :: "('r \<Rightarrow> 'k) \<Rightarrow> 'k \<Rightarrow> 'r list \<Rightarrow> bool" where
  "has_row key k rs \<longleftrightarrow> list_ex (\<lambda>r. key r = k) rs"

definition merge_row :: "('r \<Rightarrow> 'k) \<Rightarrow> 'r \<Rightarrow> ('r \<Rightarrow> 'r) \<Rightarrow> 'r list \<Rightarrow> 'r list" where
  "merge_row key new on_match rs =
     (if has_row key (key new) rs then map (\<lambda>r. if key r = key new then on_match r else r) rs else rs @ [new])"

abbreviation merge_pair :: "string \<times> string \<Rightarrow> (string \<times> string) list \<Rightarrow> (string \<times> string) list" where
  "merge_pair p ps \<equiv> merge_row (\<lambda>x. x) p (\<lambda>x. x) ps"

section \<open>Assets and findings\<close>

definition Exposure :: "Asset \<Rightarrow> string" where
  "Exposure a =
     (if list_ex (\<lambda>t. t = ''public'' \<or> t = ''external'' \<or> t = ''internet'') (a_Tags a) then ''external'' else ''internal'')"

definition SyncAsset :: "graph_env \<Rightarrow> Asset \<Rightarrow> graph \<Rightarrow> (string + unit) \<times> graph" where
  "SyncAsset env a =
     transaction env (\<lambda>t g.
       let n = \<lparr>an_id = a_ID a, an_name = a_Name a, an_target = a_Target a, an_criticality = a_Criticality a,
                an_exposure = Exposure a\<rparr>
       in ((), g\<lparr>g_assets := merge_row an_id n (\<lambda>_. n) (g_assets g)\<rparr>))"

definition SyncFinding :: "graph_env \<Rightarrow> Finding \<Rightarrow> graph \<Rightarrow> (string + unit) \<times> graph" where
  "SyncFinding env f =
     transaction env (\<lambda>t g.
       if \<not> has_row an_id (f_AssetID f) (g_assets g) then ((), g)
       else let v = \<lparr>vn_id = f_ID f, vn_title = f_Title f, vn_cwe = f_CWE f, vn_cvss = f_CVSS f, vn_risk = f_RiskScore f,
                     vn_kev = f_KnownExploit f, vn_severity = f_Severity f\<rparr>
       in ((), g\<lparr>g_vulns := merge_row vn_id v (\<lambda>_. v) (g_vulns g),
                 has_vuln := merge_pair (f_AssetID f, f_ID f) (has_vuln g)\<rparr>))"

definition UpsertReachability ::
  "graph_env \<Rightarrow> string \<Rightarrow> string \<Rightarrow> int \<Rightarrow> string \<Rightarrow> graph \<Rightarrow> (string + unit) \<times> graph" where
  "UpsertReachability env srcID dstID port proto =
     transaction env (\<lambda>t g.
       if \<not> (has_row an_id srcID (g_assets g) \<and> has_row an_id dstID (g_assets g)) then ((), g)
       else let r = \<lparr>rr_ends = (srcID, dstID), rr_port = port, rr_proto = proto\<rparr>
       in ((), g\<lparr>can_reach := merge_row rr_ends r (\<lambda>_. r) (can_reach g)\<rparr>))"

section \<open>Accounts\<close>

record Account =
  acc_ID :: string
  acc_Username :: string
  acc_Privilege :: string
  acc_AssetID :: string

definition SyncAccount :: "graph_env \<Rightarrow> Account \<Rightarrow> graph \<Rightarrow> (string + unit) \<times> graph" where
  "SyncAccount env a =
     transaction env (\<lambda>t g.
       if \<not> has_row an_id (acc_AssetID a) (g_assets g) then ((), g)
       else let n = \<lparr>ac_id = acc_ID a, ac_username = acc_Username a, ac_privilege = acc_Privilege a, ac_asset_id = acc_AssetID a\<rparr>
       in ((), g\<lparr>g_accounts := merge_row ac_id n (\<lambda>_. n) (g_accounts g),
                 has_account := merge_pair (acc_AssetID a, acc_ID a) (has_account g)\<rparr>))"

text \<open>
  \<open>edge\<close> with its two callers: both accounts have to exist; the properties given are set, the others of
  an edge that was there are kept.  The result says whether both did exist.
\<close>

definition both_accounts :: "string \<Rightarrow> string \<Rightarrow> graph \<Rightarrow> bool" where
  "both_accounts a b g \<longleftrightarrow> has_row ac_id a (g_accounts g) \<and> has_row ac_id b (g_accounts g)"

definition UpsertEscalation ::
  "graph_env \<Rightarrow> string \<Rightarrow> string \<Rightarrow> string \<Rightarrow> string \<Rightarrow> f64 \<Rightarrow> graph \<Rightarrow> (string + bool) \<times> graph" where
  "UpsertEscalation env fromID toID technique cwe weight =
     transaction env (\<lambda>t g.
       if \<not> both_accounts fromID toID g then (False, g)
       else let r = \<lparr>es_ends = (fromID, toID), es_technique = technique, es_cwe = cwe, es_weight = weight, es_risk = None\<rparr>
       in (True, g\<lparr>can_escalate := merge_row es_ends r
                    (\<lambda>o'. o'\<lparr>es_technique := technique, es_cwe := cwe, es_weight := weight\<rparr>) (can_escalate g)\<rparr>))"

definition UpsertCredentialReuse ::
  "graph_env \<Rightarrow> string \<Rightarrow> string \<Rightarrow> f64 \<Rightarrow> graph \<Rightarrow> (string + bool) \<times> graph" where
  "UpsertCredentialReuse env fromID toID weight =
     transaction env (\<lambda>t g.
       if \<not> both_accounts fromID toID g then (False, g)
       else let r = \<lparr>ru_ends = (fromID, toID), ru_weight = weight, ru_via = None\<rparr>
       in (True, g\<lparr>cred_reuse := merge_row ru_ends r (\<lambda>o'. o'\<lparr>ru_weight := weight\<rparr>) (cred_reuse g)\<rparr>))"

section \<open>Weights\<close>

definition round2 :: "f64 \<Rightarrow> f64" where
  "round2 f = f64_div (f64_of_int (go_int (f * to_f64 100 + to_f64 (1 / 2)))) (to_f64 100)"

definition AutoEscalationWeight :: "f64 \<Rightarrow> f64" where
  "AutoEscalationWeight risk =
     (let w = to_f64 10 - risk;
          w = (if w < to_f64 (3 / 10) then to_f64 (3 / 10) else w);
          w = (if to_f64 9 < w then to_f64 9 else w)
      in round2 w)"

definition AutoReuseWeight :: "f64 \<Rightarrow> f64" where
  "AutoReuseWeight risk =
     (let w = to_f64 11 - risk;
          w = (if w < to_f64 1 then to_f64 1 else w);
          w = (if to_f64 9 < w then to_f64 9 else w)
      in round2 w)"

definition AutoAccountID :: "string \<Rightarrow> string \<Rightarrow> string" where
  "AutoAccountID assetID role = ''auto-'' @ role @ ''-'' @ assetID"

section \<open>Derived capabilities\<close>

text \<open>The foothold and the root account of an asset, which both statements make sure exist.\<close>

definition merge_auto_accounts :: "string \<Rightarrow> graph \<Rightarrow> graph" where
  "merge_auto_accounts assetID g =
     (let lo = \<lparr>ac_id = AutoAccountID assetID ''foothold'', ac_username = ''foothold'', ac_privilege = ''user'', ac_asset_id = assetID\<rparr>;
          hi = \<lparr>ac_id = AutoAccountID assetID ''root'', ac_username = ''root'', ac_privilege = ''root'', ac_asset_id = assetID\<rparr>
      in g\<lparr>g_accounts := merge_row ac_id hi (\<lambda>n. n) (merge_row ac_id lo (\<lambda>n. n) (g_accounts g)),
           has_account := merge_pair (assetID, ac_id hi) (merge_pair (assetID, ac_id lo) (has_account g))\<rparr>)"

definition AutoDeriveEscalation ::
  "graph_env \<Rightarrow> string \<Rightarrow> string \<Rightarrow> string \<Rightarrow> f64 \<Rightarrow> graph \<Rightarrow> (string + unit) \<times> graph" where
  "AutoDeriveEscalation env assetID cwe technique risk =
     (let weight = AutoEscalationWeight risk
      in transaction env (\<lambda>t g.
        if \<not> has_row an_id assetID (g_assets g) then ((), g)
        else let g = merge_auto_accounts assetID g;
                 r = \<lparr>es_ends = (AutoAccountID assetID ''foothold'', AutoAccountID assetID ''root''),
                      es_technique = technique, es_cwe = cwe, es_weight = weight, es_risk = Some risk\<rparr>
        in ((), g\<lparr>can_escalate := merge_row es_ends r
                    (\<lambda>o'. if weight < es_weight o' then r else o') (can_escalate g)\<rparr>)))"

text \<open>The pairs of the second statement: who can read the credential, and where it is valid, on different assets.\<close>

definition reuse_pairs :: "string \<Rightarrow> graph \<Rightarrow> (account_node \<times> account_node) list" where
  "reuse_pairs fp g =
     [(rx, fy). rx \<leftarrow> filter (\<lambda>a. has_row rd_ends (ac_id a, fp) (can_read g)) (g_accounts g),
                fy \<leftarrow> filter (\<lambda>a. (fp, ac_id a) \<in> set (valid_on g)) (g_accounts g),
                ac_asset_id rx \<noteq> ac_asset_id fy]"

definition principal_of :: "string \<Rightarrow> graph \<Rightarrow> string" where
  "principal_of fp g = (case find (\<lambda>c. cn_fingerprint c = fp) (g_creds g) of Some c \<Rightarrow> cn_principal c | None \<Rightarrow> [])"

text \<open>The first statement: root can read the credential, which is valid for the foothold.\<close>

definition record_credential :: "graph_env \<Rightarrow> string \<Rightarrow> string \<Rightarrow> string \<Rightarrow> string \<Rightarrow> graph \<Rightarrow> (string + unit) \<times> graph" where
  "record_credential env assetID princ fp technique =
     transaction env (\<lambda>t g.
       if \<not> has_row an_id assetID (g_assets g) then ((), g)
       else let g = merge_auto_accounts assetID g;
                c = \<lparr>cn_fingerprint = fp, cn_principal = princ\<rparr>;
                r = \<lparr>rd_ends = (AutoAccountID assetID ''root'', fp), rd_technique = technique\<rparr>
       in ((), g\<lparr>g_creds := merge_row cn_fingerprint c (\<lambda>n. n) (g_creds g),
                 can_read := merge_row rd_ends r (\<lambda>_. r) (can_read g),
                 valid_on := merge_pair (fp, AutoAccountID assetID ''foothold'') (valid_on g)\<rparr>))"

text \<open>The second: an edge for every pair, with its weight set only when it is created.\<close>

definition merge_reuse :: "f64 \<Rightarrow> string option \<Rightarrow> (account_node \<times> account_node) list \<Rightarrow> reuse_rel list \<Rightarrow> reuse_rel list" where
  "merge_reuse w via ps rs =
     fold (\<lambda>(rx, fy) rs. merge_row ru_ends \<lparr>ru_ends = (ac_id rx, ac_id fy), ru_weight = w, ru_via = via\<rparr> (\<lambda>o'. o') rs) ps rs"

definition infer_reuse :: "graph_env \<Rightarrow> string \<Rightarrow> f64 \<Rightarrow> graph \<Rightarrow> (string + int) \<times> graph" where
  "infer_reuse env fp weight =
     transaction env (\<lambda>t g.
       let ps = reuse_pairs fp g;
           via = Some (''shared credential: '' @ principal_of fp g)
       in (int (length ps), g\<lparr>cred_reuse := merge_reuse weight via ps (cred_reuse g)\<rparr>))"

definition AutoDeriveCredentialReuse ::
  "graph_env \<Rightarrow> string \<Rightarrow> string \<Rightarrow> string \<Rightarrow> string \<Rightarrow> f64 \<Rightarrow> graph \<Rightarrow> (string + int) \<times> graph" where
  "AutoDeriveCredentialReuse env assetID princ fp technique risk g =
     (let weight = AutoReuseWeight risk
      in case record_credential env assetID princ fp technique g of
           (Inl e, g) \<Rightarrow> (Inl e, g)
         | (Inr _, g) \<Rightarrow> infer_reuse env fp weight g)"

section \<open>Reading values\<close>

fun toStr :: "neo \<Rightarrow> string" where
  "toStr (NStr s) = s"
| "toStr _ = []"

fun toFloat :: "neo \<Rightarrow> f64" where
  "toFloat (NFloat f) = f"
| "toFloat (NInt n) = f64_of_int n"
| "toFloat _ = Fin 0"

fun toInt :: "neo \<Rightarrow> int" where
  "toInt (NInt n) = n"
| "toInt (NFloat f) = go_int f"
| "toInt _ = 0"

fun asSlice :: "neo \<Rightarrow> neo list" where
  "asSlice (NList xs) = xs"
| "asSlice _ = []"

text \<open>A field of a record or of a map; a missing one is \<open>nil\<close>.\<close>

fun get_field :: "neo \<Rightarrow> string \<Rightarrow> neo" where
  "get_field (NMap m) k = (case map_of m k of Some v \<Rightarrow> v | None \<Rightarrow> NNull)"
| "get_field _ k = NNull"

definition asset_name :: "graph \<Rightarrow> string \<Rightarrow> string option" where
  "asset_name g i = map_option an_name (find (\<lambda>n. an_id n = i) (g_assets g))"

text \<open>\<open>ORDER BY\<close> sorts stably what comes back in any order; a float key puts NaN last.\<close>

fun float_key :: "f64 \<Rightarrow> int \<times> rat" where
  "float_key NInf = (0, 0)"
| "float_key (Fin q) = (1, q)"
| "float_key PInf = (2, 0)"
| "float_key NaN = (3, 0)"

section \<open>Accounts of an asset\<close>

definition account_rows :: "graph \<Rightarrow> string \<Rightarrow> neo list" where
  "account_rows g assetID =
     (if \<not> has_row an_id assetID (g_assets g) then []
      else map (\<lambda>a. NMap [(''id'', NStr (ac_id a)), (''username'', NStr (ac_username a)),
                         (''privilege'', NStr (ac_privilege a)), (''asset_id'', NStr (ac_asset_id a))])
             (filter (\<lambda>a. (assetID, ac_id a) \<in> set (has_account g)) (g_accounts g)))"

definition ListAccounts :: "graph_env \<Rightarrow> string \<Rightarrow> graph \<Rightarrow> (string + Account list) \<times> graph" where
  "ListAccounts env assetID =
     transaction env (\<lambda>t g.
       let rows = account_rows g assetID;
           recs = sort_key (\<lambda>r. toStr (get_field r ''privilege'')) (arrange (row_order env t (length rows)) rows)
       in (map (\<lambda>r. \<lparr>acc_ID = toStr (get_field r ''id''), acc_Username = toStr (get_field r ''username''),
                     acc_Privilege = toStr (get_field r ''privilege''), acc_AssetID = toStr (get_field r ''asset_id'')\<rparr>) recs, g))"

section \<open>Privilege escalation paths\<close>

record PrivEscStep =
  ps_Type :: string
  ps_Technique :: string
  ps_CWE :: string
  ps_Weight :: f64

record PrivEscNode =
  pn_AccountID :: string
  pn_Username :: string
  pn_Privilege :: string
  pn_Asset :: string

record PrivEscPath =
  pp_Accounts :: "PrivEscNode list"
  pp_Steps :: "PrivEscStep list"
  pp_TotalCost :: f64
  pp_Found :: bool

definition path_account :: "graph_env \<Rightarrow> nat \<Rightarrow> graph \<Rightarrow> string \<Rightarrow> neo" where
  "path_account env t g i =
     (let n = find (\<lambda>a. ac_id a = i) (g_accounts g);
          names = List.map_filter (asset_name g) (map fst (filter (\<lambda>(a, acc). acc = i) (has_account g)));
          names = arrange (item_order env t i (length names)) names
      in NMap [(''id'', NStr i),
               (''username'', case n of Some a \<Rightarrow> NStr (ac_username a) | None \<Rightarrow> NNull),
               (''privilege'', case n of Some a \<Rightarrow> NStr (ac_privilege a) | None \<Rightarrow> NNull),
               (''asset'', case names of x # _ \<Rightarrow> NStr x | [] \<Rightarrow> NNull)])"

definition path_rows :: "graph_env \<Rightarrow> nat \<Rightarrow> graph \<Rightarrow> string \<Rightarrow> string \<Rightarrow> neo list" where
  "path_rows env t g startID targetID =
     (if \<not> both_accounts startID targetID g then []
      else map (\<lambda>(nodes, rels, cost).
             NMap [(''accounts'', NList (map (path_account env t g) nodes)),
                   (''steps'', NList (map (\<lambda>r. NMap [(''type'', NStr (pr_type r)), (''technique'', pr_technique r),
                                                   (''cwe'', pr_cwe r), (''weight'', NFloat (pr_weight r))]) rels)),
                   (''total_cost'', NFloat cost)])
           (apoc_dijkstra env g startID targetID))"

text \<open>The Go side: one record becomes a path.\<close>

definition privesc_of :: "neo \<Rightarrow> PrivEscPath" where
  "privesc_of rec =
     \<lparr>pp_Accounts = map (\<lambda>a. \<lparr>pn_AccountID = toStr (get_field a ''id''), pn_Username = toStr (get_field a ''username''),
          pn_Privilege = toStr (get_field a ''privilege''), pn_Asset = toStr (get_field a ''asset'')\<rparr>)
        (asSlice (get_field rec ''accounts'')),
      pp_Steps = map (\<lambda>s. \<lparr>ps_Type = toStr (get_field s ''type''), ps_Technique = toStr (get_field s ''technique''),
          ps_CWE = toStr (get_field s ''cwe''), ps_Weight = round2 (toFloat (get_field s ''weight''))\<rparr>)
        (asSlice (get_field rec ''steps'')),
      pp_TotalCost = round2 (toFloat (get_field rec ''total_cost'')), pp_Found = True\<rparr>"

definition FindPrivEscPath :: "graph_env \<Rightarrow> string \<Rightarrow> string \<Rightarrow> graph \<Rightarrow> (string + PrivEscPath) \<times> graph" where
  "FindPrivEscPath env startID targetID =
     transaction env (\<lambda>t g.
       let rows = path_rows env t g startID targetID;
           recs = take 1 (sort_key (\<lambda>r. float_key (toFloat (get_field r ''total_cost'')))
                           (arrange (row_order env t (length rows)) rows))
       in (case recs of
             [] \<Rightarrow> \<lparr>pp_Accounts = [], pp_Steps = [], pp_TotalCost = Fin 0, pp_Found = False\<rparr>
           | rec # _ \<Rightarrow> privesc_of rec, g))"

section \<open>Attack paths\<close>

record Hop =
  h_AssetID :: string
  h_AssetName :: string
  h_Criticality :: string
  h_Exposure :: string
  h_ViaVulnTitle :: string
  h_ViaVulnCWE :: string
  h_ViaVulnRisk :: f64

record AttackPath =
  ap_Hops :: "Hop list"
  ap_Length :: int
  ap_MaxRisk :: f64
  ap_PathRisk :: f64

text \<open>
  The node sequences of the pattern \<open>(entry)-[:CAN_REACH*1..n]->(target)\<close>: a path does not use a
  relationship twice, but may visit a node again.
\<close>

fun trails_to :: "nat \<Rightarrow> (string \<times> string) list \<Rightarrow> string \<Rightarrow> string list list" where
  "trails_to 0 es t = []"
| "trails_to (Suc n) es t =
     concat (map (\<lambda>(s, d). if d = t then [s, t] # map (\<lambda>p. p @ [t]) (trails_to n (remove1 (s, d) es) s) else []) es)"

text \<open>The vulnerabilities of an asset with at least the given risk.\<close>

definition enabling :: "graph \<Rightarrow> f64 \<Rightarrow> string \<Rightarrow> vuln_node list" where
  "enabling g minRisk i = filter (\<lambda>v. (i, vn_id v) \<in> set (has_vuln g) \<and> minRisk \<le> vn_risk v) (g_vulns g)"

definition qualifies :: "graph \<Rightarrow> f64 \<Rightarrow> string list \<Rightarrow> bool" where
  "qualifies g minRisk p \<longleftrightarrow>
     list_ex (\<lambda>n. an_id n = hd p \<and> an_exposure n = ''external'') (g_assets g) \<and>
     list_all (\<lambda>i. enabling g minRisk i \<noteq> []) p"

definition hop_row :: "graph_env \<Rightarrow> nat \<Rightarrow> graph \<Rightarrow> f64 \<Rightarrow> string \<Rightarrow> neo" where
  "hop_row env t g minRisk i =
     (let vs = enabling g minRisk i; vs = arrange (item_order env t i (length vs)) vs;
          n = find (\<lambda>n. an_id n = i) (g_assets g);
          s = (\<lambda>f. case n of Some a \<Rightarrow> NStr (f a) | None \<Rightarrow> NNull)
      in NMap [(''id'', NStr i), (''name'', s an_name), (''criticality'', s an_criticality), (''exposure'', s an_exposure),
               (''vulns'', NList (map (\<lambda>v. NMap [(''title'', NStr (vn_title v)), (''cwe'', NStr (vn_cwe v)),
                                                (''risk'', NFloat (vn_risk v))]) vs))])"

definition attack_trails :: "graph \<Rightarrow> string \<Rightarrow> f64 \<Rightarrow> nat \<Rightarrow> string list list" where
  "attack_trails g targetID minRisk n = filter (qualifies g minRisk) (trails_to n (map rr_ends (can_reach g)) targetID)"

definition trail_row :: "graph_env \<Rightarrow> nat \<Rightarrow> graph \<Rightarrow> f64 \<Rightarrow> string list \<Rightarrow> neo" where
  "trail_row env t g minRisk p =
     NMap [(''hops'', NList (map (hop_row env t g minRisk) p)), (''len'', NInt (int (length p) - 1))]"

text \<open>The first vulnerability with the highest risk, starting from -1.\<close>

definition pickTopVuln :: "neo list \<Rightarrow> neo" where
  "pickTopVuln vulns =
     fst (fold (\<lambda>v (top, best). let r = toFloat (get_field v ''risk'') in if best < r then (v, r) else (top, best))
            vulns (NMap [], Fin (- 1)))"

definition hop_of :: "neo \<Rightarrow> Hop" where
  "hop_of hm =
     (let top = (case get_field hm ''vulns'' of NList vulns \<Rightarrow> pickTopVuln vulns | _ \<Rightarrow> NNull)
      in \<lparr>h_AssetID = toStr (get_field hm ''id''), h_AssetName = toStr (get_field hm ''name''),
          h_Criticality = toStr (get_field hm ''criticality''), h_Exposure = toStr (get_field hm ''exposure''),
          h_ViaVulnTitle = toStr (get_field top ''title''), h_ViaVulnCWE = toStr (get_field top ''cwe''),
          h_ViaVulnRisk = toFloat (get_field top ''risk'')\<rparr>)"

definition path_of :: "neo \<Rightarrow> AttackPath" where
  "path_of rec =
     (let hops = map hop_of (asSlice (get_field rec ''hops''));
          maxRisk = fold (\<lambda>h m. if m < h_ViaVulnRisk h then h_ViaVulnRisk h else m) hops (Fin 0);
          sumRisk = fold (\<lambda>h s. s + h_ViaVulnRisk h) hops (Fin 0)
      in \<lparr>ap_Hops = hops, ap_Length = toInt (get_field rec ''len''), ap_MaxRisk = maxRisk,
          ap_PathRisk = (if 0 < length hops then round2 (f64_div sumRisk (f64_of_int (int (length hops)))) else Fin 0)\<rparr>)"

text \<open>\<open>sort.SliceStable\<close>: each element goes after those it is not less than.\<close>

fun insert_by :: "('a \<Rightarrow> 'a \<Rightarrow> bool) \<Rightarrow> 'a \<Rightarrow> 'a list \<Rightarrow> 'a list" where
  "insert_by lt x [] = [x]"
| "insert_by lt x (y # ys) = (if lt x y then x # y # ys else y # insert_by lt x ys)"

definition sort_stable :: "('a \<Rightarrow> 'a \<Rightarrow> bool) \<Rightarrow> 'a list \<Rightarrow> 'a list" where
  "sort_stable lt xs = fold (insert_by lt) xs []"

definition more_dangerous :: "AttackPath \<Rightarrow> AttackPath \<Rightarrow> bool" where
  "more_dangerous p q =
     (if \<not> f64_eq (ap_MaxRisk p) (ap_MaxRisk q) then ap_MaxRisk q < ap_MaxRisk p else ap_Length p < ap_Length q)"

definition clamp_hops :: "int \<Rightarrow> int" where
  "clamp_hops maxHops = (let m = (if maxHops < 1 then 4 else maxHops) in if 8 < m then 8 else m)"

definition FindAttackPaths :: "graph_env \<Rightarrow> string \<Rightarrow> f64 \<Rightarrow> int \<Rightarrow> graph \<Rightarrow> (string + AttackPath list) \<times> graph" where
  "FindAttackPaths env targetID minRisk maxHops =
     transaction env (\<lambda>t g.
       let trails = attack_trails g targetID minRisk (nat (clamp_hops maxHops));
           rows = map (trail_row env t g minRisk) trails;
           recs = take 50 (sort_key (\<lambda>r. toInt (get_field r ''len'')) (arrange (row_order env t (length rows)) rows))
       in (sort_stable more_dangerous (map path_of recs), g))"

section \<open>Export\<close>

record ExportNode =
  xn_ID :: string
  xn_Type :: string
  xn_Label :: string
  xn_Criticality :: string
  xn_Exposure :: string
  xn_Privilege :: string
  xn_Severity :: string
  xn_Risk :: f64

record ExportEdge =
  xe_Type :: string
  xe_Source :: string
  xe_Target :: string
  xe_Weight :: f64
  xe_Technique :: string
  xe_CWE :: string
  xe_Via :: string
  xe_Port :: int

text \<open>The rows of the first query: every node, with the properties its label has.\<close>

definition node_rows :: "graph \<Rightarrow> neo list" where
  "node_rows g =
     map (\<lambda>n. NMap [(''type'', NStr ''Asset''), (''id'', NStr (an_id n)), (''label'', NStr (an_name n)),
        (''criticality'', NStr (an_criticality n)), (''exposure'', NStr (an_exposure n))]) (g_assets g) @
     map (\<lambda>n. NMap [(''type'', NStr ''Account''), (''id'', NStr (ac_id n)), (''label'', NStr (ac_username n)),
        (''privilege'', NStr (ac_privilege n))]) (g_accounts g) @
     map (\<lambda>n. NMap [(''type'', NStr ''Credential''), (''id'', NStr (cn_fingerprint n)), (''label'', NStr (cn_principal n))])
        (g_creds g) @
     map (\<lambda>n. NMap [(''type'', NStr ''Vulnerability''), (''id'', NStr (vn_id n)), (''label'', NStr (vn_title n)),
        (''severity'', NStr (vn_severity n)), (''risk'', NFloat (vn_risk n))]) (g_vulns g)"

definition ends_row :: "string \<Rightarrow> string \<times> string \<Rightarrow> (string \<times> neo) list" where
  "ends_row ty e = [(''type'', NStr ty), (''source'', NStr (fst e)), (''target'', NStr (snd e))]"

definition edge_rows :: "graph \<Rightarrow> neo list" where
  "edge_rows g =
     map (\<lambda>e. NMap (ends_row ''HAS_VULN'' e)) (has_vuln g) @
     map (\<lambda>r. NMap (ends_row ''CAN_REACH'' (rr_ends r) @ [(''port'', NInt (rr_port r))])) (can_reach g) @
     map (\<lambda>e. NMap (ends_row ''HAS_ACCOUNT'' e)) (has_account g) @
     map (\<lambda>r. NMap (ends_row ''CAN_ESCALATE'' (es_ends r) @
        [(''weight'', NFloat (es_weight r)), (''technique'', NStr (es_technique r)), (''cwe'', NStr (es_cwe r))])) (can_escalate g) @
     map (\<lambda>r. NMap (ends_row ''CAN_READ'' (rd_ends r) @ [(''technique'', NStr (rd_technique r))])) (can_read g) @
     map (\<lambda>e. NMap (ends_row ''VALID_ON'' e)) (valid_on g) @
     map (\<lambda>r. NMap (ends_row ''CREDENTIAL_REUSE'' (ru_ends r) @
        [(''weight'', NFloat (ru_weight r)), (''via'', case ru_via r of Some v \<Rightarrow> NStr v | None \<Rightarrow> NNull)])) (cred_reuse g)"

definition export_node :: "neo \<Rightarrow> ExportNode" where
  "export_node r =
     \<lparr>xn_ID = toStr (get_field r ''id''), xn_Type = toStr (get_field r ''type''), xn_Label = toStr (get_field r ''label''),
      xn_Criticality = toStr (get_field r ''criticality''), xn_Exposure = toStr (get_field r ''exposure''),
      xn_Privilege = toStr (get_field r ''privilege''), xn_Severity = toStr (get_field r ''severity''),
      xn_Risk = toFloat (get_field r ''risk'')\<rparr>"

definition export_edge :: "neo \<Rightarrow> ExportEdge" where
  "export_edge r =
     \<lparr>xe_Type = toStr (get_field r ''type''), xe_Source = toStr (get_field r ''source''), xe_Target = toStr (get_field r ''target''),
      xe_Weight = toFloat (get_field r ''weight''), xe_Technique = toStr (get_field r ''technique''),
      xe_CWE = toStr (get_field r ''cwe''), xe_Via = toStr (get_field r ''via''), xe_Port = toInt (get_field r ''port'')\<rparr>"

text \<open>Two reads, one transaction each: an error of the second leaves the nodes of the first in the result.\<close>

definition ExportGraph :: "graph_env \<Rightarrow> graph \<Rightarrow> (string option \<times> ExportNode list \<times> ExportEdge list) \<times> graph" where
  "ExportGraph env g =
     (case transaction env (\<lambda>t g. let rows = node_rows g
                                  in (map export_node (arrange (row_order env t (length rows)) rows), g)) g of
        (Inl e, g) \<Rightarrow> ((Some e, [], []), g)
      | (Inr nodes, g) \<Rightarrow>
          (case transaction env (\<lambda>t g. let rows = edge_rows g
                                       in (map export_edge (arrange (row_order env t (length rows)) rows), g)) g of
             (Inl e, g) \<Rightarrow> ((Some e, nodes, []), g)
           | (Inr edges, g) \<Rightarrow> ((None, nodes, edges), g)))"

section \<open>Merging\<close>

lemma has_row_iff: "has_row key k rs \<longleftrightarrow> k \<in> key ` set rs"
  by (auto simp: has_row_def list_ex_iff)

lemma merge_row_set:
  "set (merge_row key new f rs) =
     (if has_row key (key new) rs then (\<lambda>r. if key r = key new then f r else r) ` set rs else insert new (set rs))"
  by (auto simp: merge_row_def)

lemma merge_row_keys:
  assumes "\<And>r. key r = key new \<Longrightarrow> key (f r) = key new"
  shows "key ` set (merge_row key new f rs) = insert (key new) (key ` set rs)"
proof -
  have "key ` (\<lambda>r. if key r = key new then f r else r) ` set rs = key ` set rs"
    unfolding image_image using assms by (intro image_cong) auto
  then show ?thesis by (auto simp: merge_row_set has_row_iff)
qed

lemma merge_row_distinct:
  assumes "\<And>r. key r = key new \<Longrightarrow> key (f r) = key new" and "distinct (map key rs)"
  shows "distinct (map key (merge_row key new f rs))"
proof -
  have "map key (map (\<lambda>r. if key r = key new then f r else r) rs) = map key rs"
    using assms(1) by (auto simp: comp_def)
  then show ?thesis using assms(2) by (auto simp: merge_row_def has_row_iff simp del: map_map)
qed

lemma merge_pair_set [simp]: "set (merge_pair p ps) = insert p (set ps)"
  by (auto simp: merge_row_set has_row_iff)

lemma merge_pair_distinct: "distinct ps \<Longrightarrow> distinct (merge_pair p ps)"
  using merge_row_distinct [of "\<lambda>x. x" p "\<lambda>x. x" ps] by simp

text \<open>What a merge leaves under a key.\<close>

definition rows_at :: "('r \<Rightarrow> 'k) \<Rightarrow> 'k \<Rightarrow> 'r list \<Rightarrow> 'r list" where
  "rows_at key k rs = filter (\<lambda>r. key r = k) rs"

lemma merge_row_other:
  assumes "\<And>r. key r = key new \<Longrightarrow> key (f r) = key new" and "k \<noteq> key new"
  shows "rows_at key k (merge_row key new f rs) = rows_at key k rs"
proof -
  have "filter (\<lambda>r. key r = k) (map (\<lambda>r. if key r = key new then f r else r) rs) = filter (\<lambda>r. key r = k) rs"
    using assms by (induction rs) auto
  then show ?thesis using assms(2) by (auto simp: rows_at_def merge_row_def)
qed

lemma merge_row_same:
  assumes "\<And>r. key r = key new \<Longrightarrow> key (f r) = key new"
  shows "rows_at key (key new) (merge_row key new f rs) =
    (if rows_at key (key new) rs = [] then [new] else map f (rows_at key (key new) rs))"
proof -
  have "filter (\<lambda>r. key r = key new) (map (\<lambda>r. if key r = key new then f r else r) rs) = map f (filter (\<lambda>r. key r = key new) rs)"
    using assms by (induction rs) auto
  moreover have "has_row key (key new) rs \<longleftrightarrow> filter (\<lambda>r. key r = key new) rs \<noteq> []"
    by (induction rs) (auto simp: has_row_def)
  ultimately show ?thesis by (simp add: rows_at_def merge_row_def)
qed

section \<open>Integrity\<close>

definition ends_in :: "('a \<times> 'b) set \<Rightarrow> 'a set \<Rightarrow> 'b set \<Rightarrow> bool" where
  "ends_in R A B \<longleftrightarrow> R \<subseteq> A \<times> B"

lemma ends_in_insert [simp]: "ends_in (insert e R) A B \<longleftrightarrow> fst e \<in> A \<and> snd e \<in> B \<and> ends_in R A B"
  by (cases e) (auto simp: ends_in_def)

lemma ends_in_left: "ends_in R A B \<Longrightarrow> ends_in R (insert a A) B"
  by (auto simp: ends_in_def)

lemma ends_in_right: "ends_in R A B \<Longrightarrow> ends_in R A (insert b B)"
  by (auto simp: ends_in_def)

text \<open>
  The constraints the code declares, and what every statement keeps: one node per id, one relationship
  of a type between two nodes, and relationships only between nodes that exist.
\<close>

definition graph_ok :: "graph \<Rightarrow> bool" where
  "graph_ok g \<longleftrightarrow>
     (let A = an_id ` set (g_assets g); V = vn_id ` set (g_vulns g); U = ac_id ` set (g_accounts g);
          C = cn_fingerprint ` set (g_creds g)
      in distinct (map an_id (g_assets g)) \<and> distinct (map vn_id (g_vulns g)) \<and>
         distinct (map ac_id (g_accounts g)) \<and> distinct (map cn_fingerprint (g_creds g)) \<and>
         distinct (has_vuln g) \<and> distinct (map rr_ends (can_reach g)) \<and> distinct (has_account g) \<and>
         distinct (map es_ends (can_escalate g)) \<and> distinct (map rd_ends (can_read g)) \<and> distinct (valid_on g) \<and>
         distinct (map ru_ends (cred_reuse g)) \<and>
         ends_in (set (has_vuln g)) A V \<and> ends_in (rr_ends ` set (can_reach g)) A A \<and>
         ends_in (set (has_account g)) A U \<and> ends_in (es_ends ` set (can_escalate g)) U U \<and>
         ends_in (rd_ends ` set (can_read g)) U C \<and> ends_in (set (valid_on g)) C U \<and>
         ends_in (ru_ends ` set (cred_reuse g)) U U)"

lemma transaction_keeps:
  assumes "P (g\<lparr>g_tick := Suc (g_tick g)\<rparr>)" and "\<And>t h. P h \<Longrightarrow> P (snd (f t h))"
  shows "P (snd (transaction env f g))"
  using assms by (auto simp: transaction_def Let_def split: option.split prod.split) (metis snd_conv)

lemma graph_ok_tick [simp]: "graph_ok (g\<lparr>g_tick := n\<rparr>) = graph_ok g"
  by (simp add: graph_ok_def)

lemma graph_transaction:
  assumes "graph_ok g" and "\<And>t h. graph_ok h \<Longrightarrow> graph_ok (snd (f t h))"
  shows "graph_ok (snd (transaction env f g))"
  by (rule transaction_keeps [of graph_ok]) (use assms in simp_all)

lemmas graph_ok_simps = graph_ok_def Let_def merge_row_keys merge_row_distinct merge_pair_distinct ends_in_left ends_in_right

text \<open>One lemma per table: a merge into it keeps the integrity if the ends exist.\<close>

lemma graph_ok_asset: "graph_ok g \<Longrightarrow> graph_ok (g\<lparr>g_assets := merge_row an_id n (\<lambda>_. n) (g_assets g)\<rparr>)"
  by (simp add: graph_ok_simps)

lemma graph_ok_finding:
  assumes "graph_ok g" and "a \<in> an_id ` set (g_assets g)"
  shows "graph_ok (g\<lparr>g_vulns := merge_row vn_id v (\<lambda>_. v) (g_vulns g), has_vuln := merge_pair (a, vn_id v) (has_vuln g)\<rparr>)"
  using assms by (simp add: graph_ok_simps)

lemma graph_ok_reach:
  assumes "graph_ok g" and "fst (rr_ends r) \<in> an_id ` set (g_assets g)" and "snd (rr_ends r) \<in> an_id ` set (g_assets g)"
  shows "graph_ok (g\<lparr>can_reach := merge_row rr_ends r (\<lambda>_. r) (can_reach g)\<rparr>)"
  using assms by (cases "rr_ends r") (simp add: graph_ok_simps)

lemma graph_ok_account:
  assumes "graph_ok g" and "a \<in> an_id ` set (g_assets g)" and "\<And>r. ac_id r = ac_id n \<Longrightarrow> ac_id (f r) = ac_id n"
  shows "graph_ok (g\<lparr>g_accounts := merge_row ac_id n f (g_accounts g), has_account := merge_pair (a, ac_id n) (has_account g)\<rparr>)"
  using assms by (simp add: graph_ok_simps)

lemma graph_ok_escalate:
  assumes "graph_ok g" and "fst (es_ends r) \<in> ac_id ` set (g_accounts g)" and "snd (es_ends r) \<in> ac_id ` set (g_accounts g)"
    and "\<And>r'. es_ends r' = es_ends r \<Longrightarrow> es_ends (f r') = es_ends r"
  shows "graph_ok (g\<lparr>can_escalate := merge_row es_ends r f (can_escalate g)\<rparr>)"
  using assms by (cases "es_ends r") (simp add: graph_ok_simps)

lemma graph_ok_reuse:
  assumes "graph_ok g" and "fst (ru_ends r) \<in> ac_id ` set (g_accounts g)" and "snd (ru_ends r) \<in> ac_id ` set (g_accounts g)"
    and "\<And>r'. ru_ends r' = ru_ends r \<Longrightarrow> ru_ends (f r') = ru_ends r"
  shows "graph_ok (g\<lparr>cred_reuse := merge_row ru_ends r f (cred_reuse g)\<rparr>)"
  using assms by (cases "ru_ends r") (simp add: graph_ok_simps)

lemma graph_ok_credential:
  assumes "graph_ok g" and "fst (rd_ends r) \<in> ac_id ` set (g_accounts g)" and "snd (rd_ends r) = cn_fingerprint c"
    and "b \<in> ac_id ` set (g_accounts g)"
  shows "graph_ok (g\<lparr>g_creds := merge_row cn_fingerprint c (\<lambda>n. n) (g_creds g),
    can_read := merge_row rd_ends r (\<lambda>_. r) (can_read g), valid_on := merge_pair (cn_fingerprint c, b) (valid_on g)\<rparr>)"
  using assms by (cases "rd_ends r") (simp add: graph_ok_simps)

lemma merge_auto_accounts_alt:
  "merge_auto_accounts i g =
     (let add = \<lambda>n g. g\<lparr>g_accounts := merge_row ac_id n (\<lambda>n. n) (g_accounts g), has_account := merge_pair (i, ac_id n) (has_account g)\<rparr>
      in add \<lparr>ac_id = AutoAccountID i ''root'', ac_username = ''root'', ac_privilege = ''root'', ac_asset_id = i\<rparr>
          (add \<lparr>ac_id = AutoAccountID i ''foothold'', ac_username = ''foothold'', ac_privilege = ''user'', ac_asset_id = i\<rparr> g))"
  by (simp add: merge_auto_accounts_def Let_def)

lemma auto_accounts_ok:
  assumes "graph_ok g" and "i \<in> an_id ` set (g_assets g)"
  shows "graph_ok (merge_auto_accounts i g)"
    and "{AutoAccountID i ''foothold'', AutoAccountID i ''root''} \<subseteq> ac_id ` set (g_accounts (merge_auto_accounts i g))"
proof -
  show "graph_ok (merge_auto_accounts i g)"
    unfolding merge_auto_accounts_alt Let_def by (intro graph_ok_account) (use assms in simp_all)
  show "{AutoAccountID i ''foothold'', AutoAccountID i ''root''} \<subseteq> ac_id ` set (g_accounts (merge_auto_accounts i g))"
    by (simp add: merge_auto_accounts_def Let_def merge_row_keys)
qed

text \<open>The writes of the program, as steps; reads change nothing but the clock.\<close>

inductive graph_step :: "graph_env \<Rightarrow> graph \<Rightarrow> graph \<Rightarrow> bool" for env where
  sync_asset: "graph_step env g (snd (SyncAsset env a g))"
| sync_finding: "graph_step env g (snd (SyncFinding env f g))"
| reachability: "graph_step env g (snd (UpsertReachability env s d port proto g))"
| sync_account: "graph_step env g (snd (SyncAccount env acc g))"
| escalation: "graph_step env g (snd (UpsertEscalation env i j tech cwe w g))"
| reuse: "graph_step env g (snd (UpsertCredentialReuse env i j w g))"
| derive_escalation: "graph_step env g (snd (AutoDeriveEscalation env i cwe tech risk g))"
| derive_reuse: "graph_step env g (snd (AutoDeriveCredentialReuse env i princ fp tech risk g))"

inductive graph_reach :: "graph_env \<Rightarrow> graph \<Rightarrow> bool" for env where
  start: "graph_reach env graph_empty"
| step: "graph_reach env g \<Longrightarrow> graph_step env g g' \<Longrightarrow> graph_reach env g'"

lemma reuse_pairs_accounts:
  "(rx, fy) \<in> set (reuse_pairs fp g) \<longleftrightarrow>
     rx \<in> set (g_accounts g) \<and> fy \<in> set (g_accounts g) \<and> (ac_id rx, fp) \<in> rd_ends ` set (can_read g) \<and>
     (fp, ac_id fy) \<in> set (valid_on g) \<and> ac_asset_id rx \<noteq> ac_asset_id fy"
  by (auto simp: reuse_pairs_def has_row_iff)

lemma graph_ok_merge_reuse:
  assumes "graph_ok g" and "\<And>rx fy. (rx, fy) \<in> set ps \<Longrightarrow> rx \<in> set (g_accounts g) \<and> fy \<in> set (g_accounts g)"
  shows "graph_ok (g\<lparr>cred_reuse := merge_reuse w via ps (cred_reuse g)\<rparr>)"
  using assms
proof (induction ps arbitrary: g)
  case Nil
  then show ?case by (simp add: merge_reuse_def)
next
  case (Cons p ps)
  obtain rx fy where p: "p = (rx, fy)" by (cases p)
  let ?r = "\<lparr>ru_ends = (ac_id rx, ac_id fy), ru_weight = w, ru_via = via\<rparr>"
  have "graph_ok (g\<lparr>cred_reuse := merge_row ru_ends ?r (\<lambda>o'. o') (cred_reuse g)\<rparr>)"
    by (rule graph_ok_reuse) (use Cons.prems p in auto)
  then have "graph_ok (g\<lparr>cred_reuse := merge_row ru_ends ?r (\<lambda>o'. o') (cred_reuse g)\<rparr>
      \<lparr>cred_reuse := merge_reuse w via ps (cred_reuse (g\<lparr>cred_reuse := merge_row ru_ends ?r (\<lambda>o'. o') (cred_reuse g)\<rparr>))\<rparr>)"
    by (rule Cons.IH) (use Cons.prems(2) in auto)
  then show ?case by (simp add: merge_reuse_def p)
qed

lemma graph_step_ok:
  assumes "graph_step env g g'" and "graph_ok g"
  shows "graph_ok g'"
  using assms
proof cases
  case (sync_asset a)
  then show ?thesis unfolding SyncAsset_def Let_def by (auto intro!: graph_transaction graph_ok_asset assms)
next
  case (sync_finding f)
  show ?thesis unfolding sync_finding SyncFinding_def
    by (rule graph_transaction [OF assms(2)])
      (use graph_ok_finding [where v = "\<lparr>vn_id = f_ID f, vn_title = f_Title f, vn_cwe = f_CWE f, vn_cvss = f_CVSS f,
         vn_risk = f_RiskScore f, vn_kev = f_KnownExploit f, vn_severity = f_Severity f\<rparr>"] in \<open>auto simp: Let_def has_row_iff\<close>)
next
  case (reachability s d port proto)
  then show ?thesis unfolding UpsertReachability_def
    by (auto simp: Let_def has_row_iff intro!: graph_transaction graph_ok_reach assms)
next
  case (sync_account acc)
  show ?thesis unfolding sync_account SyncAccount_def
    by (rule graph_transaction [OF assms(2)])
      (use graph_ok_account [where n = "\<lparr>ac_id = acc_ID acc, ac_username = acc_Username acc, ac_privilege = acc_Privilege acc,
         ac_asset_id = acc_AssetID acc\<rparr>"] in \<open>auto simp: Let_def has_row_iff\<close>)
next
  case (escalation i j tech cwe w)
  then show ?thesis unfolding UpsertEscalation_def
    by (auto simp: Let_def has_row_iff both_accounts_def intro!: graph_transaction graph_ok_escalate assms)
next
  case (reuse i j w)
  then show ?thesis unfolding UpsertCredentialReuse_def
    by (auto simp: Let_def has_row_iff both_accounts_def intro!: graph_transaction graph_ok_reuse assms)
next
  case (derive_escalation i cwe tech risk)
  show ?thesis unfolding derive_escalation AutoDeriveEscalation_def Let_def
  proof (rule graph_transaction [OF assms(2)])
    fix h assume h: "graph_ok h"
    let ?r = "\<lparr>es_ends = (AutoAccountID i ''foothold'', AutoAccountID i ''root''), es_technique = tech, es_cwe = cwe,
       es_weight = AutoEscalationWeight risk, es_risk = Some risk\<rparr>"
    show "graph_ok (snd (if \<not> has_row an_id i (g_assets h) then ((), h)
       else ((), merge_auto_accounts i h\<lparr>can_escalate := merge_row es_ends ?r
              (\<lambda>o'. if AutoEscalationWeight risk < es_weight o' then ?r else o') (can_escalate (merge_auto_accounts i h))\<rparr>)))"
      using h auto_accounts_ok [OF h, of i]
      by (auto simp: has_row_iff intro!: graph_ok_escalate)
  qed
next
  case (derive_reuse i princ fp tech risk)
  have 1: "graph_ok (snd (record_credential env i princ fp tech g))" unfolding record_credential_def
  proof (rule graph_transaction [OF assms(2)])
    fix h assume h: "graph_ok h"
    show "graph_ok (snd (if \<not> has_row an_id i (g_assets h) then ((), h)
       else let g = merge_auto_accounts i h; c = \<lparr>cn_fingerprint = fp, cn_principal = princ\<rparr>;
                r = \<lparr>rd_ends = (AutoAccountID i ''root'', fp), rd_technique = tech\<rparr>
       in ((), g\<lparr>g_creds := merge_row cn_fingerprint c (\<lambda>n. n) (g_creds g),
                 can_read := merge_row rd_ends r (\<lambda>_. r) (can_read g),
                 valid_on := merge_pair (fp, AutoAccountID i ''foothold'') (valid_on g)\<rparr>)))"
      using h auto_accounts_ok [OF h, of i] graph_ok_credential [of "merge_auto_accounts i h"
          "\<lparr>rd_ends = (AutoAccountID i ''root'', fp), rd_technique = tech\<rparr>" "\<lparr>cn_fingerprint = fp, cn_principal = princ\<rparr>"
          "AutoAccountID i ''foothold''"]
      by (auto simp: has_row_iff Let_def)
  qed
  have 2: "graph_ok (snd (infer_reuse env fp w h))" if "graph_ok h" for w h
    unfolding infer_reuse_def Let_def
    by (rule graph_transaction [OF that]) (auto intro!: graph_ok_merge_reuse simp: reuse_pairs_accounts)
  show ?thesis unfolding derive_reuse AutoDeriveCredentialReuse_def Let_def
    using 1 2 by (auto split: prod.split sum.split)
qed

text \<open>In every graph the program can build, from the empty one and through any sequence of its writes, failing
  ones included, ids are unique per label, two nodes are joined by at most one relationship of a type,
  and relationships join existing nodes of the right kinds.\<close>

theorem graph_integrity:
  assumes "graph_reach env g"
  shows "graph_ok g"
  using assms
proof induction
  case start
  then show ?case by (simp add: graph_ok_def graph_empty_def ends_in_def)
next
  case (step g g')
  then show ?case by (blast intro: graph_step_ok)
qed

definition sample_graph_asset :: "string \<Rightarrow> string list \<Rightarrow> Asset" where
  "sample_graph_asset i tags = \<lparr>a_ID = i, a_Name = ''host '' @ i, a_Type = AssetIP, a_Target = ''10.0.0.7'', a_Criticality = CritHigh,
     a_Tags = tags, a_ScanAuthorized = False, a_CreatedAt = 0\<rparr>"

text \<open>A database that fails the transactions with the given numbers, and keeps the order of rows.\<close>

definition sample_graph_env :: "nat list \<Rightarrow> graph_env" where
  "sample_graph_env bad = \<lparr>g_fault = (\<lambda>t. if t \<in> set bad then Some ''unavailable'' else None), g_late = (\<lambda>t. False), row_order = (\<lambda>t n. [0..<n]),
     item_order = (\<lambda>t i n. [0..<n]), apoc_dijkstra = (\<lambda>g s t. [])\<rparr>"

theorem graph_integrity_witness:
  "graph_ok (snd (UpsertReachability (sample_graph_env [1]) ''1'' ''1'' 22 ''tcp''
     (snd (SyncAsset (sample_graph_env [1]) (sample_graph_asset ''1'' []) graph_empty))))"
  by (rule graph_integrity [of "sample_graph_env [1]"])
    (rule graph_reach.step [OF graph_reach.step [OF graph_reach.start graph_step.sync_asset] graph_step.reachability])

end
