(* ===== verification/Graph_Derive.thy ===== *)
theory Graph_Derive
  imports Graph
begin

text \<open>
  What the derived relationships of \<open>internal/graph/graph.go\<close> promise: the bounds and the monotony of
  their weights, through the rounding, that repeated derivation of an escalation keeps the cheapest
  edge, and which hosts a shared credential links.
\<close>

section \<open>Weights of derived edges\<close>

definition clamp_weight :: "f64 \<Rightarrow> f64 \<Rightarrow> f64" where
  "clamp_weight lo w = (let w = (if w < lo then lo else w) in if Fin 9 < w then Fin 9 else w)"

lemma AutoEscalationWeight_alt: "AutoEscalationWeight risk = round2 (clamp_weight (to_f64 (3 / 10)) (Fin 10 - risk))"
  by (simp add: AutoEscalationWeight_def clamp_weight_def Let_def)

lemma AutoReuseWeight_alt: "AutoReuseWeight risk = round2 (clamp_weight (Fin 1) (Fin 11 - risk))"
  by (simp add: AutoReuseWeight_def clamp_weight_def Let_def)

lemma clamp_weight_Fin:
  assumes "w \<noteq> NaN" and "lo \<le> 9"
  obtains q where "clamp_weight (Fin lo) w = Fin q" and "lo \<le> q" and "q \<le> 9"
proof -
  have "\<exists>q. clamp_weight (Fin lo) w = Fin q \<and> lo \<le> q \<and> q \<le> 9"
    using assms by (cases w) (auto simp: clamp_weight_def Let_def less_f64_def)
  then show ?thesis using that by blast
qed

lemma clamp_weight_mono:
  assumes "v \<le> w" and "lo \<le> 9"
  shows "clamp_weight (Fin lo) v \<le> clamp_weight (Fin lo) w"
  using assms by (cases v; cases w) (auto simp: clamp_weight_def Let_def less_f64_def f64_le_iff)

lemma f64_sub_antimono: "x \<le> y \<Longrightarrow> Fin c - y \<le> Fin c - x"
  using to_f64_mono [of "c - val_f64 y" "c - val_f64 x"]
  by (cases x; cases y) (simp_all add: minus_f64_def, simp_all add: plus_f64_def f64_le_iff [of NInf] f64_le_iff [of _ PInf] f64_le_iff [of _ NInf] f64_le_iff [of PInf])

lemma f64_sub_not_NaN: "x \<noteq> NaN \<Longrightarrow> Fin c - x \<noteq> NaN"
  by (cases x) (auto simp: minus_f64_def plus_f64_def)

text \<open>The number of hundredths \<open>round2\<close> keeps.\<close>

definition cents :: "rat \<Rightarrow> int" where
  "cents q = \<lfloor>rnd64 (rnd64 (q * 100) + 1 / 2)\<rfloor>"

lemma round2_cents:
  assumes "0 \<le> q" and "q \<le> 9"
  shows "round2 (Fin q) = Fin (rnd64 (of_int (cents q) / 100))" and "cents q \<le> 900"
  using round_dec [of q 9 100, OF _ _ _ _ _ refl] assms by (simp_all add: round2_def cents_def)

lemma cents_mono: "p \<le> q \<Longrightarrow> cents p \<le> cents q"
  unfolding cents_def by (intro floor_mono rnd64_mono add_right_mono) simp

lemma cents_ge:
  assumes "\<bar>n\<bar> < 2 ^ 50" and "of_int n - 1 / 2 \<le> q * 100"
  shows "n \<le> cents q"
proof -
  have "of_int (2 * n - 1) / 2 \<le> q * 100" using assms(2) by simp
  then have "of_int (2 * n - 1) / 2 \<le> rnd64 (q * 100)" using assms(1) by (intro r64.ge_half) auto
  then have "of_int n \<le> rnd64 (q * 100) + 1 / 2" by simp
  then have "of_int n \<le> rnd64 (rnd64 (q * 100) + 1 / 2)" using assms(1) by (intro r64.ge_int) auto
  then show ?thesis by (simp add: cents_def le_floor_iff)
qed

lemma round2_mono:
  assumes "0 \<le> p" and "p \<le> q" and "q \<le> 9"
  shows "round2 (Fin p) \<le> round2 (Fin q)"
  using assms round2_cents(1) [of p] round2_cents(1) [of q] cents_mono [of p q]
  by (auto intro!: rnd64_mono divide_right_mono)

lemma round2_range:
  assumes "of_int n - 1 / 2 \<le> q * 100" and "q \<le> 9" and "0 \<le> q" and "0 \<le> n" and "n \<le> 900"
  shows "Fin (rnd64 (of_int n / 100)) \<le> round2 (Fin q) \<and> round2 (Fin q) \<le> Fin 9"
proof -
  have "n \<le> cents q" by (rule cents_ge) (use assms in auto)
  then have "rnd64 (of_int n / 100) \<le> rnd64 (of_int (cents q) / 100)" by (intro rnd64_mono divide_right_mono) simp_all
  moreover have "rnd64 (of_int (cents q) / 100) \<le> of_int 9"
    using round2_cents(2) [OF assms(3,2)] by (intro r64.le_int) (simp_all add: divide_le_eq)
  ultimately show ?thesis using round2_cents(1) [OF assms(3,2)] by simp
qed

lemma three_tenths: "to_f64 (3 / 10) = Fin (rnd64 (3 / 10))" "59 / 2 \<le> rnd64 (3 / 10) * 100" "rnd64 (3 / 10) \<le> 1"
proof -
  show "to_f64 (3 / 10) = Fin (rnd64 (3 / 10))" by (rule to_f64_Fin [of _ 1]) simp_all
  have "\<bar>rnd64 (3 / 10) - 3 / 10\<bar> \<le> \<bar>3 / 10\<bar> / 2 ^ 53"
    by (rule rnd64_rel_err) (simp add: power_int_minus_divide divide_le_eq)
  also have "\<bar>3 / 10 :: rat\<bar> / 2 ^ 53 \<le> 1 / 200" by simp
  finally have "59 / 200 \<le> rnd64 (3 / 10)" by (simp only: abs_le_iff) linarith
  then show "59 / 2 \<le> rnd64 (3 / 10) * 100" by simp
  show "rnd64 (3 / 10) \<le> 1" using r64.le_int [of 1 "3 / 10"] by simp
qed

lemma escalation_weight_range:
  assumes "risk \<noteq> NaN"
  shows "to_f64 (3 / 10) \<le> AutoEscalationWeight risk \<and> AutoEscalationWeight risk \<le> Fin 9"
proof -
  obtain q where q: "clamp_weight (Fin (rnd64 (3 / 10))) (Fin 10 - risk) = Fin q" "rnd64 (3 / 10) \<le> q" "q \<le> 9"
    by (rule clamp_weight_Fin [OF f64_sub_not_NaN [OF assms], of "rnd64 (3 / 10)" 10]) (use three_tenths(3) in auto)
  have "59 / 2 \<le> q * 100" using three_tenths(2) q(2) by linarith
  then show ?thesis
    using round2_range [of 30 q] q by (simp add: AutoEscalationWeight_alt three_tenths(1))
qed

lemma reuse_weight_range:
  assumes "risk \<noteq> NaN"
  shows "Fin 1 \<le> AutoReuseWeight risk \<and> AutoReuseWeight risk \<le> Fin 9"
proof -
  obtain q where q: "clamp_weight (Fin 1) (Fin 11 - risk) = Fin q" "1 \<le> q" "q \<le> 9"
    by (rule clamp_weight_Fin [OF f64_sub_not_NaN [OF assms], of 1 11]) auto
  then show ?thesis
    using round2_range [of 100 q] rnd64_int [of 1] by (simp add: AutoReuseWeight_alt)
qed

lemma round2_clamp_antimono:
  assumes "risk \<le> risk'" and "0 \<le> lo" and "lo \<le> 9"
  shows "round2 (clamp_weight (Fin lo) (Fin c - risk')) \<le> round2 (clamp_weight (Fin lo) (Fin c - risk))"
proof -
  have nn: "risk \<noteq> NaN" "risk' \<noteq> NaN" using assms(1) by (simp_all add: f64_le_iff)
  obtain p where p: "clamp_weight (Fin lo) (Fin c - risk') = Fin p" "lo \<le> p" "p \<le> 9"
    by (rule clamp_weight_Fin [OF f64_sub_not_NaN [OF nn(2)] assms(3), of c])
  obtain q where q: "clamp_weight (Fin lo) (Fin c - risk) = Fin q" "lo \<le> q" "q \<le> 9"
    by (rule clamp_weight_Fin [OF f64_sub_not_NaN [OF nn(1)] assms(3), of c])
  have "p \<le> q" using clamp_weight_mono [OF f64_sub_antimono [OF assms(1), of c] assms(3)] p(1) q(1) by simp
  then show ?thesis using round2_mono [of p q] p q assms(2) by simp
qed

text \<open>For every risk that is a number, the weight of a derived escalation lies between 0.3 and 9 and that of a derived
  reuse between 1 and 9, the rounding to hundredths included, and a more dangerous finding never
  gets a dearer edge.\<close>

theorem weights_bounded_antitone:
  assumes "risk \<le> risk'"
  shows "to_f64 (3 / 10) \<le> AutoEscalationWeight risk' \<and> AutoEscalationWeight risk' \<le> AutoEscalationWeight risk \<and>
    AutoEscalationWeight risk \<le> Fin 9 \<and>
    Fin 1 \<le> AutoReuseWeight risk' \<and> AutoReuseWeight risk' \<le> AutoReuseWeight risk \<and> AutoReuseWeight risk \<le> Fin 9"
proof -
  have nn: "risk \<noteq> NaN" "risk' \<noteq> NaN" using assms by (simp_all add: f64_le_iff)
  have "0 \<le> rnd64 (3 / 10)" "rnd64 (3 / 10) \<le> 9" using three_tenths by simp_all
  then show ?thesis
    using escalation_weight_range [OF nn(1)] escalation_weight_range [OF nn(2)] reuse_weight_range [OF nn(1)] reuse_weight_range [OF nn(2)]
      round2_clamp_antimono [OF assms, of "rnd64 (3 / 10)" 10] round2_clamp_antimono [OF assms, of 1 11]
    by (simp add: AutoEscalationWeight_alt AutoReuseWeight_alt three_tenths(1))
qed

theorem weights_bounded_antitone_witness:
  "to_f64 (3 / 10) \<le> AutoEscalationWeight PInf \<and> AutoEscalationWeight PInf \<le> AutoEscalationWeight (Fin 7) \<and>
   AutoEscalationWeight (Fin 7) \<le> Fin 9 \<and>
   Fin 1 \<le> AutoReuseWeight PInf \<and> AutoReuseWeight PInf \<le> AutoReuseWeight (Fin 7) \<and> AutoReuseWeight (Fin 7) \<le> Fin 9"
  by (rule weights_bounded_antitone) (simp add: f64_le_iff)

section \<open>Repeated derivation\<close>

text \<open>The escalation edge of an asset and the findings of its scans, one after the other.\<close>

definition auto_edge :: "string \<Rightarrow> string \<times> string" where
  "auto_edge i = (AutoAccountID i ''foothold'', AutoAccountID i ''root'')"

definition derived_row :: "string \<Rightarrow> string \<times> string \<times> f64 \<Rightarrow> escalate_rel" where
  "derived_row i f = \<lparr>es_ends = auto_edge i, es_technique = fst (snd f), es_cwe = fst f, es_weight = AutoEscalationWeight (snd (snd f)),
     es_risk = Some (snd (snd f))\<rparr>"

definition derive_all :: "graph_env \<Rightarrow> string \<Rightarrow> (string \<times> string \<times> f64) list \<Rightarrow> graph \<Rightarrow> graph" where
  "derive_all env i fs g = fold (\<lambda>(cwe, tech, risk) g. snd (AutoDeriveEscalation env i cwe tech risk g)) fs g"

text \<open>What is left under the edge's key: the first row, or the cheapest of it and the findings.\<close>

definition cheaper :: "string \<Rightarrow> string \<times> string \<times> f64 \<Rightarrow> escalate_rel \<Rightarrow> escalate_rel" where
  "cheaper i f r = (if AutoEscalationWeight (snd (snd f)) < es_weight r then derived_row i f else r)"

lemma cheaper_alt:
  "cheaper i f = (\<lambda>o'. if AutoEscalationWeight (snd (snd f)) < es_weight o' then derived_row i f else o')"
  by (simp add: cheaper_def [abs_def])

lemma derive_one:
  assumes "\<And>t. g_fault env t = None" and "i \<in> an_id ` set (g_assets g)"
  shows "snd (AutoDeriveEscalation env i (fst f) (fst (snd f)) (snd (snd f)) g) =
    (merge_auto_accounts i g)\<lparr>can_escalate := merge_row es_ends (derived_row i f) (cheaper i f) (can_escalate g),
       g_tick := Suc (g_tick g)\<rparr>"
  unfolding cheaper_alt derived_row_def auto_edge_def
  using assms by (simp add: AutoDeriveEscalation_def transaction_def Let_def has_row_iff merge_auto_accounts_def)

lemma derive_all_Cons: "derive_all env i (f # fs) g = derive_all env i fs (snd (AutoDeriveEscalation env i (fst f) (fst (snd f)) (snd (snd f)) g))"
  by (simp add: derive_all_def case_prod_beta)

lemma merge_row_present:
  assumes "\<And>r. r \<in> set rs \<Longrightarrow> key r = key new \<Longrightarrow> f r = r" and "has_row key (key new) rs"
  shows "merge_row key new f rs = rs"
  using assms by (auto simp: merge_row_def intro: map_idI)

lemma AutoEscalationWeight_Fin: "\<exists>q. AutoEscalationWeight risk = Fin q"
proof (cases "risk = NaN")
  case True
  have "AutoEscalationWeight NaN = round2 NaN" by (simp add: AutoEscalationWeight_def minus_f64_def plus_f64_def)
  also have "\<dots> = f64_div (f64_of_int (- (2 ^ 63))) (Fin 100)"
    by (simp add: round2_def times_f64_def plus_f64_def go_int_def)
  also have "f64_of_int (- (2 ^ 63)) = Fin (- (2 ^ 63))" by code_simp
  also have "f64_div (Fin (- (2 ^ 63))) (Fin 100) = Fin (- 92233720368547760)" by code_simp
  finally show ?thesis using True by simp
next
  case False
  then show ?thesis using escalation_weight_range [OF False] three_tenths(1)
    by (cases "AutoEscalationWeight risk") (auto simp: f64_le_iff)
qed

lemma cheaper_fold:
  assumes "es_weight r = AutoEscalationWeight x"
  shows "(fold (cheaper i) fs r = r \<or> fold (cheaper i) fs r \<in> derived_row i ` set fs) \<and> es_weight (fold (cheaper i) fs r) \<le> es_weight r \<and>
    (\<forall>f\<in>set fs. es_weight (fold (cheaper i) fs r) \<le> AutoEscalationWeight (snd (snd f)))"
  using assms
proof (induction fs arbitrary: r x)
  case Nil
  then show ?case using AutoEscalationWeight_Fin [of x] by (auto simp: f64_le_refl)
next
  case (Cons f fs)
  have "\<exists>y. es_weight (cheaper i f r) = AutoEscalationWeight y"
    using Cons.prems by (auto simp: cheaper_def derived_row_def)
  then obtain y where y: "es_weight (cheaper i f r) = AutoEscalationWeight y" by blast
  have le: "es_weight (cheaper i f r) \<le> es_weight r" "es_weight (cheaper i f r) \<le> AutoEscalationWeight (snd (snd f))"
    using Cons.prems AutoEscalationWeight_Fin [of x] AutoEscalationWeight_Fin [of "snd (snd f)"]
    by (auto simp: cheaper_def derived_row_def)
  have "cheaper i f r = r \<or> cheaper i f r = derived_row i f" by (simp add: cheaper_def)
  with Cons.IH [OF y] le show ?case by (auto intro: f64_le_trans)
qed

lemma derived_row_ends [simp]: "es_ends (derived_row i f) = auto_edge i"
  by (simp add: derived_row_def)

lemma derive_assets: "\<lbrakk>\<And>t. g_fault env t = None; i \<in> an_id ` set (g_assets g)\<rbrakk> \<Longrightarrow> g_assets (derive_all env i fs g) = g_assets g"
  by (induction fs arbitrary: g) (simp_all add: derive_all_Cons derive_one merge_auto_accounts_def Let_def, simp add: derive_all_def)

lemma derive_rows:
  assumes "\<And>t. g_fault env t = None" and "i \<in> an_id ` set (g_assets g)" and "rows_at es_ends (auto_edge i) (can_escalate g) = [r]"
  shows "rows_at es_ends (auto_edge i) (can_escalate (derive_all env i fs g)) = [fold (cheaper i) fs r]"
  using assms
proof (induction fs arbitrary: g r)
  case Nil
  then show ?case by (simp add: derive_all_def)
next
  case (Cons f fs)
  let ?g = "snd (AutoDeriveEscalation env i (fst f) (fst (snd f)) (snd (snd f)) g)"
  have a: "i \<in> an_id ` set (g_assets ?g)" using Cons.prems by (simp add: derive_one merge_auto_accounts_def Let_def)
  have k: "es_ends (cheaper i f o') = auto_edge i" if "es_ends o' = auto_edge i" for o'
    using that by (simp add: cheaper_def)
  have "rows_at es_ends (auto_edge i) (can_escalate ?g) = [cheaper i f r]"
    using Cons.prems k merge_row_same [of es_ends "derived_row i f" "cheaper i f" "can_escalate g"]
    by (simp add: derive_one merge_auto_accounts_def Let_def)
  from Cons.IH [OF Cons.prems(1) a this] show ?case by (simp add: derive_all_Cons)
qed

text \<open>A graph that has the accounts and an edge at most as heavy as the findings only counts the time.\<close>

definition settled :: "string \<Rightarrow> (string \<times> string \<times> f64) list \<Rightarrow> graph \<Rightarrow> bool" where
  "settled i fs g \<longleftrightarrow> i \<in> an_id ` set (g_assets g) \<and>
     g_accounts (merge_auto_accounts i g) = g_accounts g \<and> has_account (merge_auto_accounts i g) = has_account g \<and>
     (\<exists>r. rows_at es_ends (auto_edge i) (can_escalate g) = [r] \<and> (\<forall>f\<in>set fs. es_weight r \<le> AutoEscalationWeight (snd (snd f))))"

lemma auto_accounts_same:
  "g_accounts (merge_auto_accounts i g) = g_accounts g \<Longrightarrow> has_account (merge_auto_accounts i g) = has_account g \<Longrightarrow>
     merge_auto_accounts i g = g"
  by (simp add: merge_auto_accounts_def Let_def)

lemma settled_step:
  assumes "\<And>t. g_fault env t = None" and "settled i (f # fs) g"
  shows "snd (AutoDeriveEscalation env i (fst f) (fst (snd f)) (snd (snd f)) g) = g\<lparr>g_tick := Suc (g_tick g)\<rparr>"
proof -
  from assms(2) obtain r where r: "rows_at es_ends (auto_edge i) (can_escalate g) = [r]" "es_weight r \<le> AutoEscalationWeight (snd (snd f))"
    and g: "i \<in> an_id ` set (g_assets g)" "merge_auto_accounts i g = g"
    using auto_accounts_same [of i g] by (auto simp: settled_def)
  have "merge_row es_ends (derived_row i f) (cheaper i f) (can_escalate g) = can_escalate g"
  proof (rule merge_row_present)
    fix r' assume "r' \<in> set (can_escalate g)" "es_ends r' = es_ends (derived_row i f)"
    then have "r' \<in> set (rows_at es_ends (auto_edge i) (can_escalate g))" by (simp add: rows_at_def)
    then show "cheaper i f r' = r'" using r by (simp add: cheaper_def f64_less_le)
  next
    have "r \<in> set (rows_at es_ends (auto_edge i) (can_escalate g))" using r by simp
    then show "has_row es_ends (es_ends (derived_row i f)) (can_escalate g)" by (auto simp: rows_at_def has_row_def list_ex_iff)
  qed
  then show ?thesis using g by (simp add: derive_one [OF assms(1) g(1)])
qed

lemma settled_tick [simp]: "settled i fs (g\<lparr>g_tick := n\<rparr>) = settled i fs g"
  by (simp add: settled_def merge_auto_accounts_def Let_def)

lemma settled_all:
  assumes "\<And>t. g_fault env t = None" and "settled i fs g"
  shows "\<exists>n. derive_all env i fs g = g\<lparr>g_tick := n\<rparr>"
  using assms(2)
proof (induction fs arbitrary: g)
  case Nil
  show ?case by (rule exI [of _ "g_tick g"]) (simp add: derive_all_def)
next
  case (Cons f fs)
  have "settled i fs (g\<lparr>g_tick := Suc (g_tick g)\<rparr>)" unfolding settled_tick using Cons.prems by (auto simp: settled_def)
  from Cons.IH [OF this] show ?case by (simp add: derive_all_Cons settled_step [OF assms(1) Cons.prems])
qed

lemma merge_auto_idem:
  "g_accounts (merge_auto_accounts i (merge_auto_accounts i g)) = g_accounts (merge_auto_accounts i g)"
  "has_account (merge_auto_accounts i (merge_auto_accounts i g)) = has_account (merge_auto_accounts i g)"
  by (simp_all add: merge_auto_accounts_def Let_def merge_row_present has_row_iff merge_row_keys)

lemma derive_settles:
  assumes "\<And>t. g_fault env t = None" and "i \<in> an_id ` set (g_assets g)"
    and "g_accounts (merge_auto_accounts i g) = g_accounts g" and "has_account (merge_auto_accounts i g) = has_account g"
  shows "g_accounts (merge_auto_accounts i (derive_all env i fs g)) = g_accounts (derive_all env i fs g) \<and>
    has_account (merge_auto_accounts i (derive_all env i fs g)) = has_account (derive_all env i fs g)"
  using assms(2-)
proof (induction fs arbitrary: g)
  case Nil
  then show ?case by (simp add: derive_all_def)
next
  case (Cons f fs)
  show ?case unfolding derive_all_Cons
    by (rule Cons.IH) (use Cons.prems auto_accounts_same [of i g] in \<open>simp_all add: derive_one [OF assms(1)] merge_auto_accounts_def Let_def\<close>)
qed

text \<open>C33: However many escalation findings a host has, and in whatever order they come, one foothold-to-root edge is
  left.  It is that of a finding, and none of the findings would have made a cheaper one; another scan
  with the same findings changes nothing.\<close>

theorem escalation_keeps_cheapest:
  assumes "\<And>t. g_fault env t = None" and "i \<in> an_id ` set (g_assets g)"
    and "auto_edge i \<notin> es_ends ` set (can_escalate g)" and "fs \<noteq> []"
  shows "(\<exists>f\<in>set fs. rows_at es_ends (auto_edge i) (can_escalate (derive_all env i fs g)) = [derived_row i f] \<and>
      (\<forall>f'\<in>set fs. AutoEscalationWeight (snd (snd f)) \<le> AutoEscalationWeight (snd (snd f')))) \<and>
    (\<exists>n. derive_all env i fs (derive_all env i fs g) = (derive_all env i fs g)\<lparr>g_tick := n\<rparr>)"
proof -
  obtain f fs' where fs: "fs = f # fs'" using assms(4) by (cases fs) auto
  let ?g = "snd (AutoDeriveEscalation env i (fst f) (fst (snd f)) (snd (snd f)) g)"
  let ?r = "fold (cheaper i) fs' (derived_row i f)"
  have e: "rows_at es_ends (auto_edge i) (can_escalate g) = []"
    using assms(3) unfolding rows_at_def filter_empty_conv by (metis imageI)
  have k: "es_ends (cheaper i f o') = auto_edge i" if "es_ends o' = auto_edge i" for o'
    using that by (simp add: cheaper_def)
  have a: "i \<in> an_id ` set (g_assets ?g)" using assms(2) by (simp add: derive_one [OF assms(1)] merge_auto_accounts_def Let_def)
  have "rows_at es_ends (auto_edge i) (can_escalate ?g) = [derived_row i f]"
    using k e assms(2) merge_row_same [of es_ends "derived_row i f" "cheaper i f" "can_escalate g"]
    by (simp add: derive_one [OF assms(1)] merge_auto_accounts_def Let_def)
  from derive_rows [OF assms(1) a this, of fs']
  have rows: "rows_at es_ends (auto_edge i) (can_escalate (derive_all env i fs g)) = [?r]" by (simp add: fs derive_all_Cons)
  have w: "es_weight (derived_row i h) = AutoEscalationWeight (snd (snd h))" for h by (simp add: derived_row_def)
  note c = cheaper_fold [OF w [of f], of i fs']
  from c obtain h where h: "h \<in> set fs" "?r = derived_row i h" unfolding fs by (metis imageE list.set_intros)
  have cheapest: "\<forall>f'\<in>set fs. es_weight ?r \<le> AutoEscalationWeight (snd (snd f'))" using c by (simp add: fs w)
  have 1: "\<exists>f\<in>set fs. rows_at es_ends (auto_edge i) (can_escalate (derive_all env i fs g)) = [derived_row i f] \<and>
      (\<forall>f'\<in>set fs. AutoEscalationWeight (snd (snd f)) \<le> AutoEscalationWeight (snd (snd f')))"
    using rows h cheapest by (intro bexI [of _ h]) (simp_all add: w)
  have m: "g_accounts (merge_auto_accounts i ?g) = g_accounts ?g" "has_account (merge_auto_accounts i ?g) = has_account ?g"
    using merge_auto_idem [of i g] assms(2) by (simp_all add: derive_one [OF assms(1)]) (simp_all add: merge_auto_accounts_def Let_def)
  have "settled i fs (derive_all env i fs g)"
    using derive_settles [OF assms(1) a m, of fs'] derive_assets [OF assms(1) a, of fs'] a rows cheapest
    by (simp add: settled_def fs derive_all_Cons)
  from settled_all [OF assms(1) this] 1 show ?thesis by blast
qed

theorem escalation_keeps_cheapest_witness:
  "let env = sample_graph_env []; g = snd (SyncAsset env (sample_graph_asset ''1'' []) graph_empty);
       fs = [(''CWE-269'', ''sudo'', Fin 7), (''CWE-250'', ''service as root'', Fin 9)]
   in \<exists>f\<in>set fs. rows_at es_ends (auto_edge ''1'') (can_escalate (derive_all env ''1'' fs g)) = [derived_row ''1'' f]"
  using escalation_keeps_cheapest [of "sample_graph_env []" "''1''" "snd (SyncAsset (sample_graph_env []) (sample_graph_asset ''1'' []) graph_empty)"
      "[(''CWE-269'', ''sudo'', Fin 7), (''CWE-250'', ''service as root'', Fin 9)]"]
  unfolding Let_def
  by (auto simp: sample_graph_env_def SyncAsset_def transaction_def Let_def merge_row_def has_row_def graph_empty_def sample_graph_asset_def)

section \<open>Shared credentials\<close>

lemma rows_at_merge_reuse:
  "rows_at ru_ends e (merge_reuse w via ps rs) =
     (if rows_at ru_ends e rs \<noteq> [] then rows_at ru_ends e rs
      else if e \<in> (\<lambda>(rx, fy). (ac_id rx, ac_id fy)) ` set ps then [\<lparr>ru_ends = e, ru_weight = w, ru_via = via\<rparr>] else [])"
proof (induction ps arbitrary: rs e)
  case Nil
  then show ?case by (simp add: merge_reuse_def)
next
  case (Cons p ps)
  obtain rx fy where p: "p = (rx, fy)" by (cases p)
  let ?r = "\<lparr>ru_ends = (ac_id rx, ac_id fy), ru_weight = w, ru_via = via\<rparr>"
  have "merge_reuse w via (p # ps) rs = merge_reuse w via ps (merge_row ru_ends ?r (\<lambda>o'. o') rs)"
    by (simp add: merge_reuse_def p)
  moreover have "rows_at ru_ends e (merge_row ru_ends ?r (\<lambda>o'. o') rs) =
      (if e = (ac_id rx, ac_id fy) \<and> rows_at ru_ends e rs = [] then [?r] else rows_at ru_ends e rs)"
    using merge_row_same [of ru_ends ?r "\<lambda>o'. o'" rs] merge_row_other [of ru_ends ?r "\<lambda>o'. o'" e rs]
    by (cases "e = (ac_id rx, ac_id fy)") simp_all
  ultimately show ?case unfolding p by (cases "e = (ac_id rx, ac_id fy)") (simp_all add: Cons.IH)
qed

lemma record_credential_ok:
  assumes "\<And>t. g_fault env t = None" and "i \<in> an_id ` set (g_assets g)"
  shows "\<exists>h. record_credential env i princ fp tech g = (Inr (), h) \<and> cred_reuse h = cred_reuse g \<and>
    (AutoAccountID i ''root'', fp) \<in> rd_ends ` set (can_read h) \<and> (fp, AutoAccountID i ''foothold'') \<in> set (valid_on h)"
proof -
  let ?r = "\<lparr>rd_ends = (AutoAccountID i ''root'', fp), rd_technique = tech\<rparr>"
  have "rd_ends ?r \<in> rd_ends ` set (merge_row rd_ends ?r (\<lambda>_. ?r) rs)" for rs
    by (subst merge_row_keys) simp_all
  then show ?thesis using assms
    by (simp add: record_credential_def transaction_def Let_def has_row_iff merge_auto_accounts_def)
qed

text \<open>The accounts a credential joins in a graph: a reader, and an account it is valid for, on different assets.\<close>

definition joined :: "string \<Rightarrow> graph \<Rightarrow> (string \<times> string) set" where
  "joined fp g = {(ac_id rx, ac_id fy) | rx fy. rx \<in> set (g_accounts g) \<and> fy \<in> set (g_accounts g) \<and>
     (ac_id rx, fp) \<in> rd_ends ` set (can_read g) \<and> (fp, ac_id fy) \<in> set (valid_on g) \<and> ac_asset_id rx \<noteq> ac_asset_id fy}"

lemma joined_pairs: "(\<lambda>(rx, fy). (ac_id rx, ac_id fy)) ` set (reuse_pairs fp g) = joined fp g"
  unfolding joined_def by (auto simp: reuse_pairs_accounts image_iff) (metis reuse_pairs_accounts imageI case_prod_conv)+

lemma reuse_pairs_other [simp]: "reuse_pairs fp (h\<lparr>cred_reuse := rs\<rparr>) = reuse_pairs fp h" "reuse_pairs fp (h\<lparr>g_tick := n\<rparr>) = reuse_pairs fp h"
  by (simp_all add: reuse_pairs_def)

lemma infer_reuse_ok:
  assumes "\<And>t. g_fault env t = None"
  shows "\<exists>via. infer_reuse env fp w h = (Inr (int (length (reuse_pairs fp h))),
    h\<lparr>g_tick := Suc (g_tick h)\<rparr>\<lparr>cred_reuse := merge_reuse w via (reuse_pairs fp h) (cred_reuse h)\<rparr>)"
  using assms unfolding infer_reuse_def transaction_def Let_def by simp blast

text \<open>C34: Deriving reuse from a leaked credential leaves exactly one edge for every pair of accounts on different hosts the
  credential joins, the new host's included, and touches no other.  An edge that was there keeps its
  weight, however severe the new leak is; a new one gets the weight of the new finding.\<close>

theorem reuse_links_hosts:
  assumes "\<And>t. g_fault env t = None" and "i \<in> an_id ` set (g_assets g)"
    and "AutoDeriveCredentialReuse env i princ fp tech risk g = (res, g')"
  shows "res = Inr (int (length (reuse_pairs fp g'))) \<and>
    (AutoAccountID i ''root'', fp) \<in> rd_ends ` set (can_read g') \<and> (fp, AutoAccountID i ''foothold'') \<in> set (valid_on g') \<and>
    (\<forall>e. if rows_at ru_ends e (cred_reuse g) \<noteq> [] then rows_at ru_ends e (cred_reuse g') = rows_at ru_ends e (cred_reuse g)
         else if e \<in> joined fp g' then map ru_weight (rows_at ru_ends e (cred_reuse g')) = [AutoReuseWeight risk]
         else rows_at ru_ends e (cred_reuse g') = [])"
proof -
  obtain h where h: "record_credential env i princ fp tech g = (Inr (), h)" "cred_reuse h = cred_reuse g"
      "(AutoAccountID i ''root'', fp) \<in> rd_ends ` set (can_read h)" "(fp, AutoAccountID i ''foothold'') \<in> set (valid_on h)"
    using record_credential_ok [OF assms(1,2)] by blast
  obtain via where v: "infer_reuse env fp (AutoReuseWeight risk) h = (Inr (int (length (reuse_pairs fp h))),
      h\<lparr>g_tick := Suc (g_tick h)\<rparr>\<lparr>cred_reuse := merge_reuse (AutoReuseWeight risk) via (reuse_pairs fp h) (cred_reuse h)\<rparr>)"
    using infer_reuse_ok [OF assms(1)] by blast
  have g': "res = Inr (int (length (reuse_pairs fp h)))"
      "g' = h\<lparr>g_tick := Suc (g_tick h)\<rparr>\<lparr>cred_reuse := merge_reuse (AutoReuseWeight risk) via (reuse_pairs fp h) (cred_reuse h)\<rparr>"
    using assms(3) by (simp_all add: AutoDeriveCredentialReuse_def Let_def h(1) v)
  have "reuse_pairs fp g' = reuse_pairs fp h" by (simp add: g'(2))
  moreover from this joined_pairs have "joined fp g' = (\<lambda>(rx, fy). (ac_id rx, ac_id fy)) ` set (reuse_pairs fp h)" by metis
  ultimately show ?thesis using h(2-) g'(1) by (simp add: g'(2) rows_at_merge_reuse)
qed

theorem reuse_links_hosts_witness:
  "let env = sample_graph_env []; g = snd (SyncAsset env (sample_graph_asset ''1'' []) graph_empty)
   in fst (AutoDeriveCredentialReuse env ''1'' ''deploy'' ''fp'' ''key in git'' (Fin 9) g) =
      Inr (int (length (reuse_pairs ''fp'' (snd (AutoDeriveCredentialReuse env ''1'' ''deploy'' ''fp'' ''key in git'' (Fin 9) g)))))"
  unfolding Let_def
  using reuse_links_hosts [OF _ _ prod.collapse [symmetric], of "sample_graph_env []" "''1''"
     "snd (SyncAsset (sample_graph_env []) (sample_graph_asset ''1'' []) graph_empty)" "''deploy''" "''fp''" "''key in git''" "Fin 9"]
  by (simp add: sample_graph_env_def SyncAsset_def transaction_def Let_def merge_row_def has_row_def graph_empty_def sample_graph_asset_def)

end
