(* ===== verification/Graph_Paths.thy ===== *)
theory Graph_Paths
  imports Graph
begin

text \<open>
  What \<open>FindAttackPaths\<close> of \<open>internal/graph/graph.go\<close> finds: the walks of its pattern are characterised
  without the recursion that enumerates them, and the answers are shown to be exactly those, the shortest
  first while the limit cuts, ranked by risk in the end.
\<close>

section \<open>Walks\<close>

definition steps_of :: "'a list \<Rightarrow> ('a \<times> 'a) list" where
  "steps_of p = zip p (tl p)"

lemma steps_of_snoc: "p \<noteq> [] \<Longrightarrow> steps_of (p @ [x]) = steps_of p @ [(last p, x)]"
  by (induction p rule: induct_list012) (simp_all add: steps_of_def)

definition trail :: "(string \<times> string) set \<Rightarrow> nat \<Rightarrow> string \<Rightarrow> string list \<Rightarrow> bool" where
  "trail E n t p \<longleftrightarrow> 2 \<le> length p \<and> length p \<le> n + 1 \<and> last p = t \<and> distinct (steps_of p) \<and> set (steps_of p) \<subseteq> E"

lemma trail_snoc:
  assumes "2 \<le> length p"
  shows "trail E (Suc n) t (p @ [t]) \<longleftrightarrow> (last p, t) \<in> E \<and> trail (E - {(last p, t)}) n (last p) p"
proof -
  have "p \<noteq> []" using assms by auto
  then show ?thesis using assms by (auto simp: trail_def steps_of_snoc)
qed

lemma trail_pair: "trail E (Suc n) t [s, t] \<longleftrightarrow> (s, t) \<in> E"
  by (auto simp: trail_def steps_of_def)

lemma trails_to_Suc:
  "p \<in> set (trails_to (Suc n) es t) \<longleftrightarrow>
     (\<exists>s. (s, t) \<in> set es \<and> (p = [s, t] \<or> (\<exists>q\<in>set (trails_to n (remove1 (s, t) es) s). p = q @ [t])))"
  by (auto split: if_splits)

lemma trails_to_spec:
  "distinct es \<Longrightarrow> p \<in> set (trails_to n es t) \<longleftrightarrow> trail (set es) n t p"
proof (induction n arbitrary: es t p)
  case 0
  then show ?case by (auto simp: trail_def)
next
  case (Suc n)
  have IH: "q \<in> set (trails_to n (remove1 (s, t) es) s) \<longleftrightarrow> trail (set es - {(s, t)}) n s q" for q s
    using Suc.IH [of "remove1 (s, t) es" q s] Suc.prems by simp
  show ?case
  proof (cases "2 < length p \<and> last p = t")
    case True
    then obtain q where q: "p = q @ [t]" "2 \<le> length q" by (cases p rule: rev_cases) auto
    have last: "trail (set es - {(s, t)}) n s q \<Longrightarrow> s = last q" for s by (simp add: trail_def)
    have "p \<in> set (trails_to (Suc n) es t) \<longleftrightarrow> (\<exists>s. (s, t) \<in> set es \<and> trail (set es - {(s, t)}) n s q)"
      using q unfolding trails_to_Suc Bex_def IH by auto
    also have "\<dots> \<longleftrightarrow> trail (set es) (Suc n) t p" using last q trail_snoc [OF q(2)] by auto
    finally show ?thesis .
  next
    case False
    have "p \<in> set (trails_to (Suc n) es t) \<longleftrightarrow> (\<exists>s. (s, t) \<in> set es \<and> p = [s, t])"
      using False unfolding trails_to_Suc Bex_def IH by (auto simp: trail_def)
    also have "\<dots> \<longleftrightarrow> trail (set es) (Suc n) t p"
    proof
      assume "\<exists>s. (s, t) \<in> set es \<and> p = [s, t]"
      then show "trail (set es) (Suc n) t p" by (auto simp: trail_pair)
    next
      assume p: "trail (set es) (Suc n) t p"
      then have "length p = 2" "last p = t" using False by (auto simp: trail_def)
      then obtain s where "p = [s, t]" by (cases p) (auto simp: length_Suc_conv)
      then show "\<exists>s. (s, t) \<in> set es \<and> p = [s, t]" using p by (simp add: trail_pair)
    qed
    finally show ?thesis .
  qed
qed

section \<open>The answers as attack walks\<close>

text \<open>An attack walk: from an exposed asset to the target, over distinct relationships, every asset vulnerable.\<close>

definition attack_walk :: "graph \<Rightarrow> f64 \<Rightarrow> nat \<Rightarrow> string \<Rightarrow> string list \<Rightarrow> bool" where
  "attack_walk g minRisk n t p \<longleftrightarrow> trail (rr_ends ` set (can_reach g)) n t p \<and>
     (\<exists>a\<in>set (g_assets g). an_id a = hd p \<and> an_exposure a = ''external'') \<and>
     (\<forall>i\<in>set p. \<exists>v\<in>set (g_vulns g). (i, vn_id v) \<in> set (has_vuln g) \<and> minRisk \<le> vn_risk v)"

lemma attack_trails_iff:
  assumes "graph_ok g"
  shows "p \<in> set (attack_trails g t minRisk n) \<longleftrightarrow> attack_walk g minRisk n t p"
proof -
  have "distinct (map rr_ends (can_reach g))" using assms by (simp add: graph_ok_def Let_def)
  from trails_to_spec [OF this] show ?thesis
    by (auto simp: attack_trails_def attack_walk_def qualifies_def list_ex_iff list_all_iff enabling_def filter_empty_conv)
qed

lemma arrange_mset [simp]: "mset (arrange p xs) = mset xs"
proof (cases "mset p = mset [0..<length xs]")
  case True
  then have "mset (arrange p xs) = image_mset ((!) xs) (mset p)" by (simp add: arrange_def)
  also have "\<dots> = mset (map ((!) xs) [0..<length xs])" using True by simp
  finally show ?thesis by (simp only: map_nth)
qed (simp add: arrange_def)

lemma arrange_set [simp]: "set (arrange p xs) = set xs" by (rule mset_eq_setD) simp

lemma arrange_length [simp]: "length (arrange p xs) = length xs" by (rule mset_eq_length) simp

lemma hop_of_row_id [simp]: "h_AssetID (hop_of (hop_row env t g minRisk i)) = i"
  by (simp add: hop_of_def hop_row_def Let_def)

lemma path_of_row:
  "map h_AssetID (ap_Hops (path_of (trail_row env t g minRisk p))) = p"
  "ap_Length (path_of (trail_row env t g minRisk p)) = int (length p) - 1"
  "ap_Hops (path_of (trail_row env t g minRisk p)) = map (\<lambda>i. hop_of (hop_row env t g minRisk i)) p"
  by (simp_all add: path_of_def trail_row_def Let_def comp_def)

lemma insert_by_mset [simp]: "mset (insert_by lt x xs) = add_mset x (mset xs)"
  by (induction xs) auto

lemma sort_stable_mset [simp]: "mset (sort_stable lt xs) = mset xs"
proof -
  have "mset (fold (insert_by lt) xs ys) = mset xs + mset ys" for ys
    by (induction xs arbitrary: ys) auto
  then show ?thesis by (simp add: sort_stable_def)
qed

lemma sort_stable_set [simp]: "set (sort_stable lt xs) = set xs" by (rule mset_eq_setD) simp

lemma sort_stable_length [simp]: "length (sort_stable lt xs) = length xs" by (rule mset_eq_length) simp

text \<open>The records the limit keeps, as walks.\<close>

definition kept_trails :: "graph_env \<Rightarrow> graph \<Rightarrow> string \<Rightarrow> f64 \<Rightarrow> int \<Rightarrow> string list list" where
  "kept_trails env g targetID minRisk maxHops =
     (let ts = attack_trails g targetID minRisk (nat (clamp_hops maxHops))
      in take 50 (sort_key (\<lambda>p. int (length p) - 1) (arrange (row_order env (g_tick g) (length ts)) ts)))"

lemma sort_key_map: "sort_key k (map f xs) = map f (sort_key (\<lambda>x. k (f x)) xs)"
proof -
  have "insort_key k (f x) (map f ys) = map f (insort_key (\<lambda>x. k (f x)) x ys)" for x ys
    by (induction ys) auto
  then show ?thesis by (induction xs) auto
qed

lemma arrange_map: "arrange p (map f xs) = map f (arrange p xs)"
proof (cases "mset p = mset [0..<length xs]")
  case True
  have "set p = set [0..<length xs]" by (rule mset_eq_setD [OF True])
  with True show ?thesis by (auto simp: arrange_def)
qed (simp add: arrange_def)

lemma trail_row_len: "toInt (get_field (trail_row env t g minRisk p) ''len'') = int (length p) - 1"
  by (simp add: trail_row_def)

lemma attack_trails_tick [simp]: "attack_trails (g\<lparr>g_tick := n\<rparr>) = attack_trails g"
  by (auto simp: fun_eq_iff attack_trails_def qualifies_def enabling_def cong: filter_cong)

lemma FindAttackPaths_kept:
  assumes "FindAttackPaths env t minRisk maxHops g = (Inr ps, g')"
  shows "g' = g\<lparr>g_tick := Suc (g_tick g)\<rparr>"
    and "ps = sort_stable more_dangerous
      (map (\<lambda>p. path_of (trail_row env (g_tick g) g' minRisk p)) (kept_trails env g t minRisk maxHops))"
  using assms
  by (auto simp: FindAttackPaths_def transaction_def Let_def kept_trails_def arrange_map sort_key_map trail_row_len
      take_map comp_def split: option.splits)

lemma kept_trails_shortest:
  assumes "p \<in> set (kept_trails env g t minRisk maxHops)"
    and "q \<in> set (attack_trails g t minRisk (nat (clamp_hops maxHops)))" and "q \<notin> set (kept_trails env g t minRisk maxHops)"
  shows "length p \<le> length q" and "length (kept_trails env g t minRisk maxHops) = 50"
proof -
  define s where "s = sort_key (\<lambda>p. int (length p) - 1)
    (arrange (row_order env (g_tick g) (length (attack_trails g t minRisk (nat (clamp_hops maxHops)))))
       (attack_trails g t minRisk (nat (clamp_hops maxHops))))"
  have k: "kept_trails env g t minRisk maxHops = take 50 s" by (simp add: kept_trails_def s_def Let_def)
  have "q \<in> set s" using assms(2) by (simp add: s_def)
  then have q: "q \<in> set (drop 50 s)" using assms(3) unfolding k by (metis Un_iff append_take_drop_id set_append)
  have "sorted (map (\<lambda>p. int (length p) - 1) s)" by (simp add: s_def)
  then have "sorted (map (\<lambda>p. int (length p) - 1) (take 50 s) @ map (\<lambda>p. int (length p) - 1) (drop 50 s))"
    by (simp flip: map_append)
  then have "int (length p) - 1 \<le> int (length q) - 1"
    using assms(1) q unfolding k sorted_append by simp
  then show "length p \<le> length q" by simp
  show "length (kept_trails env g t minRisk maxHops) = 50" using q unfolding k by (cases "50 \<le> length s") auto
qed

text \<open>C10: The attack paths reported for a target are attack walks to it of at most the asked hops (clamped to 1..8), at most 50
  of them; when fewer are reported there are no others, and otherwise no walk left out is shorter than a
  reported one.  A search changes nothing in the graph.\<close>

theorem attack_paths_exact:
  assumes "graph_ok g" and "FindAttackPaths env t minRisk maxHops g = (Inr ps, g')"
  shows "let ids = (\<lambda>p. map h_AssetID (ap_Hops p)); W = {w. attack_walk g minRisk (nat (clamp_hops maxHops)) t w} in
    g' = g\<lparr>g_tick := Suc (g_tick g)\<rparr> \<and> length ps \<le> 50 \<and> ids ` set ps \<subseteq> W \<and>
    (\<forall>p\<in>set ps. ap_Length p = int (length (ids p)) - 1) \<and>
    (length ps < 50 \<longrightarrow> ids ` set ps = W) \<and>
    (\<forall>p\<in>set ps. \<forall>w\<in>W - ids ` set ps. length (ids p) \<le> length w)"
proof -
  let ?K = "kept_trails env g t minRisk maxHops"
  let ?W = "{w. attack_walk g minRisk (nat (clamp_hops maxHops)) t w}"
  note f = FindAttackPaths_kept [OF assms(2)]
  have ids: "(\<lambda>p. map h_AssetID (ap_Hops p)) ` set ps = set ?K"
    by (simp add: f(2) image_image path_of_row(1))
  have sub: "set ?K \<subseteq> set (attack_trails g t minRisk (nat (clamp_hops maxHops)))"
    using set_take_subset by (fastforce simp: kept_trails_def Let_def)
  have W: "?W = set (attack_trails g t minRisk (nat (clamp_hops maxHops)))" using attack_trails_iff [OF assms(1)] by auto
  have len: "length ps = length ?K" by (simp add: f(2))
  have le: "length ?K \<le> 50" by (simp add: kept_trails_def Let_def)
  have all: "?W \<subseteq> set ?K" if "length ps < 50"
  proof (cases "?K = []")
    case True
    then show ?thesis unfolding W by (simp add: kept_trails_def Let_def) (metis arrange_set set_empty set_sort)
  next
    case False
    then have "hd ?K \<in> set ?K" by simp
    with kept_trails_shortest(2) that show ?thesis unfolding W len by (metis less_irrefl subsetI)
  qed
  have short: "length (map h_AssetID (ap_Hops p)) \<le> length w" if "p \<in> set ps" "w \<in> ?W - set ?K" for p w
    using that kept_trails_shortest(1) [of "map h_AssetID (ap_Hops p)" env g t minRisk maxHops w] ids unfolding W by blast
  have "ap_Length p = int (length (ap_Hops p)) - 1" if "p \<in> set ps" for p
    using that f(2) by (auto simp: path_of_row)
  then show ?thesis unfolding Let_def ids using f(1) len le sub W all short by auto
qed

text \<open>Two hosts, the first exposed, each with a vulnerability, and a way from one to the other.\<close>

definition sample_graph :: graph where
  "sample_graph = graph_empty\<lparr>
     g_assets := [\<lparr>an_id = ''a'', an_name = ''edge'', an_target = ''203.0.113.9'', an_criticality = ''low'', an_exposure = ''external''\<rparr>,
                  \<lparr>an_id = ''b'', an_name = ''db'', an_target = ''10.0.0.9'', an_criticality = ''critical'', an_exposure = ''internal''\<rparr>],
     g_vulns := [\<lparr>vn_id = ''v1'', vn_title = ''rce'', vn_cwe = ''CWE-78'', vn_cvss = Fin 9, vn_risk = Fin 9, vn_kev = True, vn_severity = ''high''\<rparr>,
                 \<lparr>vn_id = ''v2'', vn_title = ''sqli'', vn_cwe = ''CWE-89'', vn_cvss = Fin 8, vn_risk = Fin 7, vn_kev = False, vn_severity = ''high''\<rparr>],
     has_vuln := [(''a'', ''v1''), (''b'', ''v2'')],
     can_reach := [\<lparr>rr_ends = (''a'', ''b''), rr_port = 5432, rr_proto = ''tcp''\<rparr>]\<rparr>"

lemma sample_graph_ok: "graph_ok sample_graph"
  by (simp add: graph_ok_def sample_graph_def graph_empty_def ends_in_def)

lemma sample_search:
  "FindAttackPaths (sample_graph_env []) ''b'' (Fin 5) 0 sample_graph =
     (Inr (sort_stable more_dangerous (map (\<lambda>p. path_of (trail_row (sample_graph_env []) 0 (sample_graph\<lparr>g_tick := 1\<rparr>) (Fin 5) p))
        (kept_trails (sample_graph_env []) sample_graph ''b'' (Fin 5) 0))), sample_graph\<lparr>g_tick := 1\<rparr>)"
proof -
  have "g_tick sample_graph = 0" by (simp add: sample_graph_def graph_empty_def)
  then show ?thesis
    by (simp add: FindAttackPaths_def transaction_def Let_def kept_trails_def arrange_map sort_key_map trail_row_len take_map comp_def
       sample_graph_env_def)
qed

theorem attack_paths_exact_witness:
  "\<exists>ps g'. FindAttackPaths (sample_graph_env []) ''b'' (Fin 5) 0 sample_graph = (Inr ps, g') \<and>
     (\<lambda>p. map h_AssetID (ap_Hops p)) ` set ps \<subseteq> {w. attack_walk sample_graph (Fin 5) 4 ''b'' w}"
proof -
  obtain ps g' where s: "FindAttackPaths (sample_graph_env []) ''b'' (Fin 5) 0 sample_graph = (Inr ps, g')" using sample_search by blast
  with attack_paths_exact [OF sample_graph_ok s] show ?thesis by (auto simp: Let_def clamp_hops_def)
qed

section \<open>Ranking\<close>

lemma max_fold:
  fixes k :: "'a \<Rightarrow> f64"
  assumes "b \<noteq> NaN" and "\<forall>x\<in>set xs. k x \<noteq> NaN"
  shows "b \<le> fold (\<lambda>x m. if m < k x then k x else m) xs b \<and> (\<forall>x\<in>set xs. k x \<le> fold (\<lambda>x m. if m < k x then k x else m) xs b) \<and>
    fold (\<lambda>x m. if m < k x then k x else m) xs b \<in> insert b (k ` set xs)"
  using assms
proof (induction xs arbitrary: b)
  case Nil
  then show ?case by (simp add: f64_le_refl)
next
  case (Cons x xs)
  have "k x \<noteq> NaN" using Cons.prems by simp
  then have b': "(if b < k x then k x else b) \<noteq> NaN" "b \<le> (if b < k x then k x else b)" "k x \<le> (if b < k x then k x else b)"
    using Cons.prems(1) by (auto simp: f64_le_refl f64_less_le) (auto simp: f64_le_iff, (cases b; cases "k x"; auto)+)
  show ?case using Cons.IH [OF b'(1)] Cons.prems b'(2,3) by (auto intro: f64_le_trans)
qed

definition vuln_map :: "vuln_node \<Rightarrow> neo" where
  "vuln_map v = NMap [(''title'', NStr (vn_title v)), (''cwe'', NStr (vn_cwe v)), (''risk'', NFloat (vn_risk v))]"

lemma pick_fold:
  assumes "b \<noteq> NaN" and "\<forall>v\<in>set vs. vn_risk v \<noteq> NaN"
  shows "let r = fold (\<lambda>v (top, best). let r = toFloat (get_field v ''risk'') in if best < r then (v, r) else (top, best))
      (map vuln_map vs) (t, b) in
    snd r = fold (\<lambda>v m. if m < vn_risk v then vn_risk v else m) vs b \<and>
    (r = (t, b) \<or> (\<exists>v\<in>set vs. r = (vuln_map v, vn_risk v)))"
  using assms
proof (induction vs arbitrary: t b)
  case (Cons v vs)
  have r: "toFloat (get_field (vuln_map v) ''risk'') = vn_risk v" by (simp add: vuln_map_def)
  show ?case
    using Cons.IH [of b t] Cons.IH [of "vn_risk v" "vuln_map v"] Cons.prems by (auto simp: r Let_def)
qed simp

lemma pickTopVuln_top:
  assumes "vs \<noteq> []" and "\<forall>v\<in>set vs. Fin 0 \<le> vn_risk v"
  obtains v where "v \<in> set vs" and "pickTopVuln (map vuln_map vs) = vuln_map v" and "\<forall>u\<in>set vs. vn_risk u \<le> vn_risk v"
proof -
  let ?m = "fold (\<lambda>v m. if m < vn_risk v then vn_risk v else m) vs (Fin (- 1))"
  let ?r = "fold (\<lambda>v (top, best). let r = toFloat (get_field v ''risk'') in if best < r then (v, r) else (top, best))
      (map vuln_map vs) (NMap [], Fin (- 1))"
  have nn: "\<forall>v\<in>set vs. vn_risk v \<noteq> NaN" using assms(2) by (auto simp: f64_le_iff)
  note m = max_fold [OF _ nn, of "Fin (- 1)"]
  note p = pick_fold [OF _ nn, of "Fin (- 1)" "NMap []", unfolded Let_def [of ?r]]
  have "?r \<noteq> (NMap [], Fin (- 1))"
  proof
    assume "?r = (NMap [], Fin (- 1))"
    with p have "?m = Fin (- 1)" by auto
    with m assms have "Fin 0 \<le> Fin (- 1)" by (metis f64.distinct(5) f64_le_trans hd_in_set)
    then show False by simp
  qed
  then obtain v where "v \<in> set vs" "?r = (vuln_map v, vn_risk v)" "?m = vn_risk v" using p by auto
  then show ?thesis using that m by (auto simp: pickTopVuln_def)
qed

text \<open>The vulnerability a hop names is a most dangerous one among those of its asset that count.\<close>

definition names_worst :: "graph \<Rightarrow> f64 \<Rightarrow> Hop \<Rightarrow> bool" where
  "names_worst g minRisk h \<longleftrightarrow>
     (\<exists>v\<in>set (enabling g minRisk (h_AssetID h)). h_ViaVulnTitle h = vn_title v \<and> h_ViaVulnCWE h = vn_cwe v \<and>
        h_ViaVulnRisk h = vn_risk v \<and> (\<forall>u\<in>set (enabling g minRisk (h_AssetID h)). vn_risk u \<le> vn_risk v))"

lemma hop_names_worst:
  assumes "enabling g minRisk i \<noteq> []" and "Fin 0 \<le> minRisk"
  shows "names_worst g minRisk (hop_of (hop_row env t g minRisk i))"
proof -
  let ?vs = "arrange (item_order env t i (length (enabling g minRisk i))) (enabling g minRisk i)"
  have ne: "?vs \<noteq> []" using assms(1) by (metis arrange_length length_0_conv)
  have "\<forall>v\<in>set ?vs. Fin 0 \<le> vn_risk v" using assms(2) by (auto simp: enabling_def intro: f64_le_trans)
  from pickTopVuln_top [OF ne this] obtain v where v: "v \<in> set ?vs" "pickTopVuln (map vuln_map ?vs) = vuln_map v"
    "\<forall>u\<in>set ?vs. vn_risk u \<le> vn_risk v" .
  have "get_field (hop_row env t g minRisk i) ''vulns'' = NList (map vuln_map ?vs)"
    by (simp add: hop_row_def Let_def vuln_map_def)
  then have "h_ViaVulnTitle (hop_of (hop_row env t g minRisk i)) = vn_title v \<and> h_ViaVulnCWE (hop_of (hop_row env t g minRisk i)) = vn_cwe v \<and>
     h_ViaVulnRisk (hop_of (hop_row env t g minRisk i)) = vn_risk v"
    using v(2) by (simp add: hop_of_def Let_def vuln_map_def)
  then show ?thesis using v(1,3) unfolding names_worst_def hop_of_row_id by auto
qed

lemma insert_by_set [simp]: "set (insert_by lt x xs) = insert x (set xs)"
  by (induction xs) auto

lemma insert_by_sorted:
  assumes "sorted_wrt (\<lambda>p q. \<not> lt q p) xs" and "\<And>x y z. \<lbrakk>x \<in> S; y \<in> S; z \<in> S; \<not> lt y x; \<not> lt z y\<rbrakk> \<Longrightarrow> \<not> lt z x"
    and "\<And>x y. \<lbrakk>x \<in> S; y \<in> S; lt x y\<rbrakk> \<Longrightarrow> \<not> lt y x" and "set xs \<subseteq> S" and "x \<in> S"
  shows "sorted_wrt (\<lambda>p q. \<not> lt q p) (insert_by lt x xs)"
  using assms(1,4)
proof (induction xs)
  case (Cons y ys)
  show ?case
  proof (cases "lt x y")
    case True
    have "\<not> lt z x" if "z \<in> set ys" for z
      by (rule assms(2) [of x y z]) (use that Cons.prems True assms(3) [of x y] assms(5) in auto)
    with True Cons.prems assms(3) [of x y] assms(5) show ?thesis by simp
  next
    case False
    with Cons show ?thesis by simp
  qed
qed simp

lemma sort_stable_sorted:
  assumes "\<And>x y z. \<lbrakk>x \<in> S; y \<in> S; z \<in> S; \<not> lt y x; \<not> lt z y\<rbrakk> \<Longrightarrow> \<not> lt z x"
    and "\<And>x y. \<lbrakk>x \<in> S; y \<in> S; lt x y\<rbrakk> \<Longrightarrow> \<not> lt y x" and "set xs \<subseteq> S"
  shows "sorted_wrt (\<lambda>p q. \<not> lt q p) (sort_stable lt xs)"
proof -
  have "sorted_wrt (\<lambda>p q. \<not> lt q p) (fold (insert_by lt) xs ys)"
    if "sorted_wrt (\<lambda>p q. \<not> lt q p) ys" "set xs \<subseteq> S" "set ys \<subseteq> S" for ys
    using that
  proof (induction xs arbitrary: ys)
    case (Cons x xs)
      have "sorted_wrt (\<lambda>p q. \<not> lt q p) (insert_by lt x ys)"
      using Cons.prems by (intro insert_by_sorted [OF _ assms(1,2)]) auto
    then show ?case using Cons.IH [of "insert_by lt x ys"] Cons.prems by simp
  qed simp
  then show ?thesis using assms(3) by (simp add: sort_stable_def)
qed

lemma more_dangerous_trans:
  assumes "ap_MaxRisk p \<noteq> NaN" "ap_MaxRisk q \<noteq> NaN" "ap_MaxRisk r \<noteq> NaN" "\<not> more_dangerous q p" "\<not> more_dangerous r q"
  shows "\<not> more_dangerous r p"
  using assms
  by (cases "ap_MaxRisk p"; cases "ap_MaxRisk q"; cases "ap_MaxRisk r") (auto simp: more_dangerous_def f64_eq_def less_f64_def split: if_splits)

lemma more_dangerous_asym: "more_dangerous p q \<Longrightarrow> \<not> more_dangerous q p"
  by (cases "ap_MaxRisk p"; cases "ap_MaxRisk q") (auto simp: more_dangerous_def f64_eq_def less_f64_def split: if_splits)

lemma path_max_risk:
  assumes "\<forall>i\<in>set p. enabling g minRisk i \<noteq> []" and "Fin 0 \<le> minRisk" and "p \<noteq> []"
  shows "let P = path_of (trail_row env t g minRisk p) in
    (\<forall>h\<in>set (ap_Hops P). names_worst g minRisk h \<and> h_ViaVulnRisk h \<le> ap_MaxRisk P) \<and>
    ap_MaxRisk P \<in> h_ViaVulnRisk ` set (ap_Hops P)"
proof -
  let ?P = "path_of (trail_row env t g minRisk p)"
  have hops: "ap_Hops ?P = map (\<lambda>i. hop_of (hop_row env t g minRisk i)) p" by (rule path_of_row)
  have worst: "\<forall>h\<in>set (ap_Hops ?P). names_worst g minRisk h"
    using hop_names_worst [OF _ assms(2)] assms(1) by (auto simp: hops)
  have ge: "\<forall>h\<in>set (ap_Hops ?P). Fin 0 \<le> h_ViaVulnRisk h"
  proof
    fix h assume "h \<in> set (ap_Hops ?P)"
    with worst obtain v where "v \<in> set (enabling g minRisk (h_AssetID h))" "h_ViaVulnRisk h = vn_risk v"
      unfolding names_worst_def by blast
    then show "Fin 0 \<le> h_ViaVulnRisk h" using f64_le_trans [OF assms(2)] by (simp add: enabling_def)
  qed
  then have nn: "\<forall>h\<in>set (ap_Hops ?P). h_ViaVulnRisk h \<noteq> NaN" by (auto simp: f64_le_iff)
  have m: "ap_MaxRisk ?P = fold (\<lambda>h m. if m < h_ViaVulnRisk h then h_ViaVulnRisk h else m) (ap_Hops ?P) (Fin 0)"
    by (simp add: path_of_def Let_def)
  note f = max_fold [OF _ nn, of "Fin 0", folded m]
  have "hd (ap_Hops ?P) \<in> set (ap_Hops ?P)" using assms(3) by (intro hd_in_set) (simp add: hops)
  then obtain h where h: "h \<in> set (ap_Hops ?P)" by blast
  have "ap_MaxRisk ?P \<in> h_ViaVulnRisk ` set (ap_Hops ?P)"
  proof (cases "ap_MaxRisk ?P = Fin 0")
    case True
    with f h ge have "h_ViaVulnRisk h \<le> Fin 0" "Fin 0 \<le> h_ViaVulnRisk h" by auto
    then have "h_ViaVulnRisk h = Fin 0" by (cases "h_ViaVulnRisk h") (auto simp: f64_le_iff)
    with h True show ?thesis by (metis imageI)
  next
    case False
    with f show ?thesis by auto
  qed
  then show ?thesis using worst f by (simp add: Let_def)
qed

lemma enabling_tick [simp]: "enabling (g\<lparr>g_tick := n\<rparr>) = enabling g"
  by (simp add: fun_eq_iff enabling_def)

lemma names_worst_tick [simp]: "names_worst (g\<lparr>g_tick := n\<rparr>) = names_worst g"
  by (simp add: fun_eq_iff names_worst_def)

text \<open>Reported attack paths are ranked: the highest risk first, and at the same risk the shorter first.  Each hop
  names a most dangerous vulnerability of its asset among those that reach the minimum, and the risk of a path
  is the highest of its hops.\<close>

theorem attack_paths_ranked:
  assumes "FindAttackPaths env t minRisk maxHops g = (Inr ps, g')" and "Fin 0 \<le> minRisk"
  shows "sorted_wrt (\<lambda>p q. ap_MaxRisk q \<le> ap_MaxRisk p \<and> (ap_MaxRisk p = ap_MaxRisk q \<longrightarrow> ap_Length p \<le> ap_Length q)) ps \<and>
    (\<forall>p\<in>set ps. (\<forall>h\<in>set (ap_Hops p). names_worst g minRisk h \<and> h_ViaVulnRisk h \<le> ap_MaxRisk p) \<and>
       ap_MaxRisk p \<in> h_ViaVulnRisk ` set (ap_Hops p))"
proof -
  note f = FindAttackPaths_kept [OF assms(1)]
  let ?K = "kept_trails env g t minRisk maxHops"
  have K: "(\<forall>i\<in>set p. enabling g minRisk i \<noteq> []) \<and> p \<noteq> []" if "p \<in> set ?K" for p
  proof -
    from that have "p \<in> set (attack_trails g t minRisk (nat (clamp_hops maxHops)))"
      by (auto simp: kept_trails_def Let_def dest: in_set_takeD)
    moreover have "q \<noteq> []" if "q \<in> set (trails_to n es u)" for q n es u
      using that by (cases n) (auto split: if_splits)
    ultimately show ?thesis by (auto simp: attack_trails_def qualifies_def list_all_iff)
  qed
  have paths: "(\<forall>h\<in>set (ap_Hops p). names_worst g minRisk h \<and> h_ViaVulnRisk h \<le> ap_MaxRisk p) \<and>
       ap_MaxRisk p \<in> h_ViaVulnRisk ` set (ap_Hops p)" if "p \<in> set ps" for p
  proof -
    from that obtain q where q: "q \<in> set ?K" "p = path_of (trail_row env (g_tick g) g' minRisk q)" by (auto simp: f(2))
    with K [OF q(1)] show ?thesis
      using path_max_risk [OF _ assms(2), of q g' env "g_tick g"] by (simp add: f(1) Let_def)
  qed
  have nn: "ap_MaxRisk p \<noteq> NaN" if "p \<in> set ps" for p
  proof -
    from paths [OF that] obtain h where "h \<in> set (ap_Hops p)" "h_ViaVulnRisk h = ap_MaxRisk p" by (metis imageE)
    with paths [OF that] have "h_ViaVulnRisk h \<le> ap_MaxRisk p" by blast
    then show ?thesis by (auto simp: f64_le_iff)
  qed
  define xs where "xs = map (\<lambda>p. path_of (trail_row env (g_tick g) g' minRisk p)) ?K"
  have ps: "ps = sort_stable more_dangerous xs" "set ps = set xs" by (simp_all add: f(2) xs_def)
  have "sorted_wrt (\<lambda>p q. \<not> more_dangerous q p) ps" unfolding ps(1)
  proof (rule sort_stable_sorted [where S = "set ps"])
    show "\<not> more_dangerous z x" if "x \<in> set ps" "y \<in> set ps" "z \<in> set ps" "\<not> more_dangerous y x" "\<not> more_dangerous z y" for x y z
      by (rule more_dangerous_trans [OF nn nn nn]) (use that in blast)+
    show "\<not> more_dangerous y x" if "more_dangerous x y" for x y using that by (rule more_dangerous_asym)
    show "set xs \<subseteq> set ps" by (simp add: ps(2))
  qed
  then have "sorted_wrt (\<lambda>p q. ap_MaxRisk q \<le> ap_MaxRisk p \<and> (ap_MaxRisk p = ap_MaxRisk q \<longrightarrow> ap_Length p \<le> ap_Length q)) ps"
  proof (rule sorted_wrt_mono_rel [rotated])
    fix p q assume "p \<in> set ps" "q \<in> set ps" "\<not> more_dangerous q p"
    then show "ap_MaxRisk q \<le> ap_MaxRisk p \<and> (ap_MaxRisk p = ap_MaxRisk q \<longrightarrow> ap_Length p \<le> ap_Length q)"
      using nn [of p] nn [of q]
      by (cases "ap_MaxRisk p"; cases "ap_MaxRisk q") (auto simp: more_dangerous_def f64_eq_def less_f64_def f64_le_iff split: if_splits)
  qed
  with paths show ?thesis by blast
qed

theorem attack_paths_ranked_witness:
  "\<exists>ps g'. FindAttackPaths (sample_graph_env []) ''b'' (Fin 5) 0 sample_graph = (Inr ps, g') \<and>
     (\<forall>p\<in>set ps. ap_MaxRisk p \<in> h_ViaVulnRisk ` set (ap_Hops p))"
proof -
  obtain ps g' where s: "FindAttackPaths (sample_graph_env []) ''b'' (Fin 5) 0 sample_graph = (Inr ps, g')" using sample_search by blast
  with attack_paths_ranked [OF s] show ?thesis by auto
qed

end
