(* ===== verification/Engine.thy ===== *)
theory Engine
  imports Config Job_Queue Normalize Graph
begin

text \<open>
  \<open>internal/engine/processor.go\<close> and the loop of \<open>cmd/worker/main.go\<close>: a scan job from the queue to its
  last status.  The state is what the processor works on, the relational database and the graph, with
  the contacts the scanners have made; log lines are left out.  The environment adds to those of the
  components what differs from scan to scan (the machine and the network when the scanner runs, by
  the database's clock) and the texts of errors.  A deadline that passes shows as failing calls.
\<close>

record engine_state =
  st_db :: db
  st_graph :: graph
  st_contacts :: "contact list"

record engine_env =
  e_scan :: "nat \<Rightarrow> scan_env"
  e_norm :: norm_env
  e_feed :: "nat \<Rightarrow> Feed"
  store_text :: "store_error \<Rightarrow> string"

text \<open>The graph is optional: \<open>None\<close> is the nil pointer.\<close>

record Processor =
  pr_store :: env
  pr_graph :: "graph_env option"
  pr_opts :: Options
  pr_cfg :: Config

definition NewProcessor :: "env \<Rightarrow> graph_env option \<Rightarrow> Config \<Rightarrow> Processor" where
  "NewProcessor st g cfg =
     \<lparr>pr_store = st, pr_graph = g,
      pr_opts = \<lparr>NmapBin = Config.NmapBin cfg, NucleiBin = Config.NucleiBin cfg, GitleaksBin = Config.GitleaksBin cfg,
                 AllowLiveScan = Config.AllowLiveScan cfg, Production = IsProduction cfg,
                 ScanAuthorized = Config.ScanAuthorized cfg\<rparr>,
      pr_cfg = cfg\<rparr>"

definition on_db :: "(db \<Rightarrow> 'a \<times> db) \<Rightarrow> engine_state \<Rightarrow> 'a \<times> engine_state" where
  "on_db f s = (let (x, d) = f (st_db s) in (x, s\<lparr>st_db := d\<rparr>))"

definition on_graph :: "(graph \<Rightarrow> 'a \<times> graph) \<Rightarrow> engine_state \<Rightarrow> 'a \<times> engine_state" where
  "on_graph f s = (let (x, g) = f (st_graph s) in (x, s\<lparr>st_graph := g\<rparr>))"

section \<open>Findings\<close>

text \<open>What a stored finding does to the graph; errors are logged and otherwise ignored.\<close>

definition project_finding :: "graph_env \<Rightarrow> Asset \<Rightarrow> Finding \<Rightarrow> engine_state \<Rightarrow> engine_state" where
  "project_finding g a f s =
     (let s = snd (on_graph (SyncFinding g f) s);
          s = (if IsPrivEsc (f_CWE f)
               then snd (on_graph (AutoDeriveEscalation g (a_ID a) (f_CWE f) (f_Title f) (f_RiskScore f)) s) else s)
      in if IsCredentialLeak (f_CWE f) \<and> f_CredFP f \<noteq> []
         then snd (on_graph (AutoDeriveCredentialReuse g (a_ID a) (f_Principal f) (f_CredFP f) (f_Title f) (f_RiskScore f)) s)
         else s)"

text \<open>The loop body over the findings of a scanner, with the count of those stored.\<close>

definition record_finding :: "Processor \<Rightarrow> Asset \<Rightarrow> Finding \<Rightarrow> engine_state \<times> int \<Rightarrow> engine_state \<times> int" where
  "record_finding p a f st =
     (let (s, total) = st
      in case on_db (CreateFinding (pr_store p) f) s of
           (Inl e, s) \<Rightarrow> (s, total)
         | (Inr f, s) \<Rightarrow> (case pr_graph p of None \<Rightarrow> s | Some g \<Rightarrow> project_finding g a f s, total + 1))"

section \<open>Scanners\<close>

record progress =
  usedMock :: bool
  total :: int
  scanErrs :: "string list"

text \<open>The loop body over the scanners of the profile.\<close>

definition run_scanner ::
  "engine_env \<Rightarrow> Processor \<Rightarrow> Asset \<Rightarrow> string \<Rightarrow> Scanner \<Rightarrow> engine_state \<times> progress \<Rightarrow> engine_state \<times> progress" where
  "run_scanner E p a jobID sc st =
     (let (s, pg) = st; (r, cs) = Scan (e_scan E (tick (st_db s))) sc a;
          s = s\<lparr>st_contacts := st_contacts s @ cs\<rparr>
      in case r of
           Inl err \<Rightarrow> (s, pg\<lparr>scanErrs := scanErrs pg @ [Scanner_Type sc @ '': '' @ err]\<rparr>)
         | Inr raw \<Rightarrow>
             let pg = (if raw_Mock raw then pg\<lparr>usedMock := True\<rparr> else pg)
             in case Normalize (e_norm E) (e_feed E (tick (st_db s))) raw a jobID of
                  Inl err \<Rightarrow> (s, pg)
                | Inr fs \<Rightarrow> let (s, n) = fold (record_finding p a) fs (s, total pg) in (s, pg\<lparr>total := n\<rparr>))"

section \<open>Reachability in a subnet\<close>

definition privateSubnet24 :: "string \<Rightarrow> string option" where
  "privateSubnet24 target =
     (case parse_ip (trim_space target) of
        None \<Rightarrow> None
      | Some ip \<Rightarrow>
          (case to4 ip of
             None \<Rightarrow> None
           | Some v4 \<Rightarrow>
               if \<not> is_private ip then None
               else Some (show_nat (v4 ! 0) @ ''.'' @ show_nat (v4 ! 1) @ ''.'' @ show_nat (v4 ! 2))))"

text \<open>The loop body over the other assets.\<close>

definition link_peer ::
  "graph_env \<Rightarrow> Asset \<Rightarrow> string \<Rightarrow> Asset \<Rightarrow> int \<times> engine_state \<Rightarrow> int \<times> engine_state" where
  "link_peer g a net peer st =
     (let (n, s) = st
      in if a_ID peer = a_ID a \<or> a_Type peer \<noteq> AssetIP then (n, s)
         else if privateSubnet24 (a_Target peer) \<noteq> Some net then (n, s)
         else let s = snd (on_graph (UpsertReachability g (a_ID a) (a_ID peer) 0 ''ip'') s);
                  s = snd (on_graph (UpsertReachability g (a_ID peer) (a_ID a) 0 ''ip'') s)
              in (n + 1, s))"

definition deriveSubnetReachability :: "Processor \<Rightarrow> graph_env \<Rightarrow> Asset \<Rightarrow> engine_state \<Rightarrow> int \<times> engine_state" where
  "deriveSubnetReachability p g a s =
     (case on_db (ListAssets (pr_store p)) s of
        (Inl e, s) \<Rightarrow> (0, s)
      | (Inr as, s) \<Rightarrow>
          (case privateSubnet24 (a_Target a) of
             None \<Rightarrow> (0, s)
           | Some net \<Rightarrow> fold (link_peer g a net) as (0, s)))"

section \<open>A job\<close>

definition failure_text :: "string list \<Rightarrow> string" where
  "failure_text errs = ''all scanners failed: '' @ join ''; '' errs"

text \<open>From the running job to its last status.\<close>

definition scan_job :: "engine_env \<Rightarrow> Processor \<Rightarrow> ScanJob \<Rightarrow> Asset \<Rightarrow> engine_state \<Rightarrow> engine_state \<times> progress" where
  "scan_job E p job a s =
     (let s = (case pr_graph p of None \<Rightarrow> s | Some g \<Rightarrow> snd (on_graph (SyncAsset g a) s));
          (s, pg) = fold (run_scanner E p a (j_ID job)) (ForProfile (j_Profile job) (pr_opts p))
                      (s, \<lparr>usedMock = False, total = 0, scanErrs = []\<rparr>);
          s = (case pr_graph p of
                 None \<Rightarrow> s
               | Some g \<Rightarrow> if a_Type a = AssetIP then snd (deriveSubnetReachability p g a s) else s)
      in (s, pg))"

definition finish_job :: "Processor \<Rightarrow> ScanJob \<Rightarrow> progress \<Rightarrow> engine_state \<Rightarrow> (store_error + unit) \<times> engine_state" where
  "finish_job p job pg s =
     (if total pg = 0 \<and> 0 < length (scanErrs pg)
      then on_db (MarkFailed (pr_store p) (j_ID job) (failure_text (scanErrs pg))) s
      else on_db (MarkCompleted (pr_store p) (j_ID job) (usedMock pg)) s)"

text \<open>The result is the error, if any.\<close>

definition Process :: "engine_env \<Rightarrow> Processor \<Rightarrow> string \<Rightarrow> engine_state \<Rightarrow> string option \<times> engine_state" where
  "Process E p scanJobID s =
     (case on_db (GetScanJob (pr_store p) scanJobID) s of
        (Inl err, s) \<Rightarrow> (Some (''load job: '' @ store_text E err), s)
      | (Inr job, s) \<Rightarrow>
          (case on_db (GetAsset (pr_store p) (j_AssetID job)) s of
             (Inl err, s) \<Rightarrow> (Some (''load asset: '' @ store_text E err), s)
           | (Inr a, s) \<Rightarrow>
               (case on_db (MarkRunning (pr_store p) (j_ID job)) s of
                  (Inl err, s) \<Rightarrow> (Some (store_text E err), s)
                | (Inr _, s) \<Rightarrow>
                    let (s, pg) = scan_job E p job a s
                    in (case finish_job p job pg s of
                          (Inl err, s) \<Rightarrow> (Some (store_text E err), s)
                        | (Inr _, s) \<Rightarrow> (None, s)))))"

section \<open>The worker\<close>

text \<open>One turn of the loop, and the loop until the signal, which arrives after \<open>n\<close> turns.\<close>

definition worker_step :: "engine_env \<Rightarrow> Processor \<Rightarrow> Queue \<Rightarrow> redis \<times> engine_state \<Rightarrow> redis \<times> engine_state" where
  "worker_step E p q st =
     (let (r, s) = st
      in case Dequeue q r of
           (Inl _, r) \<Rightarrow> (r, s)
         | (Inr jobID, r) \<Rightarrow>
             if jobID = [] then (r, s)
             else (case Process E p jobID s of
                     (None, s) \<Rightarrow> (r, s)
                   | (Some err, s) \<Rightarrow> (r, snd (on_db (MarkFailed (pr_store p) jobID err) s))))"

fun worker_loop :: "engine_env \<Rightarrow> Processor \<Rightarrow> Queue \<Rightarrow> nat \<Rightarrow> redis \<times> engine_state \<Rightarrow> redis \<times> engine_state" where
  "worker_loop E p q 0 st = st"
| "worker_loop E p q (Suc n) st = worker_loop E p q n (worker_step E p q st)"

end
