(* ===== verification/Engine_Spec.thy ===== *)
theory Engine_Spec
  imports Engine
begin

text \<open>
  The life cycle of a job as an abstract machine: a control state for what the worker is at, and the steps that lead
  from one to the next.  The order of the phases is fixed, what happens inside a scan is left open: at
  what times the scanners run, which of the reported findings are stored and in what order the graph is written.  The refinement: whatever
  fails and whenever, a run of the worker is a run of this machine.  Invariants of the
  whole system are inductions over the steps without the control.
\<close>

section \<open>The life cycle\<close>

text \<open>A finding that a scanner really reported: it is in the normalized output of a scan of the asset for the job by an
  adapter of the job's profile, and the contacts of that scan are on record.\<close>

definition reported :: "engine_env \<Rightarrow> Processor \<Rightarrow> ScanJob \<Rightarrow> Asset \<Rightarrow> contact list \<Rightarrow> Finding \<Rightarrow> bool" where
  "reported E p job a seen f \<longleftrightarrow>
     (\<exists>t t' sc raw cs fs. sc \<in> set (ForProfile (j_Profile job) (pr_opts p)) \<and>
        Scan (e_scan E t) sc a = (Inr raw, cs) \<and> set cs \<subseteq> set seen \<and>
        Normalize (e_norm E) (e_feed E t') raw a (j_ID job) = Inr fs \<and> f \<in> set fs)"

text \<open>Waiting for a job; its identifier taken from the queue; its row read; its asset read too; marked running, with
  the scanners still to run and the tally; ended by an error that is still to be reported.\<close>

datatype control =
    Idle
  | Taken string
  | Loaded string ScanJob
  | Ready string ScanJob Asset
  | Running string ScanJob Asset "Scanner list" progress
  | Broken string string

definition no_progress :: progress where
  "no_progress = \<lparr>usedMock = False, total = 0, scanErrs = []\<rparr>"

inductive life_step :: "engine_env \<Rightarrow> Processor \<Rightarrow> control \<times> engine_state \<Rightarrow> control \<times> engine_state \<Rightarrow> bool" for E p where
  take: "i \<noteq> [] \<Longrightarrow> life_step E p (Idle, s) (Taken i, s)"
| load: "on_db (GetScanJob (pr_store p) i) s = (Inr job, s') \<Longrightarrow> life_step E p (Taken i, s) (Loaded i job, s')"
| load_error: "on_db (GetScanJob (pr_store p) i) s = (Inl e, s') \<Longrightarrow>
    life_step E p (Taken i, s) (Broken i (''load job: '' @ store_text E e), s')"
| asset: "on_db (GetAsset (pr_store p) (j_AssetID job)) s = (Inr a, s') \<Longrightarrow> life_step E p (Loaded i job, s) (Ready i job a, s')"
| asset_error: "on_db (GetAsset (pr_store p) (j_AssetID job)) s = (Inl e, s') \<Longrightarrow>
    life_step E p (Loaded i job, s) (Broken i (''load asset: '' @ store_text E e), s')"
| start: "on_db (MarkRunning (pr_store p) (j_ID job)) s = (Inr u, s') \<Longrightarrow>
    life_step E p (Ready i job a, s) (Running i job a (ForProfile (j_Profile job) (pr_opts p)) no_progress, s')"
| start_error: "on_db (MarkRunning (pr_store p) (j_ID job)) s = (Inl e, s') \<Longrightarrow>
    life_step E p (Ready i job a, s) (Broken i (store_text E e), s')"
| scan: "Scan (e_scan E t) sc a = (Inr raw, cs) \<Longrightarrow>
    life_step E p (Running i job a (sc # scs) pg, s)
      (Running i job a scs (if raw_Mock raw then pg\<lparr>usedMock := True\<rparr> else pg), s\<lparr>st_contacts := st_contacts s @ cs\<rparr>)"
| scan_error: "Scan (e_scan E t) sc a = (Inl err, cs) \<Longrightarrow>
    life_step E p (Running i job a (sc # scs) pg, s)
      (Running i job a scs (pg\<lparr>scanErrs := scanErrs pg @ [Scanner_Type sc @ '': '' @ err]\<rparr>), s\<lparr>st_contacts := st_contacts s @ cs\<rparr>)"
| store: "reported E p job a (st_contacts s) f \<Longrightarrow> on_db (CreateFinding (pr_store p) f) s = (r, s') \<Longrightarrow>
    life_step E p (Running i job a scs pg, s)
      (Running i job a scs (pg\<lparr>total := total pg + (case r of Inl _ \<Rightarrow> 0 | Inr _ \<Rightarrow> 1)\<rparr>), s')"
| project: "pr_graph p = Some g \<Longrightarrow> graph_step g (st_graph s) h \<Longrightarrow>
    life_step E p (Running i job a scs pg, s) (Running i job a scs pg, s\<lparr>st_graph := h\<rparr>)"
| peers: "on_db (ListAssets (pr_store p)) s = (r, s') \<Longrightarrow> life_step E p (Running i job a scs pg, s) (Running i job a scs pg, s')"
| complete: "total pg \<noteq> 0 \<or> scanErrs pg = [] \<Longrightarrow> on_db (MarkCompleted (pr_store p) (j_ID job) (usedMock pg)) s = (Inr u, s') \<Longrightarrow>
    life_step E p (Running i job a [] pg, s) (Idle, s')"
| complete_error: "total pg \<noteq> 0 \<or> scanErrs pg = [] \<Longrightarrow> on_db (MarkCompleted (pr_store p) (j_ID job) (usedMock pg)) s = (Inl e, s') \<Longrightarrow>
    life_step E p (Running i job a [] pg, s) (Broken i (store_text E e), s')"
| fail: "total pg = 0 \<Longrightarrow> scanErrs pg \<noteq> [] \<Longrightarrow>
    on_db (MarkFailed (pr_store p) (j_ID job) (failure_text (scanErrs pg))) s = (Inr u, s') \<Longrightarrow>
    life_step E p (Running i job a [] pg, s) (Idle, s')"
| fail_error: "total pg = 0 \<Longrightarrow> scanErrs pg \<noteq> [] \<Longrightarrow>
    on_db (MarkFailed (pr_store p) (j_ID job) (failure_text (scanErrs pg))) s = (Inl e, s') \<Longrightarrow>
    life_step E p (Running i job a [] pg, s) (Broken i (store_text E e), s')"
| report: "life_step E p (Broken i msg, s) (Idle, snd (on_db (MarkFailed (pr_store p) i msg) s))"

abbreviation life_steps :: "engine_env \<Rightarrow> Processor \<Rightarrow> control \<times> engine_state \<Rightarrow> control \<times> engine_state \<Rightarrow> bool" where
  "life_steps E p \<equiv> rtranclp (life_step E p)"

lemma life_then: "life_step E p x y \<Longrightarrow> life_steps E p y z \<Longrightarrow> life_steps E p x z"
  by (rule converse_rtranclp_into_rtranclp)

lemma life_last: "life_steps E p x y \<Longrightarrow> life_step E p y z \<Longrightarrow> life_steps E p x z"
  by (rule rtranclp.rtrancl_into_rtrancl)

lemma on_db_state: "on_db f s = (fst (f (st_db s)), s\<lparr>st_db := snd (f (st_db s))\<rparr>)"
  by (simp add: on_db_def case_prod_unfold Let_def)

lemma on_graph_state: "on_graph f s = (fst (f (st_graph s)), s\<lparr>st_graph := snd (f (st_graph s))\<rparr>)"
  by (simp add: on_graph_def case_prod_unfold Let_def)

text \<open>A loop is a sequence of steps if its body is, as long as an invariant of the loop holds.\<close>

lemma fold_steps:
  assumes "I st" and "\<And>x st. x \<in> set xs \<Longrightarrow> I st \<Longrightarrow> rtranclp R (v st) (v (f x st)) \<and> I (f x st)"
  shows "rtranclp R (v st) (v (fold f xs st)) \<and> I (fold f xs st)"
  using assms
proof (induction xs arbitrary: st)
  case (Cons x xs)
  have "rtranclp R (v st) (v (f x st)) \<and> I (f x st)" using Cons.prems by simp
  with Cons.IH [of "f x st"] Cons.prems show ?case by (auto intro: rtranclp_trans)
qed simp

section \<open>Refinement\<close>

lemma on_graph_life:
  "pr_graph p = Some g \<Longrightarrow> graph_step g (st_graph s) (snd (f (st_graph s))) \<Longrightarrow>
   life_steps E p (Running i job a scs pg, s) (Running i job a scs pg, snd (on_graph f s))"
  by (simp add: on_graph_state life_step.project r_into_rtranclp)

lemma project_finding_life:
  assumes "pr_graph p = Some g"
  shows "life_steps E p (Running i job a scs pg, s) (Running i job a scs pg, project_finding g a' f s)"
proof -
  note st = on_graph_life [OF assms]
  let ?c = "Running i job a scs pg" and ?s1 = "snd (on_graph (SyncFinding g f) s)"
  let ?s2 = "if IsPrivEsc (f_CWE f)
     then snd (on_graph (AutoDeriveEscalation g (a_ID a') (f_CWE f) (f_Title f) (f_RiskScore f)) ?s1) else ?s1"
  have "life_steps E p (?c, s) (?c, ?s1)" by (rule st) (rule graph_step.sync_finding)
  moreover have "life_steps E p (?c, ?s1) (?c, ?s2)" by (auto intro!: st graph_step.derive_escalation)
  moreover have "life_steps E p (?c, ?s2) (?c, project_finding g a' f s)"
    unfolding project_finding_def Let_def by (auto intro!: st graph_step.derive_reuse)
  ultimately show ?thesis by (meson rtranclp_trans)
qed

lemma on_graph_contacts [simp]: "st_contacts (snd (on_graph f s)) = st_contacts s" "st_db (snd (on_graph f s)) = st_db s"
  by (simp_all add: on_graph_state)

lemma on_db_contacts [simp]: "st_contacts (snd (on_db f s)) = st_contacts s" "st_graph (snd (on_db f s)) = st_graph s"
  by (simp_all add: on_db_state)

lemma project_finding_frame [simp]:
  "st_contacts (project_finding g a f s) = st_contacts s" "st_db (project_finding g a f s) = st_db s"
  by (simp_all add: project_finding_def Let_def)

text \<open>The control while findings are stored: the tally moves with the loop's counter.\<close>

definition storing :: "string \<Rightarrow> ScanJob \<Rightarrow> Asset \<Rightarrow> Scanner list \<Rightarrow> progress \<Rightarrow> engine_state \<times> int \<Rightarrow> control \<times> engine_state" where
  "storing i job a scs pg st = (Running i job a scs (pg\<lparr>total := snd st\<rparr>), fst st)"

lemma record_finding_life:
  assumes "reported E p job a (st_contacts (fst st)) f"
  shows "life_steps E p (storing i job a scs pg st) (storing i job a scs pg (record_finding p a f st)) \<and>
    st_contacts (fst (record_finding p a f st)) = st_contacts (fst st)"
proof -
  obtain s n where st: "st = (s, n)" by (cases st)
  obtain r s' where c: "on_db (CreateFinding (pr_store p) f) s = (r, s')" by fastforce
  have s': "st_contacts s' = st_contacts s" using on_db_contacts(1) [of "CreateFinding (pr_store p) f" s] by (simp add: c)
  have 1: "life_step E p (storing i job a scs pg (s, n)) (storing i job a scs pg (s', n + (case r of Inl _ \<Rightarrow> 0 | Inr _ \<Rightarrow> 1)))"
    using life_step.store [OF _ c, of E job a i scs "pg\<lparr>total := n\<rparr>"] assms by (simp add: storing_def st)
  have 2: "life_steps E p (storing i job a scs pg (s', m))
      (storing i job a scs pg (case pr_graph p of None \<Rightarrow> s' | Some g \<Rightarrow> project_finding g a f' s', m))" for f' m
    by (cases "pr_graph p") (auto simp: storing_def intro: project_finding_life)
  show ?thesis
  proof (cases r)
    case (Inl e)
    then show ?thesis using 1 s' by (simp add: record_finding_def st c r_into_rtranclp)
  next
    case (Inr f')
    then show ?thesis using life_then [OF 1 2] s'
      by (auto simp: record_finding_def st c split: option.split)
  qed
qed

lemma record_all_life:
  assumes "\<And>f. f \<in> set fs \<Longrightarrow> reported E p job a (st_contacts s) f"
  shows "life_steps E p (storing i job a scs pg (s, n)) (storing i job a scs pg (fold (record_finding p a) fs (s, n)))"
  using fold_steps [of "\<lambda>st. st_contacts (fst st) = st_contacts s" "(s, n)" fs "life_step E p" "storing i job a scs pg"
      "record_finding p a"] record_finding_life [of E p job a _ _ i scs pg] assms by force

lemma run_scanner_life:
  assumes "sc \<in> set (ForProfile (j_Profile job) (pr_opts p))" and "run_scanner E p a (j_ID job) sc (s, pg) = (s', pg')"
  shows "life_steps E p (Running i job a (sc # scs) pg, s) (Running i job a scs pg', s')"
proof -
  obtain r cs where sc: "Scan (e_scan E (tick (st_db s))) sc a = (r, cs)" by fastforce
  let ?s = "s\<lparr>st_contacts := st_contacts s @ cs\<rparr>"
  show ?thesis
  proof (cases r)
    case (Inl e)
    then show ?thesis using life_step.scan_error [OF sc [unfolded Inl]] assms(2) by (auto simp: run_scanner_def sc)
  next
    case (Inr raw)
    let ?pg = "if raw_Mock raw then pg\<lparr>usedMock := True\<rparr> else pg"
    have 1: "life_step E p (Running i job a (sc # scs) pg, s) (Running i job a scs ?pg, ?s)"
      by (rule life_step.scan [OF sc [unfolded Inr]])
    show ?thesis
    proof (cases "Normalize (e_norm E) (e_feed E (tick (st_db s))) raw a (j_ID job)")
      case (Inl e)
      then show ?thesis using 1 assms(2) by (auto simp: run_scanner_def sc Inr split: if_splits)
    next
      case fs: (Inr fs)
      have "reported E p job a (st_contacts ?s) f" if "f \<in> set fs" for f
        unfolding reported_def using assms(1) sc Inr fs that
        by (intro exI [of _ "tick (st_db s)"] exI [of _ sc] exI [of _ raw] exI [of _ cs] exI [of _ fs]) auto
      note 2 = record_all_life [of fs E p job a ?s i scs ?pg "total pg", OF this]
      have "total ?pg = total pg" by simp
      then have "storing i job a scs ?pg (?s, total pg) = (Running i job a scs ?pg, ?s)" by (simp add: storing_def)
      with life_then [OF 1] 2
      have 3: "life_steps E p (Running i job a (sc # scs) pg, s) (storing i job a scs ?pg (fold (record_finding p a) fs (?s, total pg)))"
        by simp
      have "(Running i job a scs pg', s') = storing i job a scs ?pg (fold (record_finding p a) fs (?s, total pg))"
        using assms(2) by (auto simp: run_scanner_def sc Inr fs case_prod_unfold Let_def storing_def)
      then show ?thesis using 3 by simp
    qed
  qed
qed

lemma run_all_life:
  assumes "set scs \<subseteq> set (ForProfile (j_Profile job) (pr_opts p))" and "fold (run_scanner E p a (j_ID job)) scs (s, pg) = (s', pg')"
  shows "life_steps E p (Running i job a scs pg, s) (Running i job a [] pg', s')"
  using assms
proof (induction scs arbitrary: s pg)
  case (Cons sc scs)
  obtain s1 pg1 where 1: "run_scanner E p a (j_ID job) sc (s, pg) = (s1, pg1)" by fastforce
  then show ?case using rtranclp_trans [OF run_scanner_life [OF _ 1] Cons.IH [of s1 pg1]] Cons.prems by simp
qed simp

lemma link_peer_life:
  assumes "pr_graph p = Some g"
  shows "life_steps E p (Running i job a' scs pg, snd st) (Running i job a' scs pg, snd (link_peer g a net peer st))"
proof -
  have "life_steps E p (Running i job a' scs pg, s) (Running i job a' scs pg, snd (on_graph (UpsertReachability g k l n pr) s))" for s k l n pr
    by (intro on_graph_life [OF assms] graph_step.reachability)
  then show ?thesis
    unfolding link_peer_def Let_def by (simp add: case_prod_unfold) (meson rtranclp_trans)
qed

lemma deriveSubnet_life:
  assumes "pr_graph p = Some g"
  shows "life_steps E p (Running i job a' scs pg, s) (Running i job a' scs pg, snd (deriveSubnetReachability p g a s))"
proof -
  let ?c = "Running i job a' scs pg"
  obtain r s' where l: "on_db (ListAssets (pr_store p)) s = (r, s')" by fastforce
  have 1: "life_steps E p (?c, s) (?c, s')" by (rule r_into_rtranclp, rule life_step.peers [OF l])
  have 2: "life_steps E p (?c, s') (?c, snd (fold (link_peer g a net) xs (0, s')))" for net xs
    using fold_steps [of "\<lambda>_. True" "(0, s')" xs "life_step E p" "\<lambda>st. (?c, snd st)" "link_peer g a net"]
      link_peer_life [OF assms] by simp
  show ?thesis
    using 1 rtranclp_trans [OF 1 2] by (auto simp: deriveSubnetReachability_def l split: sum.split option.split)
qed

lemma scan_job_life:
  assumes "scan_job E p job a s = (s', pg)"
  shows "life_steps E p (Running i job a (ForProfile (j_Profile job) (pr_opts p)) no_progress, s) (Running i job a [] pg, s')"
proof -
  let ?scs = "ForProfile (j_Profile job) (pr_opts p)"
  define s1 where "s1 = (case pr_graph p of None \<Rightarrow> s | Some g \<Rightarrow> snd (on_graph (SyncAsset g a) s))"
  obtain s2 pg2 where f: "fold (run_scanner E p a (j_ID job)) ?scs (s1, no_progress) = (s2, pg2)" by fastforce
  have "life_steps E p (Running i job a ?scs no_progress, s) (Running i job a ?scs no_progress, s1)"
    unfolding s1_def by (auto split: option.split intro!: on_graph_life graph_step.sync_asset)
  moreover have "life_steps E p (Running i job a ?scs no_progress, s1) (Running i job a [] pg2, s2)"
    by (rule run_all_life [OF order_refl f])
  moreover have "pg = pg2" "life_steps E p (Running i job a [] pg2, s2) (Running i job a [] pg2, s')"
    using assms f unfolding scan_job_def Let_def s1_def [symmetric] no_progress_def [symmetric]
    by (auto split: option.splits if_splits intro: deriveSubnet_life)
  ultimately show ?thesis by (meson rtranclp_trans)
qed

text \<open>Where \<open>Process\<close> leaves the worker.\<close>

definition after_process :: "string \<Rightarrow> string option \<times> engine_state \<Rightarrow> control \<times> engine_state" where
  "after_process i res = (case fst res of None \<Rightarrow> Idle | Some e \<Rightarrow> Broken i e, snd res)"

lemma finish_job_life:
  assumes "finish_job p job pg s = (r, s')"
  shows "life_step E p (Running i job a [] pg, s) (case r of Inl e \<Rightarrow> Broken i (store_text E e) | Inr _ \<Rightarrow> Idle, s')"
  using assms unfolding finish_job_def
  by (auto split: sum.split if_splits intro: life_step.complete life_step.complete_error life_step.fail life_step.fail_error)

lemma Process_life: "life_steps E p (Taken i, s) (after_process i (Process E p i s))"
proof -
  obtain r1 s1 where 1: "on_db (GetScanJob (pr_store p) i) s = (r1, s1)" by fastforce
  show ?thesis
  proof (cases r1)
    case (Inl e)
    then show ?thesis using life_step.load_error [OF 1 [unfolded Inl]] by (simp add: Process_def 1 after_process_def r_into_rtranclp)
  next
    case job: (Inr job)
    note l1 = life_step.load [OF 1 [unfolded job], of E]
    obtain r2 s2 where 2: "on_db (GetAsset (pr_store p) (j_AssetID job)) s1 = (r2, s2)" by fastforce
    show ?thesis
    proof (cases r2)
      case (Inl e)
      then show ?thesis using life_last [OF r_into_rtranclp [of "life_step E p", OF l1] life_step.asset_error [OF 2 [unfolded Inl]]]
        by (simp add: Process_def 1 2 job after_process_def)
    next
      case a: (Inr a)
      note l2 = life_last [OF r_into_rtranclp [of "life_step E p", OF l1] life_step.asset [OF 2 [unfolded a]]]
      obtain r3 s3 where 3: "on_db (MarkRunning (pr_store p) (j_ID job)) s2 = (r3, s3)" by fastforce
      show ?thesis
      proof (cases r3)
        case (Inl e)
        then show ?thesis using life_last [OF l2 life_step.start_error [OF 3 [unfolded Inl]]]
          by (simp add: Process_def 1 2 3 job a after_process_def)
      next
        case (Inr u)
        note l3 = life_last [OF l2 life_step.start [OF 3 [unfolded Inr]]]
        obtain s4 pg where 4: "scan_job E p job a s3 = (s4, pg)" by fastforce
        obtain r5 s5 where 5: "finish_job p job pg s4 = (r5, s5)" by fastforce
        have "after_process i (Process E p i s) = (case r5 of Inl e \<Rightarrow> Broken i (store_text E e) | Inr _ \<Rightarrow> Idle, s5)"
          by (simp add: Process_def 1 2 3 4 5 job a Inr after_process_def split: sum.split)
        then show ?thesis using life_last [OF rtranclp_trans [OF l3 scan_job_life [OF 4]] finish_job_life [OF 5]] by simp
      qed
    qed
  qed
qed

lemma worker_step_life: "life_steps E p (Idle, snd st) (Idle, snd (worker_step E p q st))"
proof -
  obtain r s where st: "st = (r, s)" by (cases st)
  obtain d r' where d: "Dequeue q r = (d, r')" by fastforce
  show ?thesis
  proof (cases "\<exists>i. d = Inr i \<and> i \<noteq> []")
    case True
    then obtain i where i: "d = Inr i" "i \<noteq> []" by blast
    obtain e s' where P: "Process E p i s = (e, s')" by fastforce
    have 1: "life_steps E p (Idle, s) (after_process i (e, s'))"
      using life_then [OF life_step.take [OF i(2)] Process_life [of E p i s]] by (simp only: P)
    show ?thesis
    proof (cases e)
      case None
      then show ?thesis using 1 by (simp add: st worker_step_def d i P after_process_def)
    next
      case (Some m)
      then show ?thesis using life_last [OF 1, of "(Idle, snd (on_db (MarkFailed (pr_store p) i m) s'))"]
        by (simp add: st worker_step_def d i P after_process_def life_step.report)
    qed
  next
    case False
    then show ?thesis by (auto simp: st worker_step_def d split: sum.split)
  qed
qed

lemma worker_loop_life: "life_steps E p (Idle, snd st) (Idle, snd (worker_loop E p q n st))"
proof (induction n arbitrary: st)
  case (Suc n)
  show ?case using rtranclp_trans [OF worker_step_life [of E p st q] Suc.IH [of "worker_step E p q st"]] by simp
qed simp

text \<open>C8: Whatever fails and whenever, a run of the worker is a run of the life cycle: a job taken from the queue is loaded
  with its asset, marked running, scanned once by each scanner of its profile in order, and only then marked completed,
  if a finding was stored or no scanner failed, or else failed; any error of the way ends it in a failure report,
  and every job is left before the next is taken.  Findings are stored only while their job runs, and only
  those that a scanner of its profile reported for it.\<close>

theorem worker_refines: "rtranclp (life_step E p) (Idle, s) (Idle, snd (worker_loop E p q n (r, s)))"
  using worker_loop_life [of E p "(r, s)" q n] by simp

section \<open>The steps without the control\<close>

text \<open>What one step of a life cycle may do to the databases, whatever the control: the invariants of the data are
  inductions over these.\<close>

definition from_scan :: "engine_env \<Rightarrow> Processor \<Rightarrow> contact list \<Rightarrow> Finding \<Rightarrow> bool" where
  "from_scan E p seen f \<longleftrightarrow>
     (\<exists>t t' sc profile a raw cs jobID fs. sc \<in> set (ForProfile profile (pr_opts p)) \<and>
        Scan (e_scan E t) sc a = (Inr raw, cs) \<and> set cs \<subseteq> set seen \<and>
        Normalize (e_norm E) (e_feed E t') raw a jobID = Inr fs \<and> f \<in> set fs)"

lemma reported_from_scan: "reported E p job a C f \<Longrightarrow> from_scan E p C f"
  unfolding reported_def from_scan_def by blast

inductive job_step :: "engine_env \<Rightarrow> Processor \<Rightarrow> engine_state \<Rightarrow> engine_state \<Rightarrow> bool" for E p where
  query: "job_step E p s (s\<lparr>st_db := (st_db s)\<lparr>tick := n\<rparr>\<rparr>)"
| contact: "job_step E p s (s\<lparr>st_contacts := st_contacts s @ cs\<rparr>)"
| running: "job_step E p s (snd (on_db (MarkRunning (pr_store p) i) s))"
| completed: "\<not> (mock \<and> Production (pr_opts p)) \<Longrightarrow> job_step E p s (snd (on_db (MarkCompleted (pr_store p) i mock) s))"
| failed: "job_step E p s (snd (on_db (MarkFailed (pr_store p) i msg) s))"
| store: "from_scan E p (st_contacts s) f \<Longrightarrow> job_step E p s (snd (on_db (CreateFinding (pr_store p) f) s))"
| project: "pr_graph p = Some g \<Longrightarrow> graph_step g (st_graph s) h \<Longrightarrow> job_step E p s (s\<lparr>st_graph := h\<rparr>)"

abbreviation job_steps :: "engine_env \<Rightarrow> Processor \<Rightarrow> engine_state \<Rightarrow> engine_state \<Rightarrow> bool" where
  "job_steps E p \<equiv> rtranclp (job_step E p)"

lemma scan_genuine:
  assumes "sc \<in> set (ForProfile profile opts)" and "Scan env sc a = (Inr r, cs)" and "Production opts"
  shows "\<not> raw_Mock r"
  using ForProfile_cases [OF assms(1)] assms(2,3) nmap.genuine nuclei.genuine crypto.genuine secrets.genuine by auto

text \<open>Mock data only outside production, and only from there does the flag come.\<close>

definition flag_ok :: "Processor \<Rightarrow> control \<Rightarrow> bool" where
  "flag_ok p c \<longleftrightarrow> (case c of
     Running i job a scs pg \<Rightarrow> \<not> (usedMock pg \<and> Production (pr_opts p)) \<and> set scs \<subseteq> set (ForProfile (j_Profile job) (pr_opts p))
   | _ \<Rightarrow> True)"

lemma snd_on_db: "on_db f s = (r, s') \<Longrightarrow> s' = snd (on_db f s)"
  by simp

lemma life_step_job:
  assumes "life_step E p x y" and "flag_ok p (fst x)"
  shows "job_steps E p (snd x) (snd y) \<and> flag_ok p (fst y)"
proof -
  have db: "job_steps E p u u'" if "on_db f u = (r, u')" "job_step E p u (snd (on_db f u))" for f :: "db \<Rightarrow> 'x \<times> db" and r u u'
    using that by (simp add: r_into_rtranclp)
  have reads: "job_step E p u (snd (on_db (GetScanJob D i) u))" "job_step E p u (snd (on_db (GetAsset D i) u))"
    "job_step E p u (snd (on_db (ListAssets D) u))" for D i u
    using job_step.query [of E p u] by (simp_all add: on_db_state read_inv)
  show ?thesis
    using assms
  proof (cases rule: life_step.cases)
    case (load i s job s')
    then show ?thesis using db [OF load(3) reads(1)] by (simp add: flag_ok_def)
  next
    case (load_error i s e s')
    then show ?thesis using db [OF load_error(3) reads(1)] by (simp add: flag_ok_def)
  next
    case (asset job s a s' i)
    then show ?thesis using db [OF asset(3) reads(2)] by (simp add: flag_ok_def)
  next
    case (asset_error job s e s' i)
    then show ?thesis using db [OF asset_error(3) reads(2)] by (simp add: flag_ok_def)
  next
    case (start job s u s' i a)
    then show ?thesis using db [OF start(3) job_step.running] by (simp add: flag_ok_def no_progress_def)
  next
    case (start_error job s e s' i a)
    then show ?thesis using db [OF start_error(3) job_step.running] by (simp add: flag_ok_def)
  next
    case (scan t sc a raw cs i job scs pg s)
    then show ?thesis using assms(2) scan_genuine [of sc "j_Profile job" "pr_opts p"] by (auto simp: flag_ok_def intro: job_step.contact)
  next
    case (scan_error t sc a err cs i job scs pg s)
    then show ?thesis using assms(2) by (auto simp: flag_ok_def intro: job_step.contact)
  next
    case (store job a s f r s' i scs pg)
    then show ?thesis using assms(2) db [OF store(4) job_step.store [OF reported_from_scan]] by (auto simp: flag_ok_def)
  next
    case (project g s h i job a scs pg)
    then show ?thesis using assms(2) job_step.project [OF project(3,4), of E] by auto
  next
    case (peers s r s' i job a scs pg)
    then show ?thesis using assms(2) db [OF peers(3) reads(3)] by simp
  next
    case (complete pg job s u s' i a)
    then show ?thesis using assms(2) db [OF complete(4) job_step.completed] by (simp add: flag_ok_def)
  next
    case (complete_error pg job s e s' i a)
    then show ?thesis using assms(2) db [OF complete_error(4) job_step.completed] by (simp add: flag_ok_def)
  next
    case (fail pg job s u s' i a)
    then show ?thesis using db [OF fail(5) job_step.failed] by (simp add: flag_ok_def)
  next
    case (fail_error pg job s e s' i a)
    then show ?thesis using db [OF fail_error(5) job_step.failed] by (simp add: flag_ok_def)
  next
    case (report i msg s)
    then show ?thesis using job_step.failed [of E p s i msg] by (simp add: flag_ok_def r_into_rtranclp)
  qed (simp add: flag_ok_def)
qed

lemma life_steps_job:
  assumes "life_steps E p x y" and "flag_ok p (fst x)"
  shows "job_steps E p (snd x) (snd y)"
proof -
  have "job_steps E p (snd x) (snd y) \<and> flag_ok p (fst y)"
    using assms
  proof (induction rule: rtranclp_induct)
    case (step y z)
    then show ?case using life_step_job [OF step.hyps(2)] by (auto intro: rtranclp_trans)
  qed simp
  then show ?thesis ..
qed

lemma worker_step_steps: "job_steps E p (snd st) (snd (worker_step E p q st))"
  using life_steps_job [OF worker_step_life [of E p st q]] by (simp add: flag_ok_def)

lemma worker_loop_steps: "job_steps E p (snd st) (snd (worker_loop E p q n st))"
  using life_steps_job [OF worker_loop_life [of E p st q n]] by (simp add: flag_ok_def)

lemma job_step_db: "job_step E p s s' \<Longrightarrow> db_inv (pr_store p) (st_db s) \<Longrightarrow> db_inv (pr_store p) (st_db s')"
  by (cases rule: job_step.cases, assumption) (auto simp: on_db_state intro: inv_intros)

lemma job_step_graph: "job_step E p s s' \<Longrightarrow> graph_ok (st_graph s) \<Longrightarrow> graph_ok (st_graph s')"
  by (cases rule: job_step.cases, assumption) (auto simp: on_db_state intro: graph_step_ok)

lemma job_steps_keep:
  assumes "job_steps E p s s'" and "I s" and "\<And>u u'. job_step E p u u' \<Longrightarrow> I u \<Longrightarrow> I u'"
  shows "I s'"
  using assms(1,2) by (induction rule: rtranclp_induct) (auto intro: assms(3))

text \<open>The worker keeps the integrity of both databases, of the relational one and of the graph, over any number
  of turns, for any jobs in the queue and any failures of the databases, the queue and the scanners.\<close>

theorem worker_keeps_integrity:
  assumes "db_inv (pr_store p) (st_db s)" and "graph_ok (st_graph s)"
  shows "let s' = snd (worker_loop E p q n (r, s)) in db_inv (pr_store p) (st_db s') \<and> graph_ok (st_graph s')"
  using job_steps_keep [OF worker_loop_steps [of E p "(r, s)" q n],
      of "\<lambda>s. db_inv (pr_store p) (st_db s) \<and> graph_ok (st_graph s)"] assms job_step_db job_step_graph
  by (auto simp: Let_def)

section \<open>What a production worker stores\<close>

definition stored_as :: "Finding \<Rightarrow> Finding \<Rightarrow> bool" where
  "stored_as f row \<longleftrightarrow>
     row = (finding_row f)\<lparr>f_ID := f_ID row, f_ScanJobID := f_ScanJobID row, f_AssetID := f_AssetID row,
                           f_CreatedAt := f_CreatedAt row, f_Status := f_Status row\<rparr>"

lemma stored_as_row:
  "stored_as f ((finding_row (f\<lparr>f_ID := i, f_CreatedAt := t, f_Status := st\<rparr>))
     \<lparr>f_ID := k, f_ScanJobID := j, f_AssetID := a, f_CreatedAt := u\<rparr>)"
  by (simp add: stored_as_def finding_row_def)

lemma CreateFinding_rows:
  "findings (snd (CreateFinding E f d)) = findings d \<or>
   (\<exists>row. findings (snd (CreateFinding E f d)) = findings d @ [row] \<and> stored_as f row)"
proof -
  define g where "g = f\<lparr>f_ID := (if f_ID f = [] then uuid_at E (tick d) else f_ID f), f_CreatedAt := now_at E (tick d),
    f_Status := (if f_Status f = [] then FindingOpen else f_Status f)\<rparr>"
  have "stored_as f ((finding_row g)\<lparr>f_ID := i, f_ScanJobID := j, f_AssetID := a, f_CreatedAt := u\<rparr>)" for i j a u
    unfolding g_def by (rule stored_as_row)
  then show ?thesis
    unfolding CreateFinding_def call_def Let_def g_def [symmetric] by (simp split: option.split)
qed

lemma CreateFinding_jobs: "scan_jobs (snd (CreateFinding E f d)) = scan_jobs d"
  by (auto simp: CreateFinding_def call_def Let_def split: option.split)

lemma update_job_frame:
  "findings (snd (update_job E i f d)) = findings d" "assets (snd (update_job E i f d)) = assets d"
  by (auto simp: update_job_def call_def Let_def split: option.split)

lemma mark_findings [simp]:
  "findings (snd (MarkRunning E i d)) = findings d" "findings (snd (MarkCompleted E i b d)) = findings d"
  "findings (snd (MarkFailed E i m d)) = findings d"
  by (simp_all add: MarkRunning_def MarkCompleted_def MarkFailed_def update_job_frame)

lemma update_job_rows:
  "j \<in> set (scan_jobs (snd (update_job E i f d))) \<Longrightarrow> j \<in> set (scan_jobs d) \<or> (\<exists>t. \<exists>j'\<in>set (scan_jobs d). j = f t j')"
  by (auto simp: update_job_def call_def Let_def dest: update_id_set split: option.splits if_splits)

lemma from_scan_mono: "from_scan E p C f \<Longrightarrow> set C \<subseteq> set C' \<Longrightarrow> from_scan E p C' f"
  unfolding from_scan_def by (elim exE conjE, intro exI conjI) (assumption | erule (1) order_trans)+

definition scanned :: "engine_env \<Rightarrow> Processor \<Rightarrow> engine_state \<Rightarrow> Finding \<Rightarrow> bool" where
  "scanned E p s row \<longleftrightarrow> (\<exists>f. from_scan E p (st_contacts s) f \<and> stored_as f row)"

lemma scanned_mono: "scanned E p s row \<Longrightarrow> set (st_contacts s) \<subseteq> set (st_contacts s') \<Longrightarrow> scanned E p s' row"
  unfolding scanned_def by (meson from_scan_mono)

definition mock_free :: "db \<Rightarrow> bool" where
  "mock_free d \<longleftrightarrow> (\<forall>j \<in> set (scan_jobs d). \<not> j_UsedMock j)"

lemma job_step_findings:
  assumes "job_step E p s s'"
  shows "set (st_contacts s) \<subseteq> set (st_contacts s') \<and>
    (\<forall>row \<in> set (findings (st_db s')). row \<in> set (findings (st_db s)) \<or> scanned E p s' row)"
  using assms
proof cases
  case (store f)
  then show ?thesis using CreateFinding_rows [of "pr_store p" f "st_db s"] by (auto simp: on_db_state scanned_def)
qed (auto simp: on_db_state)

lemma job_step_mock_free:
  assumes "job_step E p s s'" and "Production (pr_opts p)" and "mock_free (st_db s)"
  shows "mock_free (st_db s')"
  using assms
proof cases
  case (completed mock i)
  then show ?thesis using assms
    by (auto simp: on_db_state mock_free_def MarkCompleted_def dest!: update_job_rows)
next
  case (failed i msg)
  then show ?thesis using assms(3)
    by (auto simp: on_db_state mock_free_def MarkFailed_def dest!: update_job_rows split: if_splits)
qed (auto simp: on_db_state mock_free_def MarkRunning_def CreateFinding_jobs dest!: update_job_rows)

text \<open>Whatever the worker adds comes from a scan on record.\<close>

lemma worker_findings_scanned:
  assumes "row \<in> set (findings (st_db (snd (worker_loop E p q n (r, s)))))" and "row \<notin> set (findings (st_db s))"
  shows "scanned E p (snd (worker_loop E p q n (r, s))) row"
proof -
  have "\<forall>row \<in> set (findings (st_db (snd (worker_loop E p q n (r, s))))).
      row \<in> set (findings (st_db s)) \<or> scanned E p (snd (worker_loop E p q n (r, s))) row"
  proof (rule job_steps_keep [OF worker_loop_steps [of E p "(r, s)" q n, simplified]])
    show "\<forall>row \<in> set (findings (st_db u')). row \<in> set (findings (st_db s)) \<or> scanned E p u' row"
      if "job_step E p u u'" "\<forall>row \<in> set (findings (st_db u)). row \<in> set (findings (st_db s)) \<or> scanned E p u row" for u u'
      using that(2) job_step_findings [OF that(1)] scanned_mono [of E p u _ u'] by blast
  qed simp
  with assms show ?thesis by blast
qed

lemma worker_mock_free:
  assumes "Production (pr_opts p)" and "mock_free (st_db s)"
  shows "mock_free (st_db (snd (worker_loop E p q n (r, s))))"
  by (rule job_steps_keep [OF worker_loop_steps [of E p "(r, s)" q n, simplified]])
    (use assms job_step_mock_free in blast)+

text \<open>C7: In production, whatever fails, a finding that the worker adds comes from a scan by one of the four adapters
  that ended without error, whose output is not mock data and whose contacts, programs run and hosts
  dialled, are on record; and no job is ever marked as having used mock data.\<close>

theorem production_results_genuine:
  assumes "Production (pr_opts p)" and "mock_free (st_db s)"
  shows "let s' = snd (worker_loop E p q n (r, s)) in mock_free (st_db s') \<and>
    (\<forall>row \<in> set (findings (st_db s')) - set (findings (st_db s)).
       \<exists>t t' sc profile a raw cs jobID fs. \<exists>f \<in> set fs.
         sc \<in> set (ForProfile profile (pr_opts p)) \<and> Scan (e_scan E t) sc a = (Inr raw, cs) \<and> \<not> raw_Mock raw \<and>
         set cs \<subseteq> set (st_contacts s') \<and> Normalize (e_norm E) (e_feed E t') raw a jobID = Inr fs \<and> stored_as f row)"
proof -
  let ?s' = "snd (worker_loop E p q n (r, s))"
  have "\<exists>t t' sc profile a raw cs jobID fs. \<exists>f \<in> set fs.
         sc \<in> set (ForProfile profile (pr_opts p)) \<and> Scan (e_scan E t) sc a = (Inr raw, cs) \<and> \<not> raw_Mock raw \<and>
         set cs \<subseteq> set (st_contacts ?s') \<and> Normalize (e_norm E) (e_feed E t') raw a jobID = Inr fs \<and> stored_as f row"
    if "scanned E p ?s' row" for row
    using that scan_genuine [OF _ _ assms(1)] unfolding scanned_def from_scan_def by metis
  with worker_mock_free [OF assms, of E q n r] worker_findings_scanned [of _ E p q n r s] show ?thesis by (auto simp: Let_def)
qed

section \<open>A worker to evaluate with\<close>

text \<open>A database that never fails with one asset and one queued job, no tools installed, in production.\<close>

definition work_env :: env where
  "work_env = demo_env\<lparr>fault_at := (\<lambda>_. False)\<rparr>"

definition work_job :: ScanJob where
  "work_job = \<lparr>j_ID = ''j'', j_AssetID = ''0'', j_Profile = ProfileQuick, j_Scanners = [], j_Status = StatusQueued, j_Error = [],
     j_UsedMock = False, j_CreatedAt = 0, j_StartedAt = None, j_FinishedAt = None\<rparr>"

definition work_asset :: Asset where
  "work_asset = demo_asset\<lparr>a_ID := ''0''\<rparr>"

definition work_state :: engine_state where
  "work_state = \<lparr>st_db = db_empty\<lparr>assets := [work_asset], scan_jobs := [work_job], tick := 2\<rparr>, st_graph = graph_empty, st_contacts = []\<rparr>"

definition work_engine :: engine_env where
  "work_engine = \<lparr>e_scan = (\<lambda>_. sample_scan_env\<lparr>look_path := (\<lambda>_. None)\<rparr>), e_norm = sample_norm_env, e_feed = (\<lambda>_. global_feed),
     store_text = (\<lambda>_. ''database error'')\<rparr>"

definition work_processor :: Processor where
  "work_processor = \<lparr>pr_store = work_env, pr_graph = Some (sample_graph_env [3]), pr_opts = sample_opts, pr_cfg = Load_config (\<lambda>_. [])\<rparr>"

definition work_queue :: Queue where
  "work_queue = \<lparr>q_key = ''k'', redis_fault = (\<lambda>_. False), redis_lost = (\<lambda>_. 0)\<rparr>"

definition work_redis :: redis where
  "work_redis = \<lparr>lists = (\<lambda>_. [''j'']), redis_tick = 0\<rparr>"

lemma work_state_inv: "db_inv (pr_store work_processor) (st_db work_state) \<and> graph_ok (st_graph work_state)"
  by (simp add: work_processor_def work_state_def work_env_def work_job_def work_asset_def demo_env_def demo_asset_def db_empty_def
      db_inv_def at.keys_distinct_def jt.keys_distinct_def ft.keys_distinct_def refs_ok_def at.has_key_def checks_ok_def
      asset_check_def job_check_def log_ordered_def graph_ok_def graph_empty_def ends_in_def)

lemma work_mock_free: "Production (pr_opts work_processor)" "mock_free (st_db work_state)"
  by (simp_all add: work_processor_def sample_opts_def mock_free_def work_state_def work_job_def)

theorem worker_keeps_integrity_witness:
  "let s' = snd (worker_loop work_engine work_processor work_queue 3 (work_redis, work_state))
   in db_inv (pr_store work_processor) (st_db s') \<and> graph_ok (st_graph s')"
  by (rule worker_keeps_integrity) (use work_state_inv in blast)+

theorem production_results_genuine_witness:
  "mock_free (st_db (snd (worker_loop work_engine work_processor work_queue 3 (work_redis, work_state))))"
  using production_results_genuine [OF work_mock_free, of work_engine work_queue 3 work_redis] by (simp add: Let_def)

end
