(* ===== verification/Engine_Outcome.thy ===== *)
theory Engine_Outcome
  imports Engine_Spec
begin

text \<open>
  How a job ends: what \<open>Process\<close> of \<open>internal/engine/processor.go\<close> leaves in the job's row, and that the
  worker brings every waiting job to an end.
\<close>

section \<open>What a scan leaves alone\<close>

text \<open>The measure that the count of stored findings keeps.\<close>

definition uncounted :: "engine_state \<Rightarrow> int \<Rightarrow> int" where
  "uncounted s n = int (length (findings (st_db s))) - n"

definition same_rows :: "engine_state \<Rightarrow> engine_state \<Rightarrow> bool" where
  "same_rows s s' \<longleftrightarrow> scan_jobs (st_db s') = scan_jobs (st_db s) \<and> assets (st_db s') = assets (st_db s)"

lemma same_rows_refl [simp]: "same_rows s s"
  by (simp add: same_rows_def)

lemma same_rows_trans: "same_rows s t \<Longrightarrow> same_rows t u \<Longrightarrow> same_rows s u"
  by (simp add: same_rows_def)

lemma same_rows_simps [simp]:
  "same_rows s (t\<lparr>st_contacts := cs\<rparr>) = same_rows s t" "same_rows s (snd (on_graph f t)) = same_rows s t"
  "same_rows s (project_finding g a fi t) = same_rows s t"
  by (simp_all add: same_rows_def)

lemma CreateFinding_frame:
  "scan_jobs (snd (CreateFinding E f d)) = scan_jobs d" "assets (snd (CreateFinding E f d)) = assets d"
  by (auto simp: CreateFinding_def call_def Let_def split: option.split)

text \<open>The count is exact when no call fails: a failing one may have stored its row all the same.\<close>

definition sound :: "env \<Rightarrow> bool" where
  "sound D \<longleftrightarrow> (\<forall>t. \<not> fault_at D t)"

lemma CreateFinding_count:
  "sound D \<Longrightarrow> length (findings (snd (CreateFinding D f d))) =
     length (findings d) + (case fst (CreateFinding D f d) of Inl _ \<Rightarrow> 0 | Inr _ \<Rightarrow> 1)"
  by (auto simp: sound_def CreateFinding_def call_def Let_def split: option.split)

lemma record_finding_frame:
  assumes "record_finding p a f (s, n) = (s', n')"
  shows "same_rows s s' \<and> (sound (pr_store p) \<longrightarrow> uncounted s' n' = uncounted s n)"
  using assms CreateFinding_frame [of "pr_store p" f "st_db s"] CreateFinding_count [of "pr_store p" f "st_db s"]
  by (auto simp: record_finding_def on_db_state same_rows_def uncounted_def split: prod.splits sum.splits option.splits)

lemma record_all_frame:
  assumes "fold (record_finding p a) fs (s, n) = (s', n')"
  shows "same_rows s s' \<and> (sound (pr_store p) \<longrightarrow> uncounted s' n' = uncounted s n)"
  using assms
proof (induction fs arbitrary: s n)
  case (Cons f fs)
  obtain s1 n1 where 1: "record_finding p a f (s, n) = (s1, n1)" by fastforce
  then show ?case using Cons.IH [of s1 n1] Cons.prems record_finding_frame [OF 1] same_rows_trans by auto
qed simp

lemma run_scanner_frame:
  assumes "run_scanner E p a jobID sc (s, pg) = (s', pg')"
  shows "same_rows s s' \<and> (sound (pr_store p) \<longrightarrow> uncounted s' (total pg') = uncounted s (total pg)) \<and>
    (case fst (Scan (e_scan E (tick (st_db s))) sc a) of
       Inl err \<Rightarrow> scanErrs pg' = scanErrs pg @ [Scanner_Type sc @ '': '' @ err] \<and> total pg' = total pg
     | Inr raw \<Rightarrow> scanErrs pg' = scanErrs pg)"
proof -
  obtain r cs where sc: "Scan (e_scan E (tick (st_db s))) sc a = (r, cs)" by fastforce
  have u: "uncounted (t\<lparr>st_contacts := c\<rparr>) k = uncounted t k" for t c k by (simp add: uncounted_def)
  show ?thesis
  proof (cases r)
    case (Inl err)
    then show ?thesis using assms by (auto simp: run_scanner_def sc u)
  next
    case (Inr raw)
    let ?s = "s\<lparr>st_contacts := st_contacts s @ cs\<rparr>"
    show ?thesis
    proof (cases "Normalize (e_norm E) (e_feed E (tick (st_db s))) raw a jobID")
      case (Inl err)
      then show ?thesis using assms \<open>r = Inr raw\<close> by (auto simp: run_scanner_def sc u)
    next
      case fs: (Inr fs)
      obtain s1 n1 where 1: "fold (record_finding p a) fs (?s, total pg) = (s1, n1)" by fastforce
      note f = record_all_frame [OF this]
      have "s' = s1" "total pg' = n1" "scanErrs pg' = scanErrs pg"
        using assms \<open>r = Inr raw\<close> fs 1 by (auto simp: run_scanner_def sc split: if_splits)
      then show ?thesis using f by (simp add: sc \<open>r = Inr raw\<close> u same_rows_def)
    qed
  qed
qed

text \<open>The errors of a run over the scanners: none if no adapter fails, one each if all do.\<close>

definition adapter_fails :: "engine_env \<Rightarrow> Asset \<Rightarrow> Scanner \<Rightarrow> bool" where
  "adapter_fails E a sc \<longleftrightarrow> (\<forall>t. \<exists>err cs. Scan (e_scan E t) sc a = (Inl err, cs))"

definition adapter_works :: "engine_env \<Rightarrow> Asset \<Rightarrow> Scanner \<Rightarrow> bool" where
  "adapter_works E a sc \<longleftrightarrow> (\<forall>t. \<exists>raw cs. Scan (e_scan E t) sc a = (Inr raw, cs))"

text \<open>One message per scanner, under its name.\<close>

definition errors_of :: "Scanner list \<Rightarrow> string list \<Rightarrow> bool" where
  "errors_of scs es \<longleftrightarrow> list_all2 (\<lambda>sc e. \<exists>m. e = Scanner_Type sc @ '': '' @ m) scs es"

lemma run_all_frame:
  assumes "fold (run_scanner E p a jobID) scs (s, pg) = (s', pg')"
  shows "same_rows s s' \<and> (sound (pr_store p) \<longrightarrow> uncounted s' (total pg') = uncounted s (total pg)) \<and>
    ((\<forall>sc\<in>set scs. adapter_works E a sc) \<longrightarrow> scanErrs pg' = scanErrs pg) \<and>
    ((\<forall>sc\<in>set scs. adapter_fails E a sc) \<longrightarrow> total pg' = total pg \<and> (\<exists>es. errors_of scs es \<and> scanErrs pg' = scanErrs pg @ es))"
  using assms
proof (induction scs arbitrary: s pg)
  case (Cons sc scs)
  obtain s1 pg1 where 1: "run_scanner E p a jobID sc (s, pg) = (s1, pg1)" by fastforce
  note f = run_scanner_frame [OF 1]
  have w: "scanErrs pg1 = scanErrs pg" if works: "adapter_works E a sc"
  proof -
    from works obtain raw cs where "Scan (e_scan E (tick (st_db s))) sc a = (Inr raw, cs)"
      unfolding adapter_works_def by blast
    then show ?thesis using f by simp
  qed
  have e: "total pg1 = total pg \<and> (\<exists>m. scanErrs pg1 = scanErrs pg @ [Scanner_Type sc @ '': '' @ m])" if fails: "adapter_fails E a sc"
  proof -
    from fails obtain err cs where "Scan (e_scan E (tick (st_db s))) sc a = (Inl err, cs)"
      unfolding adapter_fails_def by blast
    then show ?thesis using f by simp
  qed
  have ih: "same_rows s1 s' \<and> (sound (pr_store p) \<longrightarrow> uncounted s' (total pg') = uncounted s1 (total pg1)) \<and>
    ((\<forall>sc\<in>set scs. adapter_works E a sc) \<longrightarrow> scanErrs pg' = scanErrs pg1) \<and>
    ((\<forall>sc\<in>set scs. adapter_fails E a sc) \<longrightarrow> total pg' = total pg1 \<and> (\<exists>es. errors_of scs es \<and> scanErrs pg' = scanErrs pg1 @ es))"
    using Cons.IH [of s1 pg1] Cons.prems 1 by simp
  have "same_rows s s'" using f ih same_rows_trans by blast
  moreover have "sound (pr_store p) \<longrightarrow> uncounted s1 (total pg1) = uncounted s (total pg)" using f by blast
  moreover have "total pg' = total pg \<and> (\<exists>es. errors_of (sc # scs) es \<and> scanErrs pg' = scanErrs pg @ es)"
    if "\<forall>sc\<in>set (sc # scs). adapter_fails E a sc"
  proof -
    have all: "adapter_fails E a sc" "\<forall>sc\<in>set scs. adapter_fails E a sc" using that by simp_all
    from e [OF all(1)] obtain m where m: "total pg1 = total pg" "scanErrs pg1 = scanErrs pg @ [Scanner_Type sc @ '': '' @ m]" by blast
    from ih all(2) obtain es where es: "total pg' = total pg1" "errors_of scs es" "scanErrs pg' = scanErrs pg1 @ es" by blast
    have "errors_of (sc # scs) ((Scanner_Type sc @ '': '' @ m) # es)" using es(2) unfolding errors_of_def by simp
    moreover have "scanErrs pg' = scanErrs pg @ ((Scanner_Type sc @ '': '' @ m) # es)" using m(2) es(3) by simp
    ultimately show ?thesis using m(1) es(1) by metis
  qed
  ultimately show ?case using ih w by (intro conjI impI) simp_all
qed (simp add: errors_of_def)

lemma subnet_frame: "same_rows s (snd (deriveSubnetReachability p g a s)) \<and>
    findings (st_db (snd (deriveSubnetReachability p g a s))) = findings (st_db s)"
proof -
  have "st_db (snd (fold (link_peer g a net) xs st)) = st_db (snd st)" for net xs st
    by (induction xs arbitrary: st) (simp_all add: link_peer_def case_prod_unfold Let_def)
  then show ?thesis
    by (auto simp: deriveSubnetReachability_def on_db_state read_inv same_rows_def split: prod.split sum.split option.split)
qed

lemma scan_job_frame:
  assumes "scan_job E p job a s = (s', pg)"
  shows "same_rows s s' \<and> (sound (pr_store p) \<longrightarrow> total pg = int (length (findings (st_db s'))) - int (length (findings (st_db s)))) \<and>
    ((\<forall>sc\<in>set (ForProfile (j_Profile job) (pr_opts p)). adapter_works E a sc) \<longrightarrow> scanErrs pg = []) \<and>
    ((\<forall>sc\<in>set (ForProfile (j_Profile job) (pr_opts p)). adapter_fails E a sc) \<longrightarrow>
       total pg = 0 \<and> scanErrs pg \<noteq> [] \<and> errors_of (ForProfile (j_Profile job) (pr_opts p)) (scanErrs pg))"
proof -
  define s1 where "s1 = (case pr_graph p of None \<Rightarrow> s | Some g \<Rightarrow> snd (on_graph (SyncAsset g a) s))"
  obtain s2 pg2 where 2: "fold (run_scanner E p a (j_ID job)) (ForProfile (j_Profile job) (pr_opts p))
      (s1, \<lparr>usedMock = False, total = 0, scanErrs = []\<rparr>) = (s2, pg2)" by fastforce
  note f = run_all_frame [OF 2]
  have s1: "st_db s1 = st_db s" by (simp add: s1_def split: option.split)
  have pg: "pg = pg2" and s': "s' = (case pr_graph p of None \<Rightarrow> s2
      | Some g \<Rightarrow> if a_Type a = AssetIP then snd (deriveSubnetReachability p g a s2) else s2)"
    using assms by (simp_all add: scan_job_def Let_def s1_def [symmetric] 2)
  have "same_rows s2 s' \<and> findings (st_db s') = findings (st_db s2)"
    using subnet_frame [of s2 p _ a] by (auto simp: s' split: option.split)
  moreover have "length (ForProfile (j_Profile job) (pr_opts p)) \<noteq> 0" by (simp add: ForProfile_def)
  moreover have "es \<noteq> []" if "errors_of (ForProfile (j_Profile job) (pr_opts p)) es" for es
    using that by (auto simp: errors_of_def ForProfile_def split: if_splits)
  ultimately show ?thesis using f s1 by (auto simp: pg same_rows_def uncounted_def)
qed

section \<open>The row of the job\<close>

text \<open>
  The circumstances of a job that can be finished: no call of the database fails, and the identifiers in the
  rows are canonical.  The texts of errors are accepted by the column they are stored in.
\<close>

definition healthy :: "engine_env \<Rightarrow> env \<Rightarrow> bool" where
  "healthy E D \<longleftrightarrow> sound D \<and> (\<forall>e. text_ok D (store_text E e))"

definition canonical :: "env \<Rightarrow> db \<Rightarrow> bool" where
  "canonical D d \<longleftrightarrow> (\<forall>j\<in>set (scan_jobs d). uuid_text D (j_ID j) = Some (j_ID j) \<and> uuid_text D (j_AssetID j) = Some (j_AssetID j))"

definition job_status :: "engine_state \<Rightarrow> string \<Rightarrow> ScanStatus option" where
  "job_status s i = map_option j_Status (select_id j_ID i (scan_jobs (st_db s)))"

definition job_error :: "engine_state \<Rightarrow> string \<Rightarrow> string option" where
  "job_error s i = map_option j_Error (select_id j_ID i (scan_jobs (st_db s)))"

definition terminal :: "ScanStatus option \<Rightarrow> bool" where
  "terminal st \<longleftrightarrow> st \<in> {Some StatusCompleted, Some StatusFailed}"

text \<open>Neither the identifiers of the jobs nor the assets change.\<close>

definition same_keys :: "engine_state \<Rightarrow> engine_state \<Rightarrow> bool" where
  "same_keys s s' \<longleftrightarrow> map j_ID (scan_jobs (st_db s')) = map j_ID (scan_jobs (st_db s)) \<and>
     map j_AssetID (scan_jobs (st_db s')) = map j_AssetID (scan_jobs (st_db s)) \<and> assets (st_db s') = assets (st_db s)"

lemma same_keys_trans: "same_keys s t \<Longrightarrow> same_keys t u \<Longrightarrow> same_keys s u"
  by (simp add: same_keys_def)

text \<open>The three changes of status have the same effect, up to the status.\<close>

definition sets_status :: "ScanStatus \<Rightarrow> string \<Rightarrow> engine_state \<Rightarrow> engine_state \<Rightarrow> bool" where
  "sets_status st i s s' \<longleftrightarrow> same_keys s s' \<and> findings (st_db s') = findings (st_db s) \<and>
     (\<forall>k. job_status s' k = (if k = i then map_option (\<lambda>_. st) (job_status s i) else job_status s k))"

lemma update_job_status:
  assumes "\<And>t. \<not> fault_at D t" and "uuid_text D i = Some i"
    and "\<And>t j. j_ID (f t j) = j_ID j" and "\<And>t j. j_AssetID (f t j) = j_AssetID j" and "\<And>t j. j_Status (f t j) = st"
  shows "\<exists>s'. on_db (update_job D i f) s = (Inr (), s') \<and> sets_status st i s s'"
proof -
  let ?d = "(st_db s)\<lparr>tick := Suc (tick (st_db s))\<rparr>\<lparr>scan_jobs := update_id j_ID i (f (tick (st_db s))) (scan_jobs (st_db s))\<rparr>"
  have "on_db (update_job D i f) s = (Inr (), s\<lparr>st_db := ?d\<rparr>)"
    using assms(1,2) by (simp add: on_db_def update_job_def call_def Let_def)
  moreover have "map g (update_id j_ID i (f t) js) = map g js" if "\<And>t j. g (f t j) = g j" for g :: "ScanJob \<Rightarrow> string" and t js
    using that by (simp add: update_id_def)
  moreover have "job_status (s\<lparr>st_db := ?d\<rparr>) k = (if k = i then map_option (\<lambda>_. st) (job_status s i) else job_status s k)" for k
    using select_update_id [of j_ID "f (tick (st_db s))" k i "scan_jobs (st_db s)", OF assms(3)] assms(5)
    by (simp add: job_status_def option.map_comp comp_def)
  ultimately show ?thesis using assms(3,4) by (simp add: sets_status_def same_keys_def)
qed

lemma mark_status:
  assumes "\<And>t. \<not> fault_at D t" and "uuid_text D i = Some i"
  shows "\<exists>s'. on_db (MarkRunning D i) s = (Inr (), s') \<and> sets_status StatusRunning i s s'"
    and "\<exists>s'. on_db (MarkCompleted D i mock) s = (Inr (), s') \<and> sets_status StatusCompleted i s s'"
    and "text_ok D msg \<Longrightarrow> \<exists>s'. on_db (MarkFailed D i msg) s = (Inr (), s') \<and> sets_status StatusFailed i s s'"
    and "\<not> text_ok D msg \<Longrightarrow> \<exists>s'. on_db (MarkFailed D i msg) s = (Inl DBError, s') \<and> same_keys s s' \<and>
      findings (st_db s') = findings (st_db s) \<and> job_status s' = job_status s \<and> job_error s' = job_error s"
proof -
  note up = update_job_status [OF assms]
  show "\<exists>s'. on_db (MarkRunning D i) s = (Inr (), s') \<and> sets_status StatusRunning i s s'"
    unfolding MarkRunning_def by (rule up) simp_all
  show "\<exists>s'. on_db (MarkCompleted D i mock) s = (Inr (), s') \<and> sets_status StatusCompleted i s s'"
    unfolding MarkCompleted_def by (rule up) simp_all
  show "\<exists>s'. on_db (MarkFailed D i msg) s = (Inr (), s') \<and> sets_status StatusFailed i s s'" if "text_ok D msg"
  proof -
    have "MarkFailed D i msg = update_job D i (\<lambda>t j. j\<lparr>j_Status := StatusFailed,
        j_FinishedAt := Some (ts_store D (now_at D t)), j_Error := msg\<rparr>)" using that by (simp add: MarkFailed_def [abs_def])
    then show ?thesis by (simp only:) (rule up, simp_all)
  qed
  show "\<exists>s'. on_db (MarkFailed D i msg) s = (Inl DBError, s') \<and> same_keys s s' \<and>
      findings (st_db s') = findings (st_db s) \<and> job_status s' = job_status s \<and> job_error s' = job_error s" if "\<not> text_ok D msg"
    using that by (simp add: MarkFailed_def on_db_def same_keys_def job_status_def [abs_def] job_error_def [abs_def])
qed

lemma MarkFailed_error:
  assumes "\<And>t. \<not> fault_at D t" and "uuid_text D i = Some i" and "text_ok D msg"
  shows "job_error (snd (on_db (MarkFailed D i msg) s)) i = map_option (\<lambda>_. msg) (job_error s i)"
proof -
  let ?f = "\<lambda>j :: ScanJob. j\<lparr>j_Status := StatusFailed, j_FinishedAt := Some (ts_store D (now_at D (tick (st_db s)))), j_Error := msg\<rparr>"
  have "scan_jobs (st_db (snd (on_db (MarkFailed D i msg) s))) = update_id j_ID i ?f (scan_jobs (st_db s))"
    using assms by (simp add: on_db_def MarkFailed_def update_job_def call_def Let_def)
  moreover have "select_id j_ID i (update_id j_ID i ?f js) = map_option ?f (select_id j_ID i js)" for js
    using select_update_id [of j_ID ?f i i js] by simp
  ultimately show ?thesis by (simp add: job_error_def option.map_comp comp_def)
qed

text \<open>One job, from its row to its last status.\<close>

definition job_ends :: "engine_env \<Rightarrow> Processor \<Rightarrow> string \<Rightarrow> progress \<Rightarrow> engine_state \<Rightarrow> string option \<times> engine_state \<Rightarrow> bool" where
  "job_ends E p i pg s res \<longleftrightarrow>
     (if total pg = 0 \<and> scanErrs pg \<noteq> []
      then (if text_ok (pr_store p) (failure_text (scanErrs pg))
            then fst res = None \<and> sets_status StatusFailed i s (snd res) \<and>
              job_error (snd res) i = map_option (\<lambda>_. failure_text (scanErrs pg)) (job_error s i)
            else fst res = Some (store_text E DBError) \<and> same_keys s (snd res) \<and> findings (st_db (snd res)) = findings (st_db s) \<and>
              job_status (snd res) = job_status s \<and> job_error (snd res) = job_error s)
      else fst res = None \<and> sets_status StatusCompleted i s (snd res))"

lemma Process_runs:
  assumes "healthy E (pr_store p)" and "db_inv (pr_store p) (st_db s)" and "canonical (pr_store p) (st_db s)"
    and "select_id j_ID i (scan_jobs (st_db s)) = Some job"
  obtains a s1 s2 pg where "select_id a_ID (j_AssetID job) (assets (st_db s)) = Some a"
    and "sets_status StatusRunning i s s1" and "scan_job E p job a s1 = (s2, pg)" and "job_ends E p i pg s2 (Process E p i s)"
proof -
  let ?D = "pr_store p"
  have nf: "\<And>t. \<not> fault_at ?D t" using assms(1) by (simp add: healthy_def sound_def)
  have job: "job \<in> set (scan_jobs (st_db s))" "j_ID job = i" using assms(4) jt.lookup_Some by blast+
  then have u: "uuid_text ?D i = Some i" "uuid_text ?D (j_AssetID job) = Some (j_AssetID job)"
    using assms(3) by (auto simp: canonical_def)
  have "at.has_key (j_AssetID job) (st_db s)" using assms(2) job by (auto simp: db_inv_def refs_ok_def)
  then obtain a where a: "select_id a_ID (j_AssetID job) (assets (st_db s)) = Some a" using at.lookup_iff by blast
  let ?t = "tick (st_db s)"
  define sa where "sa = s\<lparr>st_db := (st_db s)\<lparr>tick := Suc (Suc ?t)\<rparr>\<rparr>"
  have 1: "on_db (GetScanJob ?D i) s = (Inr job, s\<lparr>st_db := (st_db s)\<lparr>tick := Suc ?t\<rparr>\<rparr>)"
    using nf u assms(4) by (simp add: on_db_def GetScanJob_def call_def Let_def)
  have 2: "on_db (GetAsset ?D (j_AssetID job)) (s\<lparr>st_db := (st_db s)\<lparr>tick := Suc ?t\<rparr>\<rparr>) = (Inr a, sa)"
    using nf u a by (simp add: on_db_def GetAsset_def call_def Let_def sa_def)
  obtain s1 where 3: "on_db (MarkRunning ?D (j_ID job)) sa = (Inr (), s1)" "sets_status StatusRunning i sa s1"
    using mark_status(1) [OF nf u(1), of sa] job(2) by auto
  have s1: "sets_status StatusRunning i s s1"
    using 3(2) by (simp add: sets_status_def same_keys_def sa_def job_status_def)
  obtain s2 pg where 4: "scan_job E p job a s1 = (s2, pg)" by fastforce
  have P: "Process E p i s = (case finish_job p job pg s2 of (Inl err, s) \<Rightarrow> (Some (store_text E err), s) | (Inr _, s) \<Rightarrow> (None, s))"
    by (simp add: Process_def 1 2 3 4)
  have "job_ends E p i pg s2 (Process E p i s)"
    using mark_status(2) [OF nf u(1), of "usedMock pg" s2] mark_status(3,4) [OF nf u(1), of "failure_text (scanErrs pg)" s2]
      MarkFailed_error [OF nf u(1), of "failure_text (scanErrs pg)" s2]
    by (auto simp: P job_ends_def finish_job_def job(2))
  with a s1 4 that show ?thesis by blast
qed

lemma job_status_same_rows: "same_rows s s' \<Longrightarrow> job_status s' = job_status s"
  by (simp add: same_rows_def job_status_def [abs_def])

section \<open>A turn of the worker\<close>

lemma same_keys_canonical:
  assumes "same_keys s s'" and "canonical D (st_db s)"
  shows "canonical D (st_db s')"
proof -
  have "j_ID ` set (scan_jobs (st_db s')) = j_ID ` set (scan_jobs (st_db s))"
    and "j_AssetID ` set (scan_jobs (st_db s')) = j_AssetID ` set (scan_jobs (st_db s))"
    using assms(1) unfolding same_keys_def by (metis list.set_map)+
  then show ?thesis using assms(2) unfolding canonical_def by (metis (no_types, lifting) imageE imageI)
qed

text \<open>One turn for a job that has a row: how it ends is decided by the tally of its scan.  When its failure text is refused by the
  column, the worker reports the database's own error instead.\<close>

definition last_status :: "progress \<Rightarrow> ScanStatus" where
  "last_status pg = (if total pg = 0 \<and> scanErrs pg \<noteq> [] then StatusFailed else StatusCompleted)"

definition last_error :: "engine_env \<Rightarrow> env \<Rightarrow> progress \<Rightarrow> string" where
  "last_error E D pg =
     (if text_ok D (failure_text (scanErrs pg)) then failure_text (scanErrs pg) else store_text E DBError)"

lemma worker_turn_job:
  assumes "healthy E (pr_store p)" and "db_inv (pr_store p) (st_db s)" and "canonical (pr_store p) (st_db s)"
    and "queue_works q" and "waiting (q_key q) r = i # rest" and "i \<noteq> []"
    and "select_id j_ID i (scan_jobs (st_db s)) = Some job"
  obtains a s1 s2 pg r' s' where "select_id a_ID (j_AssetID job) (assets (st_db s)) = Some a" and "sets_status StatusRunning i s s1"
    and "scan_job E p job a s1 = (s2, pg)" and "worker_step E p q (r, s) = (r', s')" and "waiting (q_key q) r' = rest"
    and "sets_status (last_status pg) i s2 s'"
    and "last_status pg = StatusFailed \<longrightarrow> job_error s' i = map_option (\<lambda>_. last_error E (pr_store p) pg) (job_error s2 i)"
proof -
  let ?D = "pr_store p"
  obtain a s1 s2 pg where P: "select_id a_ID (j_AssetID job) (assets (st_db s)) = Some a" "sets_status StatusRunning i s s1"
      "scan_job E p job a s1 = (s2, pg)" "job_ends E p i pg s2 (Process E p i s)"
    by (rule Process_runs [OF assms(1-3,7)])
  have nf: "\<And>t. \<not> fault_at ?D t" and te: "\<And>e. text_ok ?D (store_text E e)" using assms(1) by (simp_all add: healthy_def sound_def)
  have u: "uuid_text ?D i = Some i" using assms(3) jt.lookup_Some [OF assms(7)] by (auto simp: canonical_def)
  obtain r' where d: "Dequeue q r = (Inr i, r')" and w: "waiting (q_key q) r' = rest"
    using queue_works_calls(3,4) [OF assms(4), of r] assms(5) by (cases "Dequeue q r") simp
  obtain err s3 where res: "Process E p i s = (err, s3)" by fastforce
  define s' where "s' = snd (worker_step E p q (r, s))"
  have step: "worker_step E p q (r, s) = (r', s')"
    by (simp add: s'_def worker_step_def d assms(6) res split: option.split)
  have fin: "sets_status (last_status pg) i s2 s' \<and>
      (last_status pg = StatusFailed \<longrightarrow> job_error s' i = map_option (\<lambda>_. last_error E ?D pg) (job_error s2 i))"
  proof (cases err)
    case None
    then show ?thesis using P(4) step
      by (auto simp: job_ends_def res worker_step_def d assms(6) last_status_def last_error_def split: if_splits)
  next
    case (Some e)
    then have e: "e = store_text E DBError" "same_keys s2 s3" "job_status s3 = job_status s2" "findings (st_db s3) = findings (st_db s2)"
        "last_status pg = StatusFailed" "\<not> text_ok ?D (failure_text (scanErrs pg))" "job_error s3 i = job_error s2 i"
      using P(4) by (auto simp: job_ends_def res last_status_def split: if_splits)
    obtain s4 where s4: "on_db (MarkFailed ?D i e) s3 = (Inr (), s4)" "sets_status StatusFailed i s3 s4"
      using mark_status(3) [OF nf u te] e(1) by blast
    have s': "s' = s4" using step by (simp add: worker_step_def d assms(6) res Some s4)
    have "job_error s' i = map_option (\<lambda>_. e) (job_error s3 i)"
      using MarkFailed_error [OF nf u te [of DBError], of s3] s4(1) e(1) by (simp add: s')
    then show ?thesis using s4(2) e same_keys_trans by (auto simp: sets_status_def s' last_error_def)
  qed
  show ?thesis by (rule that [OF P(1-3) step w]) (use fin in blast)+
qed

lemma worker_turn:
  assumes "healthy E (pr_store p)" and "db_inv (pr_store p) (st_db s)" and "canonical (pr_store p) (st_db s)"
    and "queue_works q" and "waiting (q_key q) r = i # rest" and "i \<noteq> []" and "job_status s i \<noteq> None"
  obtains r' s' where "worker_step E p q (r, s) = (r', s')" and "waiting (q_key q) r' = rest" and "canonical (pr_store p) (st_db s')"
    and "db_inv (pr_store p) (st_db s')" and "terminal (job_status s' i)" and "\<And>k. k \<noteq> i \<Longrightarrow> job_status s' k = job_status s k"
proof -
  obtain job where job: "select_id j_ID i (scan_jobs (st_db s)) = Some job" using assms(7) by (auto simp: job_status_def)
  obtain a s1 s2 pg r' s' where P: "sets_status StatusRunning i s s1" "scan_job E p job a s1 = (s2, pg)"
      "worker_step E p q (r, s) = (r', s')" "waiting (q_key q) r' = rest" "sets_status (last_status pg) i s2 s'"
    by (rule worker_turn_job [OF assms(1-6) job])
  have rows: "same_rows s1 s2" using scan_job_frame [OF P(2)] by blast
  have st: "job_status s2 = job_status s1" by (rule job_status_same_rows [OF rows])
  have "same_keys s1 s2" using rows by (simp add: same_keys_def same_rows_def)
  then have "same_keys s s'" using P(1,5) same_keys_trans unfolding sets_status_def by blast
  moreover have "db_inv (pr_store p) (st_db s')"
    using job_steps_keep [OF worker_step_steps [of E p "(r, s)" q], of "\<lambda>u. db_inv (pr_store p) (st_db u)"] assms(2) job_step_db
    by (auto simp: P(3))
  moreover have "terminal (job_status s' i)" "\<And>k. k \<noteq> i \<Longrightarrow> job_status s' k = job_status s k"
    using P(1,5) assms(7) by (auto simp: sets_status_def st terminal_def last_status_def)
  ultimately show ?thesis using that [OF P(3,4)] same_keys_canonical [OF _ assms(3)] by blast
qed

text \<open>C35: When the database and the queue work, a job whose turn has come ends with the status its scan deserves.  It is completed if anything was stored,
  or if no adapter fails; if all adapters of the profile fail it is failed, nothing is stored, and its row has their
  messages, one each under the adapter's name, or, if the column refuses that text, the database's error.
  Other jobs keep their status.\<close>

theorem job_outcome:
  assumes "healthy E (pr_store p)" and "db_inv (pr_store p) (st_db s)" and "canonical (pr_store p) (st_db s)"
    and "queue_works q" and "waiting (q_key q) r = i # rest" and "i \<noteq> []"
    and "select_id j_ID i (scan_jobs (st_db s)) = Some job" and "select_id a_ID (j_AssetID job) (assets (st_db s)) = Some a"
  shows "let (r', s') = worker_step E p q (r, s); scs = ForProfile (j_Profile job) (pr_opts p) in
    waiting (q_key q) r' = rest \<and> terminal (job_status s' i) \<and> (\<forall>k. k \<noteq> i \<longrightarrow> job_status s' k = job_status s k) \<and>
    (length (findings (st_db s')) \<noteq> length (findings (st_db s)) \<longrightarrow> job_status s' i = Some StatusCompleted) \<and>
    ((\<forall>sc\<in>set scs. adapter_works E a sc) \<longrightarrow> job_status s' i = Some StatusCompleted) \<and>
    ((\<forall>sc\<in>set scs. adapter_fails E a sc) \<longrightarrow> job_status s' i = Some StatusFailed \<and>
       length (findings (st_db s')) = length (findings (st_db s)) \<and>
       (\<exists>es. errors_of scs es \<and> job_error s' i =
          Some (if text_ok (pr_store p) (failure_text es) then failure_text es else store_text E DBError)))"
proof -
  obtain a' s1 s2 pg r' s' where P: "select_id a_ID (j_AssetID job) (assets (st_db s)) = Some a'"
      "sets_status StatusRunning i s s1" "scan_job E p job a' s1 = (s2, pg)" "worker_step E p q (r, s) = (r', s')"
      "waiting (q_key q) r' = rest" "sets_status (last_status pg) i s2 s'"
      "last_status pg = StatusFailed \<longrightarrow> job_error s' i = map_option (\<lambda>_. last_error E (pr_store p) pg) (job_error s2 i)"
    by (rule worker_turn_job [OF assms(1-7)])
  have a: "a' = a" using P(1) assms(8) by simp
  note f = scan_job_frame [OF P(3)]
  have j: "job_status s i \<noteq> None" using assms(7) by (simp add: job_status_def)
  have st: "job_status s2 = job_status s1" using f by (intro job_status_same_rows) blast
  have status: "job_status s' k = (if k = i then Some (last_status pg) else job_status s k)" for k
    using P(2,6) j by (auto simp: sets_status_def st)
  have "job_status s2 i \<noteq> None" using j P(2) by (simp add: sets_status_def st)
  then have "job_error s2 i \<noteq> None" by (simp add: job_error_def job_status_def)
  then have err: "job_error s' i = Some (last_error E (pr_store p) pg)" if "last_status pg = StatusFailed" using P(7) that by auto
  have n: "total pg = int (length (findings (st_db s'))) - int (length (findings (st_db s)))"
    using f P(2,6) assms(1) by (simp add: sets_status_def healthy_def)
  have fail: "last_status pg = StatusFailed" "errors_of (ForProfile (j_Profile job) (pr_opts p)) (scanErrs pg)" "total pg = 0"
    if "\<forall>sc\<in>set (ForProfile (j_Profile job) (pr_opts p)). adapter_fails E a sc"
    using f that by (auto simp: a last_status_def)
  have works: "last_status pg = StatusCompleted" if "\<forall>sc\<in>set (ForProfile (j_Profile job) (pr_opts p)). adapter_works E a sc"
    using f that by (auto simp: a last_status_def)
  show ?thesis unfolding P(4) Let_def prod.case
  proof (intro conjI impI)
    show "\<exists>es. errors_of (ForProfile (j_Profile job) (pr_opts p)) es \<and> job_error s' i =
        Some (if text_ok (pr_store p) (failure_text es) then failure_text es else store_text E DBError)"
      if "\<forall>sc\<in>set (ForProfile (j_Profile job) (pr_opts p)). adapter_fails E a sc"
      using fail [OF that] err by (intro exI [of _ "scanErrs pg"]) (simp add: last_error_def)
    show "job_status s' i = Some StatusCompleted" if "length (findings (st_db s')) \<noteq> length (findings (st_db s))"
      using that n by (simp add: status last_status_def)
  qed (use P(5) status fail works n in \<open>auto simp: terminal_def last_status_def\<close>)
qed

section \<open>The worker empties the queue\<close>

text \<open>The worker's whole queue: its jobs end, the others keep their status.\<close>

lemma worker_drains:
  assumes "healthy E (pr_store p)" and "queue_works q"
    and "waiting (q_key q) r = w" and "db_inv (pr_store p) (st_db s)" and "canonical (pr_store p) (st_db s)"
    and "\<forall>i\<in>set w. i \<noteq> [] \<and> job_status s i \<noteq> None"
  shows "let (r', s') = worker_loop E p q (length w) (r, s) in waiting (q_key q) r' = [] \<and>
    (\<forall>i. i \<in> set w \<or> terminal (job_status s i) \<longrightarrow> terminal (job_status s' i)) \<and>
    (\<forall>i. i \<notin> set w \<longrightarrow> job_status s' i = job_status s i)"
  using assms(3-)
proof (induction w arbitrary: r s)
  case (Cons i w)
  obtain r1 s1 where 1: "worker_step E p q (r, s) = (r1, s1)" "waiting (q_key q) r1 = w" "canonical (pr_store p) (st_db s1)"
      "db_inv (pr_store p) (st_db s1)" "terminal (job_status s1 i)" "\<And>k. k \<noteq> i \<Longrightarrow> job_status s1 k = job_status s k"
    by (rule worker_turn [of E p s q r i w]) (use assms(1,2) Cons.prems in auto)
  have "job_status s1 k \<noteq> None" if "job_status s k \<noteq> None" for k using 1(5,6) that by (cases "k = i") (auto simp: terminal_def)
  then have IH: "let (r', s') = worker_loop E p q (length w) (r1, s1) in waiting (q_key q) r' = [] \<and>
      (\<forall>i. i \<in> set w \<or> terminal (job_status s1 i) \<longrightarrow> terminal (job_status s' i)) \<and>
      (\<forall>i. i \<notin> set w \<longrightarrow> job_status s' i = job_status s1 i)"
    using Cons.IH [OF 1(2,4,3)] Cons.prems(4) by simp
  have "terminal (job_status s1 k)" if "k = i \<or> terminal (job_status s k)" for k
    using 1(5,6) that by (cases "k = i") simp_all
  then show ?case using IH 1(1,6) by (simp add: case_prod_unfold Let_def)
qed simp

text \<open>C15: The worker gets through its queue: with the databases and the queue working, as many turns as jobs are waiting
  leave the queue empty and every one of those jobs completed or failed, whatever the scanners do.\<close>

theorem worker_drains_queue:
  assumes "healthy E (pr_store p)" and "queue_works q" and "db_inv (pr_store p) (st_db s)"
    and "canonical (pr_store p) (st_db s)" and "\<forall>i\<in>set (waiting (q_key q) r). i \<noteq> [] \<and> job_status s i \<noteq> None"
  shows "let (r', s') = worker_loop E p q (length (waiting (q_key q) r)) (r, s) in
    waiting (q_key q) r' = [] \<and> (\<forall>i\<in>set (waiting (q_key q) r). terminal (job_status s' i))"
  using worker_drains [OF assms(1,2) refl assms(3-5)] by (simp add: case_prod_unfold Let_def)

section \<open>A job that fails\<close>

lemma work_circumstances:
  "healthy work_engine (pr_store work_processor)" "canonical (pr_store work_processor) (st_db work_state)"
  "select_id j_ID ''j'' (scan_jobs (st_db work_state)) = Some work_job" "select_id a_ID (j_AssetID work_job) (assets (st_db work_state)) = Some work_asset"
  by (simp_all add: healthy_def sound_def canonical_def work_engine_def work_processor_def work_env_def demo_env_def work_state_def work_job_def work_asset_def
      select_id_def)

lemma work_adapters_fail: "\<forall>sc\<in>set (ForProfile (j_Profile work_job) (pr_opts work_processor)). adapter_fails work_engine work_asset sc"
  by (simp add: ForProfile_def work_job_def adapter_fails_def work_engine_def Nmap_Scan_def Let_def fallback_def work_processor_def
      sample_opts_def)

lemma work_queue_works: "queue_works work_queue"
  by (simp add: queue_works_def work_queue_def)

lemma work_waiting: "waiting (q_key work_queue) work_redis = [''j'']"
  by (simp add: waiting_def work_queue_def work_redis_def)

theorem job_outcome_witness:
  "\<exists>es. errors_of (ForProfile ProfileQuick sample_opts) es \<and>
     job_status (snd (worker_step work_engine work_processor work_queue (work_redis, work_state))) ''j'' = Some StatusFailed \<and>
     job_error (snd (worker_step work_engine work_processor work_queue (work_redis, work_state))) ''j'' =
       Some (if text_ok work_env (failure_text es) then failure_text es else ''database error'')"
proof -
  have "pr_store work_processor = work_env" "pr_opts work_processor = sample_opts" "j_Profile work_job = ProfileQuick"
    "store_text work_engine DBError = ''database error''"
    by (simp_all add: work_processor_def work_job_def work_engine_def)
  with work_adapters_fail job_outcome [OF work_circumstances(1) work_state_inv [THEN conjunct1] work_circumstances(2) work_queue_works work_waiting _
      work_circumstances(3,4)]
  show ?thesis by (auto simp: case_prod_unfold Let_def)
qed

theorem worker_drains_queue_witness:
  "waiting ''k'' (fst (worker_loop work_engine work_processor work_queue 1 (work_redis, work_state))) = [] \<and>
   terminal (job_status (snd (worker_loop work_engine work_processor work_queue 1 (work_redis, work_state))) ''j'')"
proof -
  note w = work_waiting
  have "\<forall>i\<in>set (waiting (q_key work_queue) work_redis). i \<noteq> [] \<and> job_status work_state i \<noteq> None"
    using work_circumstances(3) by (simp add: w job_status_def)
  then have "let (r', s') = worker_loop work_engine work_processor work_queue (length (waiting (q_key work_queue) work_redis)) (work_redis, work_state) in
    waiting (q_key work_queue) r' = [] \<and> (\<forall>i\<in>set (waiting (q_key work_queue) work_redis). terminal (job_status s' i))"
    by (intro worker_drains_queue work_circumstances work_queue_works work_state_inv [THEN conjunct1])
  then show ?thesis unfolding w by (simp add: case_prod_unfold Let_def work_queue_def)
qed

end
