(* ===== verification/Go_Encode.thy ===== *)
theory Go_Encode
  imports Go_Json Go_Time "HOL-Library.List_Lexorder" "HOL-Library.Char_ord"
begin

text \<open>
  How the program writes its answers: \<open>strconv.FormatFloat\<close> with the shortest digits, the values that
  \<open>encoding/json\<close> makes of Go data, and \<open>encoding/csv\<close>.
\<close>

section \<open>Floating-point numbers in decimal\<close>

text \<open>The exponent \<open>k\<close> with \<open>10 ^ (k - 1) \<le> q < 10 ^ k\<close>, for a positive \<open>q\<close>.\<close>

definition dec_exp :: "rat \<Rightarrow> int" where
  "dec_exp q =
     (let (n, d) = quotient_of q; e = int (length (show_nat (nat n))) - int (length (show_nat (nat d)))
      in if 10 powi e \<le> q then e + 1 else e)"

text \<open>
  The fewest digits that read back as \<open>q\<close>, and of those the nearest: with \<open>n\<close> digits the neighbours of
  \<open>q\<close> are its floor and its ceiling at that precision.  Seventeen digits are the most that are tried.
\<close>

definition digit_candidates :: "rat \<Rightarrow> nat \<Rightarrow> nat list" where
  "digit_candidates q n =
     (let x = q / 10 powi (dec_exp q - int n); f = nat \<lfloor>x\<rfloor>; d = x - of_nat f
      in if d < 1 / 2 \<or> (d = 1 / 2 \<and> even f) then [f, f + 1] else [f + 1, f])"

fun shortest_from :: "nat \<Rightarrow> nat \<Rightarrow> rat \<Rightarrow> nat \<times> int" where
  "shortest_from 0 n q = (hd (digit_candidates q n), dec_exp q - int n)"
| "shortest_from (Suc fuel) n q =
     (case find (\<lambda>m. to_f64 (of_nat m * 10 powi (dec_exp q - int n)) = Fin q) (digit_candidates q n) of
        Some m \<Rightarrow> (m, dec_exp q - int n)
      | None \<Rightarrow> shortest_from fuel (Suc n) q)"

definition shortest :: "rat \<Rightarrow> string \<times> int" where
  "shortest q =
     (if q = 0 then (''0'', 1)
      else let (m, e) = shortest_from 16 1 q; ds = show_nat m
           in (trim_right_char (CHR ''0'') ds, e + int (length ds)))"

text \<open>With digits \<open>ds\<close> and the decimal point after \<open>p\<close> of them: formats \<open>f\<close> and \<open>e\<close> without a sign.\<close>

definition fixed_point :: "string \<Rightarrow> int \<Rightarrow> string" where
  "fixed_point ds p =
     (if p \<le> 0 then ''0.'' @ replicate (nat (- p)) (CHR ''0'') @ ds
      else if int (length ds) \<le> p then ds @ replicate (nat p - length ds) (CHR ''0'')
      else take (nat p) ds @ ''.'' @ drop (nat p) ds)"

definition scientific :: "string \<Rightarrow> int \<Rightarrow> string" where
  "scientific ds p =
     (let e = p - 1
      in take 1 ds @ (if length ds \<le> 1 then [] else CHR ''.'' # drop 1 ds) @
         (if e < 0 then ''e-'' else ''e+'') @ pad_nat 2 (nat \<bar>e\<bar>))"

fun format_float :: "f64 \<Rightarrow> string" where
  "format_float NaN = ''NaN''"
| "format_float PInf = ''+Inf''"
| "format_float NInf = ''-Inf''"
| "format_float (Fin q) =
     (if q < 0 then ''-'' else []) @ (let (ds, p) = shortest \<bar>q\<bar> in fixed_point ds p)"

definition format_bool :: "bool \<Rightarrow> string" where
  "format_bool b = (if b then ''true'' else ''false'')"

section \<open>JSON\<close>

text \<open>What a Go value becomes; \<open>None\<close> is the error of a value JSON has no form for.\<close>

abbreviation j_str :: "string \<Rightarrow> json option" where "j_str s \<equiv> Some (JStr s)"
abbreviation j_bool :: "bool \<Rightarrow> json option" where "j_bool b \<equiv> Some (JBool b)"
abbreviation j_int :: "int \<Rightarrow> json option" where "j_int n \<equiv> Some (JNum (itoa n))"

fun j_float :: "f64 \<Rightarrow> json option" where
  "j_float (Fin q) =
     Some (JNum ((if q < 0 then ''-'' else []) @
       (let (ds, p) = shortest \<bar>q\<bar>
        in if q \<noteq> 0 \<and> (\<bar>q\<bar> < val_f64 (to_f64 (1 / 10 ^ 6)) \<or> 10 ^ 21 \<le> \<bar>q\<bar>)
           then (if - 9 \<le> p - 1 \<and> p - 1 < 0 then take (length (scientific ds p) - 2) (scientific ds p) @ [last (scientific ds p)]
                 else scientific ds p)
           else fixed_point ds p)))"
| "j_float _ = None"

text \<open>A year of four digits; the zone is UTC.\<close>

definition j_time :: "time \<Rightarrow> json option" where
  "j_time t =
     (let (y, _, _) = civil_of_days (unix_seconds t div 86400)
      in if 0 \<le> y \<and> y \<le> 9999 then j_str (rfc3339nano t) else None)"

definition j_list :: "('a \<Rightarrow> json option) \<Rightarrow> 'a list \<Rightarrow> json option" where
  "j_list f xs = map_option JArr (those (map f xs))"

text \<open>A slice that is nil when it is empty.\<close>

definition j_slice :: "('a \<Rightarrow> json option) \<Rightarrow> 'a list \<Rightarrow> json option" where
  "j_slice f xs = (if xs = [] then Some JNull else j_list f xs)"

type_synonym member = "(string \<times> json option) list"

definition j_obj :: "member list \<Rightarrow> json option" where
  "j_obj ms = map_option JObj (those (map (\<lambda>(k, v). map_option (Pair k) v) (concat ms)))"

definition fld :: "string \<Rightarrow> json option \<Rightarrow> member" where
  "fld k v = [(k, v)]"

text \<open>\<open>omitempty\<close>\<close>

definition opt_fld :: "bool \<Rightarrow> string \<Rightarrow> json option \<Rightarrow> member" where
  "opt_fld present k v = (if present then [(k, v)] else [])"

definition str_fld :: "string \<Rightarrow> string \<Rightarrow> member" where
  "str_fld k s = opt_fld (s \<noteq> []) k (j_str s)"

text \<open>A map is written in the order of its keys.\<close>

definition j_map :: "(string \<times> json option) list \<Rightarrow> json option" where
  "j_map kvs = j_obj [sort_key fst kvs]"

section \<open>CSV\<close>

definition field_needs_quotes :: "string \<Rightarrow> bool" where
  "field_needs_quotes s \<longleftrightarrow>
     s \<noteq> [] \<and>
     (s = [CHR 0x5C, CHR ''.''] \<or> list_ex (\<lambda>c. c = CHR '','' \<or> c = CHR 0x22 \<or> c = CHR 0x0A \<or> c = CHR 0x0D) s \<or>
      leading white_space s \<noteq> None)"

fun double_quotes :: "string \<Rightarrow> string" where
  "double_quotes [] = []"
| "double_quotes (c # s) = (if c = CHR 0x22 then [CHR 0x22, CHR 0x22] else [c]) @ double_quotes s"

definition csv_field :: "string \<Rightarrow> string" where
  "csv_field s = (if field_needs_quotes s then CHR 0x22 # double_quotes s @ [CHR 0x22] else s)"

definition csv_record :: "string list \<Rightarrow> string" where
  "csv_record fs = join '','' (map csv_field fs) @ [CHR 0x0A]"

end
