(* ===== verification/Api_Base.thy ===== *)
theory Api_Base
  imports Go_Encode Hardening Oidc Job_Queue Compliance Risk Sla Graph
begin

text \<open>
  The server of \<open>internal/api\<close>, first part: its state, what its handlers are given, and the helpers at
  the end of \<open>api.go\<close>.  Requests are served one after the other.  The state is the databases, the
  queue, the counters, the rate limiter's buckets and, with tokens, the verifier's key cache; the
  environment says, for the \<open>n\<close>-th request, what the clock, the identifier generator and the
  pings answer and whether the deadline of the timeout middleware passes (calls it cancels show as failing
  calls), and gives the texts of errors that come from libraries.  The router \<open>chi\<close> is a third-party
  package and a parameter: \<open>chi_route\<close> finds a pattern of a table, \<open>real_ip\<close> is the address that its
  middleware leaves in the request.
\<close>

section \<open>State\<close>

text \<open>The counters of \<open>observability.go\<close>.\<close>

record metrics =
  m_total :: int
  m_s2xx :: int
  m_s3xx :: int
  m_s4xx :: int
  m_s5xx :: int
  m_inFlight :: int

definition metrics_zero :: metrics where
  "metrics_zero = \<lparr>m_total = 0, m_s2xx = 0, m_s3xx = 0, m_s4xx = 0, m_s5xx = 0, m_inFlight = 0\<rparr>"

record core =
  s_db :: db
  s_graph :: graph
  s_redis :: redis

record local =
  l_metrics :: metrics
  l_limiter :: Limiter
  l_request :: nat

text \<open>The key cache first, as the token middleware has it; then what the databases hold, and the process.\<close>

type_synonym server = "key_cache \<times> core \<times> local"

datatype Provider = ApiKeys Authenticator | Tokens oidc_env OIDCVerifier

datatype route_result = Matched nat "(string \<times> string) list" | BadMethod "string list" | NoRoute

record api_env =
  wall :: "nat \<Rightarrow> time"
  fresh_uuid :: "nat \<Rightarrow> string"
  ping_db :: "nat \<Rightarrow> string option"
  ping_redis :: "nat \<Rightarrow> string option"
  deadline :: "nat \<Rightarrow> bool"
  db_text :: "nat \<Rightarrow> string"
  redis_text :: "nat \<Rightarrow> string"
  decode_text :: "request \<Rightarrow> string"
  quoted_text :: "string \<Rightarrow> string"
  feed :: Feed
  chi_route :: "(string \<times> string) list \<Rightarrow> string \<Rightarrow> string \<Rightarrow> route_result"
  real_ip :: "request \<Rightarrow> string"

text \<open>
  \<open>API\<close> and \<open>Options\<close>; the graph is optional.  The counters are in the state, and a queue is always there,
  as \<open>cmd/api\<close> makes it.
\<close>

record API =
  api_store :: env
  api_queue :: Queue
  api_graph :: "graph_env option"
  api_auth :: Provider
  api_CORSOrigins :: "string list"
  api_RateLimit :: f64
  api_env :: api_env

text \<open>Without a provider the keys are those of the empty setting: open access.\<close>

definition New :: "env \<Rightarrow> Queue \<Rightarrow> graph_env option \<Rightarrow> Provider option \<Rightarrow> string list \<Rightarrow> f64 \<Rightarrow> api_env \<Rightarrow> API" where
  "New st q g a origins rate E =
     \<lparr>api_store = st, api_queue = q, api_graph = g,
      api_auth = (case a of Some p \<Rightarrow> p | None \<Rightarrow> ApiKeys (fst (ParseKeys []))),
      api_CORSOrigins = origins, api_RateLimit = rate, api_env = E\<rparr>"

text \<open>A handler of a route, with the parameters its pattern binds.\<close>

type_synonym exchange = "Writer \<times> server"
type_synonym endpoint = "API \<Rightarrow> (string \<Rightarrow> string) \<Rightarrow> request \<Rightarrow> exchange \<Rightarrow> exchange"

fun core_of :: "exchange \<Rightarrow> core" where
  "core_of (w, kc, c, l) = c"

fun local_of :: "exchange \<Rightarrow> local" where
  "local_of (w, kc, c, l) = l"

definition on_core :: "(core \<Rightarrow> 'a \<times> core) \<Rightarrow> exchange \<Rightarrow> 'a \<times> exchange" where
  "on_core f x = (let (w, kc, c, l) = x; (r, c) = f c in (r, w, kc, c, l))"

definition with_store :: "(db \<Rightarrow> 'a \<times> db) \<Rightarrow> exchange \<Rightarrow> 'a \<times> exchange" where
  "with_store f = on_core (\<lambda>c. let (r, d) = f (s_db c) in (r, c\<lparr>s_db := d\<rparr>))"

definition with_graph :: "(graph \<Rightarrow> 'a \<times> graph) \<Rightarrow> exchange \<Rightarrow> 'a \<times> exchange" where
  "with_graph f = on_core (\<lambda>c. let (r, g) = f (s_graph c) in (r, c\<lparr>s_graph := g\<rparr>))"

definition with_queue :: "(redis \<Rightarrow> 'a \<times> redis) \<Rightarrow> exchange \<Rightarrow> 'a \<times> exchange" where
  "with_queue f = on_core (\<lambda>c. let (r, q) = f (s_redis c) in (r, c\<lparr>s_redis := q\<rparr>))"

definition reply :: "(Writer \<Rightarrow> Writer) \<Rightarrow> exchange \<Rightarrow> exchange" where
  "reply f x = (f (fst x), snd x)"

section \<open>Helpers\<close>

definition writeJSON :: "int \<Rightarrow> json option \<Rightarrow> Writer \<Rightarrow> Writer" where
  "writeJSON status v w =
     (let w = write_header status (header_set ''Content-Type'' ''application/json'' w)
      in case v of None \<Rightarrow> w | Some j \<Rightarrow> write_body (enc j @ [CHR 0x0A]) w)"

definition badRequest :: "string \<Rightarrow> Writer \<Rightarrow> Writer" where
  "badRequest msg = writeJSON 400 (j_map [(''error'', j_str msg)])"

definition serverError :: "string \<Rightarrow> Writer \<Rightarrow> Writer" where
  "serverError err = writeJSON 500 (j_map [(''error'', j_str err)])"

definition graphDisabled :: "Writer \<Rightarrow> Writer" where
  "graphDisabled = writeJSON 503 (j_map [(''error'', j_str ''graph component disabled (set AMANKAN_NEO4J_URI)'')])"

text \<open>The text of an error of the store.\<close>

definition store_err :: "API \<Rightarrow> exchange \<Rightarrow> store_error \<Rightarrow> string" where
  "store_err a x e = (case e of ErrNotFound \<Rightarrow> ''not found'' | DBError \<Rightarrow> db_text (api_env a) (tick (s_db (core_of x))))"

definition notFoundOrError :: "API \<Rightarrow> store_error \<Rightarrow> exchange \<Rightarrow> exchange" where
  "notFoundOrError a err x =
     reply (if err = ErrNotFound then writeJSON 404 (j_map [(''error'', j_str ''not found'')])
            else serverError (store_err a x err)) x"

definition storeError :: "API \<Rightarrow> store_error \<Rightarrow> exchange \<Rightarrow> exchange" where
  "storeError a err x = reply (serverError (store_err a x err)) x"

text \<open>
  \<open>decode\<close>: the first value of the body, as far as the cap on the body lets it be read, with unknown
  fields refused.  A literal that ends at the cap may go on behind it.
\<close>

definition decode :: "'a decoder \<Rightarrow> request \<Rightarrow> 'a \<Rightarrow> 'a \<times> bool" where
  "decode d r x =
     (case r_limit r of
        None \<Rightarrow> decode_first d (r_body r) x
      | Some n \<Rightarrow>
          if length (r_body r) \<le> nat n then decode_first d (r_body r) x
          else (case parse_first (take (nat n) (r_body r)) of
                  None \<Rightarrow> (x, True)
                | Some (v, rest) \<Rightarrow>
                    if rest = [] \<and> (case v of JNull \<Rightarrow> True | JBool _ \<Rightarrow> True | JNum _ \<Rightarrow> True | _ \<Rightarrow> False)
                    then (x, True) else d v x))"

definition query :: "request \<Rightarrow> string \<Rightarrow> string" where
  "query r k = get_first (r_query r) k"

definition defaultPageLimit :: int where "defaultPageLimit = 200"
definition maxPageLimit :: int where "maxPageLimit = 1000"

definition pageParams :: "request \<Rightarrow> int \<times> int" where
  "pageParams r =
     (let limit = defaultPageLimit;
          v = query r ''limit'';
          limit = (if v \<noteq> [] then (case atoi v of Some n \<Rightarrow> if 0 < n then n else limit | None \<Rightarrow> limit) else limit);
          limit = (if maxPageLimit < limit then maxPageLimit else limit);
          v = query r ''offset'';
          offset = (if v \<noteq> [] then (case atoi v of Some n \<Rightarrow> if 0 < n then n else 0 | None \<Rightarrow> 0) else 0)
      in (limit, offset))"

definition paginate :: "request \<Rightarrow> 'a list \<Rightarrow> Writer \<Rightarrow> 'a list \<times> Writer" where
  "paginate r items w =
     (let (limit, offset) = pageParams r;
          w = header_set ''X-Total-Count'' (itoa (int (length items))) w
      in if int (length items) \<le> offset then ([], w)
         else let end_pos = (if int (length items) < offset + limit then int (length items) else offset + limit)
              in (take (nat (end_pos - offset)) (drop (nat offset) items), w))"

definition enrichRuntime :: "Feed \<Rightarrow> time \<Rightarrow> Finding list \<Rightarrow> Finding list" where
  "enrichRuntime fd now =
     map (\<lambda>f.
       let f = f\<lparr>f_EPSS := EPSS fd (f_CVE f)\<rparr>;
           f = (if f_CVSSVector f = [] then f\<lparr>f_CVSSVector := RepresentativeVector (f_CWE f)\<rparr> else f);
           due = DueDate (f_Severity f) (f_CreatedAt f)
       in f\<lparr>f_DueDate := Some due, f_SLABreached := Breached (f_Status f) (f_Severity f) (f_CreatedAt f) now,
            f_SLADaysLeft := DaysRemaining (f_Severity f) (f_CreatedAt f) now\<rparr>)"

section \<open>The JSON of the data\<close>

definition asset_json :: "Asset \<Rightarrow> json option" where
  "asset_json a =
     j_obj [fld ''id'' (j_str (a_ID a)), fld ''name'' (j_str (a_Name a)), fld ''type'' (j_str (a_Type a)),
       fld ''target'' (j_str (a_Target a)), fld ''criticality'' (j_str (a_Criticality a)), fld ''tags'' (j_list j_str (a_Tags a)),
       fld ''scan_authorized'' (j_bool (a_ScanAuthorized a)), fld ''created_at'' (j_time (a_CreatedAt a))]"

text \<open>The scanners of a job are a nil slice when the row has none, and an empty one in the job just made.\<close>

definition job_json :: "bool \<Rightarrow> ScanJob \<Rightarrow> json option" where
  "job_json new j =
     j_obj [fld ''id'' (j_str (j_ID j)), fld ''asset_id'' (j_str (j_AssetID j)), fld ''profile'' (j_str (j_Profile j)),
       fld ''scanners'' (if new then j_list j_str (j_Scanners j) else j_slice j_str (j_Scanners j)),
       fld ''status'' (j_str (j_Status j)), str_fld ''error'' (j_Error j), fld ''used_mock'' (j_bool (j_UsedMock j)),
       fld ''created_at'' (j_time (j_CreatedAt j)),
       (case j_StartedAt j of None \<Rightarrow> [] | Some t \<Rightarrow> fld ''started_at'' (j_time t)),
       (case j_FinishedAt j of None \<Rightarrow> [] | Some t \<Rightarrow> fld ''finished_at'' (j_time t))]"

definition ref_json :: "ComplianceRef \<Rightarrow> json option" where
  "ref_json c = j_obj [fld ''framework'' (j_str (c_Framework c)), fld ''control'' (j_str (c_Control c)), fld ''title'' (j_str (c_Title c))]"

definition guide_json :: "RemediationGuide \<Rightarrow> json option" where
  "guide_json g =
     j_obj [fld ''summary'' (j_str (g_Summary g)), fld ''steps'' (j_slice j_str (g_Steps g)),
       opt_fld (g_Refs g \<noteq> []) ''refs'' (j_list j_str (g_Refs g))]"

definition finding_json :: "Finding \<Rightarrow> json option" where
  "finding_json f =
     j_obj [fld ''id'' (j_str (f_ID f)), fld ''scan_job_id'' (j_str (f_ScanJobID f)), fld ''asset_id'' (j_str (f_AssetID f)),
       fld ''scanner'' (j_str (f_Scanner f)), fld ''title'' (j_str (f_Title f)), fld ''description'' (j_str (f_Desc f)),
       fld ''severity'' (j_str (f_Severity f)), fld ''cvss'' (j_float (f_CVSS f)), str_fld ''cvss_vector'' (f_CVSSVector f),
       str_fld ''cve'' (f_CVE f), str_fld ''cwe'' (f_CWE f), opt_fld (f_Port f \<noteq> 0) ''port'' (j_int (f_Port f)),
       str_fld ''service'' (f_Service f), str_fld ''evidence'' (f_Evidence f), fld ''status'' (j_str (f_Status f)),
       fld ''risk_score'' (j_float (f_RiskScore f)), fld ''known_exploit'' (j_bool (f_KnownExploit f)),
       opt_fld (f_Compliance f \<noteq> []) ''compliance'' (j_list ref_json (f_Compliance f)),
       (case f_Remediation f of None \<Rightarrow> [] | Some g \<Rightarrow> fld ''remediation'' (guide_json g)),
       opt_fld (f_EPSS f \<noteq> Fin 0) ''epss'' (j_float (f_EPSS f)),
       (case f_DueDate f of None \<Rightarrow> [] | Some t \<Rightarrow> fld ''due_date'' (j_time t)),
       fld ''sla_breached'' (j_bool (f_SLABreached f)), fld ''sla_days_left'' (j_int (f_SLADaysLeft f)),
       str_fld ''principal'' (f_Principal f), str_fld ''cred_fp'' (f_CredFP f), fld ''created_at'' (j_time (f_CreatedAt f))]"

definition entry_json :: "AuditEntry \<Rightarrow> json option" where
  "entry_json e =
     j_obj [fld ''seq'' (j_int (e_Seq e)), fld ''ts'' (j_time (e_TS e)), fld ''actor'' (j_str (e_Actor e)), fld ''role'' (j_str (e_Role e)),
       fld ''method'' (j_str (e_Method e)), fld ''path'' (j_str (e_Path e)), fld ''status'' (j_int (e_Status e)),
       fld ''remote_ip'' (j_str (e_RemoteIP e)), fld ''prev_hash'' (j_str (e_PrevHash e)), fld ''hash'' (j_str (e_Hash e))]"

definition account_json :: "Account \<Rightarrow> json option" where
  "account_json a =
     j_obj [fld ''id'' (j_str (acc_ID a)), fld ''username'' (j_str (acc_Username a)), fld ''privilege'' (j_str (acc_Privilege a)),
       fld ''asset_id'' (j_str (acc_AssetID a))]"

definition hop_json :: "Hop \<Rightarrow> json option" where
  "hop_json h =
     j_obj [fld ''asset_id'' (j_str (h_AssetID h)), fld ''asset_name'' (j_str (h_AssetName h)), fld ''criticality'' (j_str (h_Criticality h)),
       fld ''exposure'' (j_str (h_Exposure h)), str_fld ''via_vuln_title'' (h_ViaVulnTitle h), str_fld ''via_vuln_cwe'' (h_ViaVulnCWE h),
       fld ''via_vuln_risk'' (j_float (h_ViaVulnRisk h))]"

definition path_json :: "AttackPath \<Rightarrow> json option" where
  "path_json p =
     j_obj [fld ''hops'' (j_slice hop_json (ap_Hops p)), fld ''length'' (j_int (ap_Length p)), fld ''max_risk'' (j_float (ap_MaxRisk p)),
       fld ''path_risk'' (j_float (ap_PathRisk p))]"

definition step_json :: "PrivEscStep \<Rightarrow> json option" where
  "step_json s =
     j_obj [fld ''type'' (j_str (ps_Type s)), str_fld ''technique'' (ps_Technique s), str_fld ''cwe'' (ps_CWE s),
       fld ''weight'' (j_float (ps_Weight s))]"

definition node_json :: "PrivEscNode \<Rightarrow> json option" where
  "node_json n =
     j_obj [fld ''account_id'' (j_str (pn_AccountID n)), fld ''username'' (j_str (pn_Username n)), fld ''privilege'' (j_str (pn_Privilege n)),
       fld ''asset'' (j_str (pn_Asset n))]"

definition privesc_json :: "PrivEscPath \<Rightarrow> json option" where
  "privesc_json p =
     j_obj [fld ''accounts'' (j_slice node_json (pp_Accounts p)), fld ''steps'' (j_slice step_json (pp_Steps p)),
       fld ''total_cost'' (j_float (pp_TotalCost p)), fld ''found'' (j_bool (pp_Found p))]"

definition export_node_json :: "ExportNode \<Rightarrow> json option" where
  "export_node_json n =
     j_obj [fld ''id'' (j_str (xn_ID n)), fld ''type'' (j_str (xn_Type n)), fld ''label'' (j_str (xn_Label n)),
       str_fld ''criticality'' (xn_Criticality n), str_fld ''exposure'' (xn_Exposure n), str_fld ''privilege'' (xn_Privilege n),
       str_fld ''severity'' (xn_Severity n), opt_fld (xn_Risk n \<noteq> Fin 0) ''risk'' (j_float (xn_Risk n))]"

definition export_edge_json :: "ExportEdge \<Rightarrow> json option" where
  "export_edge_json e =
     j_obj [fld ''type'' (j_str (xe_Type e)), fld ''source'' (j_str (xe_Source e)), fld ''target'' (j_str (xe_Target e)),
       opt_fld (xe_Weight e \<noteq> Fin 0) ''weight'' (j_float (xe_Weight e)), str_fld ''technique'' (xe_Technique e),
       str_fld ''cwe'' (xe_CWE e), str_fld ''via'' (xe_Via e), opt_fld (xe_Port e \<noteq> 0) ''port'' (j_int (xe_Port e))]"

end
