(* ===== verification/Api_Handlers.thy ===== *)
theory Api_Handlers
  imports Api_Base
begin

text \<open>
  The handlers of \<open>internal/api/api.go\<close>, \<open>audit.go\<close> and \<open>observability.go\<close>, in the order of the files.
  The parameters a route binds come as the function \<open>ps\<close>.
\<close>

section \<open>Assets\<close>

record asset_input =
  ai_Name :: string
  ai_Type :: AssetType
  ai_Target :: string
  ai_Criticality :: Criticality
  ai_Tags :: "string list"
  ai_ScanAuthorized :: bool

definition asset_input_fields :: "(string \<times> asset_input decoder) list" where
  "asset_input_fields =
     [(''name'', on_field ai_Name (\<lambda>x. ai_Name_update (\<lambda>_. x)) dec_string),
      (''type'', on_field ai_Type (\<lambda>x. ai_Type_update (\<lambda>_. x)) dec_string),
      (''target'', on_field ai_Target (\<lambda>x. ai_Target_update (\<lambda>_. x)) dec_string),
      (''criticality'', on_field ai_Criticality (\<lambda>x. ai_Criticality_update (\<lambda>_. x)) dec_string),
      (''tags'', on_field ai_Tags (\<lambda>x. ai_Tags_update (\<lambda>_. x)) (dec_list [] dec_string)),
      (''scan_authorized'', on_field ai_ScanAuthorized (\<lambda>x. ai_ScanAuthorized_update (\<lambda>_. x)) dec_bool)]"

definition new_asset :: "asset_input \<Rightarrow> Asset" where
  "new_asset i =
     \<lparr>a_ID = [], a_Name = ai_Name i, a_Type = (if ai_Type i = [] then AssetDomain else ai_Type i), a_Target = ai_Target i,
      a_Criticality = (if ai_Criticality i = [] then CritMedium else ai_Criticality i), a_Tags = ai_Tags i,
      a_ScanAuthorized = ai_ScanAuthorized i, a_CreatedAt = 0\<rparr>"

definition createAsset :: endpoint where
  "createAsset a ps r x =
     (case decode (dec_struct True asset_input_fields) r
             \<lparr>ai_Name = [], ai_Type = [], ai_Target = [], ai_Criticality = [], ai_Tags = [], ai_ScanAuthorized = False\<rparr> of
        (i, True) \<Rightarrow> reply (badRequest (decode_text (api_env a) r)) x
      | (i, False) \<Rightarrow>
          if ai_Name i = [] \<or> ai_Target i = [] then reply (badRequest ''name and target are required'') x
          else (case with_store (CreateAsset (api_store a) (new_asset i)) x of
                  (Inl err, x) \<Rightarrow> storeError a err x
                | (Inr asset, x) \<Rightarrow> reply (writeJSON 201 (asset_json asset)) x))"

definition listAssets :: endpoint where
  "listAssets a ps r x =
     (case with_store (ListAssets (api_store a)) x of
        (Inl err, x) \<Rightarrow> storeError a err x
      | (Inr rows, x) \<Rightarrow>
          let (page, w) = paginate r rows (fst x) in (writeJSON 200 (j_list asset_json page) w, snd x))"

definition getAsset :: endpoint where
  "getAsset a ps r x =
     (case with_store (GetAsset (api_store a) (ps ''id'')) x of
        (Inl err, x) \<Rightarrow> notFoundOrError a err x
      | (Inr asset, x) \<Rightarrow> reply (writeJSON 200 (asset_json asset)) x)"

definition authorizeAsset :: endpoint where
  "authorizeAsset a ps r x =
     (case decode (dec_struct True [(''authorized'', dec_bool)]) r False of
        (b, True) \<Rightarrow> reply (badRequest (decode_text (api_env a) r)) x
      | (b, False) \<Rightarrow>
          (case with_store (SetAssetAuthorization (api_store a) (ps ''id'') b) x of
             (Inl err, x) \<Rightarrow> notFoundOrError a err x
           | (Inr _, x) \<Rightarrow>
               reply (writeJSON 200 (j_map [(''id'', j_str (ps ''id'')), (''scan_authorized'', j_bool b)])) x))"

section \<open>Scans\<close>

text \<open>The body is optional: an error of decoding it is ignored.\<close>

definition startScan :: endpoint where
  "startScan a ps r x =
     (case with_store (GetAsset (api_store a) (ps ''id'')) x of
        (Inl err, x) \<Rightarrow> notFoundOrError a err x
      | (Inr asset, x) \<Rightarrow>
          let profile = fst (decode (dec_struct True [(''profile'', dec_string)]) r []);
              profile = (if profile = [] then ProfileQuick else profile);
              job = \<lparr>j_ID = [], j_AssetID = a_ID asset, j_Profile = profile, j_Scanners = [], j_Status = [], j_Error = [],
                     j_UsedMock = False, j_CreatedAt = 0, j_StartedAt = None, j_FinishedAt = None\<rparr>
          in (case with_store (CreateScanJob (api_store a) job) x of
                (Inl err, x) \<Rightarrow> storeError a err x
              | (Inr job, x) \<Rightarrow>
                  (case with_queue (Enqueue (api_queue a) (j_ID job)) x of
                     (Inl _, x) \<Rightarrow> reply (serverError (redis_text (api_env a) (redis_tick (s_redis (core_of x))))) x
                   | (Inr _, x) \<Rightarrow> reply (writeJSON 202 (job_json True job)) x)))"

definition listScans :: endpoint where
  "listScans a ps r x =
     (case with_store (ListScanJobs (api_store a)) x of
        (Inl err, x) \<Rightarrow> storeError a err x
      | (Inr jobs, x) \<Rightarrow>
          let (page, w) = paginate r jobs (fst x) in (writeJSON 200 (j_list (job_json False) page) w, snd x))"

definition getScan :: endpoint where
  "getScan a ps r x =
     (case with_store (GetScanJob (api_store a) (ps ''id'')) x of
        (Inl err, x) \<Rightarrow> notFoundOrError a err x
      | (Inr job, x) \<Rightarrow> reply (writeJSON 200 (job_json False job)) x)"

section \<open>Findings\<close>

definition request_time :: "API \<Rightarrow> exchange \<Rightarrow> time" where
  "request_time a x = wall (api_env a) (l_request (local_of x))"

definition listFindings :: endpoint where
  "listFindings a ps r x =
     (let (limit, offset) = pageParams r
      in case with_store (ListFindings (api_store a) (query r ''asset_id'') (query r ''scan_id'') limit offset) x of
           (Inl err, x) \<Rightarrow> storeError a err x
         | (Inr fs, x) \<Rightarrow>
             reply (writeJSON 200 (j_list finding_json (enrichRuntime (feed (api_env a)) (request_time a x) fs))) x)"

definition updateFindingStatus :: endpoint where
  "updateFindingStatus a ps r x =
     (case decode (dec_struct True [(''status'', dec_string)]) r [] of
        (st, True) \<Rightarrow> reply (badRequest (decode_text (api_env a) r)) x
      | (st, False) \<Rightarrow>
          if st \<notin> {FindingOpen, FindingValidated, FindingFalsePositive, FindingRemediated}
          then reply (badRequest ''invalid status'') x
          else (case with_store (UpdateFindingStatus (api_store a) (ps ''id'') st) x of
                  (Inl err, x) \<Rightarrow> notFoundOrError a err x
                | (Inr _, x) \<Rightarrow> reply (writeJSON 200 (j_map [(''status'', j_str st)])) x))"

definition frameworkControl :: "ComplianceRef list \<Rightarrow> string \<Rightarrow> string" where
  "frameworkControl refs framework =
     (case find (\<lambda>c. c_Framework c = framework) refs of Some c \<Rightarrow> c_Control c | None \<Rightarrow> [])"

definition remediationSummary :: "RemediationGuide option \<Rightarrow> string" where
  "remediationSummary rem = (case rem of None \<Rightarrow> [] | Some g \<Rightarrow> g_Summary g)"

definition csv_header :: "string list" where
  "csv_header =
     [''risk_score'', ''severity'', ''known_exploit'', ''epss'', ''status'', ''scanner'',
      ''title'', ''cwe'', ''cve'', ''cvss'', ''cvss_vector'', ''port'', ''service'',
      ''due_date'', ''sla_breached'', ''iso27001'', ''bssn'', ''remediation'']"

definition csv_row :: "Finding \<Rightarrow> string list" where
  "csv_row f =
     (let due = (case f_DueDate f of None \<Rightarrow> [] | Some t \<Rightarrow> format_date t)
      in [format_float (f_RiskScore f), f_Severity f, format_bool (f_KnownExploit f), format_float (f_EPSS f), f_Status f,
          f_Scanner f, f_Title f, f_CWE f, f_CVE f, format_float (f_CVSS f), f_CVSSVector f, itoa (f_Port f), f_Service f,
          due, format_bool (f_SLABreached f), frameworkControl (f_Compliance f) ''ISO27001'',
          frameworkControl (f_Compliance f) ''BSSN'', remediationSummary (f_Remediation f)])"

definition exportFindings :: endpoint where
  "exportFindings a ps r x =
     (case with_store (ListFindings (api_store a) (query r ''asset_id'') (query r ''scan_id'') 0 0) x of
        (Inl err, x) \<Rightarrow> storeError a err x
      | (Inr fs, x) \<Rightarrow>
          reply (\<lambda>w.
            let w = header_set ''Content-Type'' ''text/csv; charset=utf-8'' w;
                w = header_set ''Content-Disposition'' ''attachment; filename=\"amankan-findings.csv\"'' w
            in write_body (concat (map csv_record (csv_header # map csv_row
                 (enrichRuntime (feed (api_env a)) (request_time a x) fs)))) w) x)"

section \<open>Compliance\<close>

definition complianceForCWE :: endpoint where
  "complianceForCWE a ps r x =
     (let cwe = ps ''cwe''
      in reply (writeJSON 200 (j_map [(''cwe'', j_str cwe), (''compliance'', j_list ref_json (Refs cwe)),
                                      (''remediation'', guide_json (Remediation cwe))])) x)"

section \<open>The graph\<close>

text \<open>The first thing the graph's handlers do.\<close>

definition with_graph_enabled :: "API \<Rightarrow> (graph_env \<Rightarrow> exchange \<Rightarrow> exchange) \<Rightarrow> exchange \<Rightarrow> exchange" where
  "with_graph_enabled a h x = (case api_graph a of None \<Rightarrow> reply graphDisabled x | Some g \<Rightarrow> h g x)"

text \<open>The two loops of \<open>graphSync\<close>: the first error ends them, and is the answer.\<close>

fun sync_findings :: "graph_env \<Rightarrow> Finding list \<Rightarrow> int \<Rightarrow> exchange \<Rightarrow> (string + int) \<times> exchange" where
  "sync_findings g [] n x = (Inr n, x)"
| "sync_findings g (f # fs) n x =
     (case with_graph (SyncFinding g f) x of
        (Inl err, x) \<Rightarrow> (Inl err, x)
      | (Inr _, x) \<Rightarrow> sync_findings g fs (n + 1) x)"

fun sync_assets :: "API \<Rightarrow> graph_env \<Rightarrow> Asset list \<Rightarrow> int \<Rightarrow> int \<Rightarrow> exchange \<Rightarrow> (string + int \<times> int) \<times> exchange" where
  "sync_assets a g [] m n x = (Inr (m, n), x)"
| "sync_assets a g (as # ass) m n x =
     (case with_graph (SyncAsset g as) x of
        (Inl err, x) \<Rightarrow> (Inl err, x)
      | (Inr _, x) \<Rightarrow>
          (case with_store (ListFindings (api_store a) (a_ID as) [] 0 0) x of
             (Inl err, x) \<Rightarrow> (Inl (store_err a x err), x)
           | (Inr fs, x) \<Rightarrow>
               (case sync_findings g fs n x of
                  (Inl err, x) \<Rightarrow> (Inl err, x)
                | (Inr n, x) \<Rightarrow> sync_assets a g ass (m + 1) n x)))"

definition graphSync :: endpoint where
  "graphSync a ps r = with_graph_enabled a (\<lambda>g x.
     case with_store (ListAssets (api_store a)) x of
       (Inl err, x) \<Rightarrow> storeError a err x
     | (Inr rows, x) \<Rightarrow>
         (case sync_assets a g rows 0 0 x of
            (Inl err, x) \<Rightarrow> reply (serverError err) x
          | (Inr (m, n), x) \<Rightarrow> reply (writeJSON 200 (j_map [(''assets'', j_int m), (''vulnerabilities'', j_int n)])) x))"

record edge_input =
  ei_From :: string
  ei_To :: string
  ei_Port :: int
  ei_Proto :: string

definition edge_fields :: "(string \<times> edge_input decoder) list" where
  "edge_fields =
     [(''from'', on_field ei_From (\<lambda>x. ei_From_update (\<lambda>_. x)) dec_string),
      (''to'', on_field ei_To (\<lambda>x. ei_To_update (\<lambda>_. x)) dec_string),
      (''port'', on_field ei_Port (\<lambda>x. ei_Port_update (\<lambda>_. x)) dec_int),
      (''proto'', on_field ei_Proto (\<lambda>x. ei_Proto_update (\<lambda>_. x)) dec_string)]"

definition topology_decoder :: "edge_input list decoder" where
  "topology_decoder =
     dec_struct True
       [(''edges'', dec_list \<lparr>ei_From = [], ei_To = [], ei_Port = 0, ei_Proto = []\<rparr> (dec_struct True edge_fields))]"

definition resolveAsset :: "API \<Rightarrow> string \<Rightarrow> exchange \<Rightarrow> (store_error + Asset) \<times> exchange" where
  "resolveAsset a rf x =
     (case with_store (GetAsset (api_store a) rf) x of
        (Inr asset, x) \<Rightarrow> (Inr asset, x)
      | (Inl _, x) \<Rightarrow> with_store (GetAssetByTarget (api_store a) rf) x)"

text \<open>The loop over the edges: an asset that is not found is a problem, an error of the last statement ends it.\<close>

fun import_edges ::
  "API \<Rightarrow> graph_env \<Rightarrow> nat \<Rightarrow> edge_input list \<Rightarrow> int \<Rightarrow> string list \<Rightarrow> exchange \<Rightarrow> (string + int \<times> string list) \<times> exchange" where
  "import_edges a g i [] imported problems x = (Inr (imported, problems), x)"
| "import_edges a g i (e # es) imported problems x =
     (case resolveAsset a (ei_From e) x of
        (Inl _, x) \<Rightarrow>
          import_edges a g (Suc i) es imported
            (problems @ [''edge '' @ show_nat i @ '': from '' @ quoted_text (api_env a) (ei_From e) @ '' not found'']) x
      | (Inr src, x) \<Rightarrow>
          (case resolveAsset a (ei_To e) x of
             (Inl _, x) \<Rightarrow>
               import_edges a g (Suc i) es imported
                 (problems @ [''edge '' @ show_nat i @ '': to '' @ quoted_text (api_env a) (ei_To e) @ '' not found'']) x
           | (Inr dst, x) \<Rightarrow>
               let x = snd (with_graph (SyncAsset g src) x);
                   x = snd (with_graph (SyncAsset g dst) x);
                   proto = (if ei_Proto e = [] then ''tcp'' else ei_Proto e)
               in (case with_graph (UpsertReachability g (a_ID src) (a_ID dst) (ei_Port e) proto) x of
                     (Inl err, x) \<Rightarrow> (Inl err, x)
                   | (Inr _, x) \<Rightarrow> import_edges a g (Suc i) es (imported + 1) problems x)))"

definition importTopology :: endpoint where
  "importTopology a ps r = with_graph_enabled a (\<lambda>g x.
     case decode topology_decoder r [] of
       (es, True) \<Rightarrow> reply (badRequest (decode_text (api_env a) r)) x
     | (es, False) \<Rightarrow>
         (case import_edges a g 0 es 0 [] x of
            (Inl err, x) \<Rightarrow> reply (serverError err) x
          | (Inr (imported, problems), x) \<Rightarrow>
              reply (writeJSON 200 (j_map [(''imported'', j_int imported), (''problems'', j_slice j_str problems)])) x))"

definition exportGraph :: endpoint where
  "exportGraph a ps r = with_graph_enabled a (\<lambda>g x.
     case with_graph (ExportGraph g) x of
       ((Some err, _), x) \<Rightarrow> reply (serverError err) x
     | ((None, nodes, edges), x) \<Rightarrow>
         reply (writeJSON 200 (j_obj [fld ''nodes'' (j_list export_node_json nodes), fld ''edges'' (j_list export_edge_json edges)])) x)"

record reach_input =
  ri_TargetID :: string
  ri_Port :: int
  ri_Proto :: string

definition reach_fields :: "(string \<times> reach_input decoder) list" where
  "reach_fields =
     [(''target_id'', on_field ri_TargetID (\<lambda>x. ri_TargetID_update (\<lambda>_. x)) dec_string),
      (''port'', on_field ri_Port (\<lambda>x. ri_Port_update (\<lambda>_. x)) dec_int),
      (''proto'', on_field ri_Proto (\<lambda>x. ri_Proto_update (\<lambda>_. x)) dec_string)]"

definition addReachability :: endpoint where
  "addReachability a ps r = with_graph_enabled a (\<lambda>g x.
     let srcID = ps ''id''
     in case decode (dec_struct True reach_fields) r \<lparr>ri_TargetID = [], ri_Port = 0, ri_Proto = []\<rparr> of
          (i, True) \<Rightarrow> reply (badRequest (decode_text (api_env a) r)) x
        | (i, False) \<Rightarrow>
            if ri_TargetID i = [] then reply (badRequest ''target_id is required'') x
            else let proto = (if ri_Proto i = [] then ''tcp'' else ri_Proto i)
            in (case with_store (GetAsset (api_store a) srcID) x of
                  (Inl err, x) \<Rightarrow> notFoundOrError a err x
                | (Inr _, x) \<Rightarrow>
                    (case with_store (GetAsset (api_store a) (ri_TargetID i)) x of
                       (Inl err, x) \<Rightarrow> notFoundOrError a err x
                     | (Inr _, x) \<Rightarrow>
                         (case with_graph (UpsertReachability g srcID (ri_TargetID i) (ri_Port i) proto) x of
                            (Inl err, x) \<Rightarrow> reply (serverError err) x
                          | (Inr _, x) \<Rightarrow>
                              reply (writeJSON 201 (j_map [(''from'', j_str srcID), (''to'', j_str (ri_TargetID i)),
                                (''port'', j_int (ri_Port i)), (''proto'', j_str proto)])) x))))"

definition attackPaths :: endpoint where
  "attackPaths a ps r = with_graph_enabled a (\<lambda>g x.
     let targetID = ps ''id''
     in case with_store (GetAsset (api_store a) targetID) x of
          (Inl err, x) \<Rightarrow> notFoundOrError a err x
        | (Inr _, x) \<Rightarrow>
            let v = query r ''min_risk'';
                minRisk = (if v \<noteq> [] then (case parse_float v of Some f \<Rightarrow> f | None \<Rightarrow> Fin 7) else Fin 7);
                v = query r ''max_hops'';
                maxHops = (if v \<noteq> [] then (case atoi v of Some n \<Rightarrow> n | None \<Rightarrow> 4) else 4)
            in (case with_graph (FindAttackPaths g targetID minRisk maxHops) x of
                  (Inl err, x) \<Rightarrow> reply (serverError err) x
                | (Inr paths, x) \<Rightarrow>
                    reply (writeJSON 200 (j_map [(''target_id'', j_str targetID), (''min_risk'', j_float minRisk),
                      (''max_hops'', j_int maxHops), (''count'', j_int (int (length paths))),
                      (''paths'', j_list path_json paths)])) x))"

section \<open>Accounts\<close>

definition validPrivileges :: "string list" where
  "validPrivileges = [''user'', ''service'', ''admin'', ''root'', ''domain_admin'']"

definition listAccounts :: endpoint where
  "listAccounts a ps r = with_graph_enabled a (\<lambda>g x.
     let assetID = ps ''id''
     in case with_store (GetAsset (api_store a) assetID) x of
          (Inl err, x) \<Rightarrow> notFoundOrError a err x
        | (Inr _, x) \<Rightarrow>
            (case with_graph (ListAccounts g assetID) x of
               (Inl err, x) \<Rightarrow> reply (serverError err) x
             | (Inr accounts, x) \<Rightarrow> reply (writeJSON 200 (j_list account_json accounts)) x))"

record account_input =
  ci_AssetID :: string
  ci_Username :: string
  ci_Privilege :: string

definition account_fields :: "(string \<times> account_input decoder) list" where
  "account_fields =
     [(''asset_id'', on_field ci_AssetID (\<lambda>x. ci_AssetID_update (\<lambda>_. x)) dec_string),
      (''username'', on_field ci_Username (\<lambda>x. ci_Username_update (\<lambda>_. x)) dec_string),
      (''privilege'', on_field ci_Privilege (\<lambda>x. ci_Privilege_update (\<lambda>_. x)) dec_string)]"

definition createAccount :: endpoint where
  "createAccount a ps r = with_graph_enabled a (\<lambda>g x.
     case decode (dec_struct True account_fields) r \<lparr>ci_AssetID = [], ci_Username = [], ci_Privilege = []\<rparr> of
       (i, True) \<Rightarrow> reply (badRequest (decode_text (api_env a) r)) x
     | (i, False) \<Rightarrow>
         if ci_AssetID i = [] \<or> ci_Username i = [] then reply (badRequest ''asset_id and username are required'') x
         else let privilege = (if ci_Privilege i = [] then ''user'' else ci_Privilege i)
         in if privilege \<notin> set validPrivileges
            then reply (badRequest ''invalid privilege (user|service|admin|root|domain_admin)'') x
            else (case with_store (GetAsset (api_store a) (ci_AssetID i)) x of
                    (Inl err, x) \<Rightarrow> notFoundOrError a err x
                  | (Inr asset, x) \<Rightarrow>
                      (case with_graph (SyncAsset g asset) x of
                         (Inl err, x) \<Rightarrow> reply (serverError err) x
                       | (Inr _, x) \<Rightarrow>
                           let acc = \<lparr>acc_ID = fresh_uuid (api_env a) (l_request (local_of x)), acc_Username = ci_Username i,
                                      acc_Privilege = privilege, acc_AssetID = ci_AssetID i\<rparr>
                           in (case with_graph (SyncAccount g acc) x of
                                 (Inl err, x) \<Rightarrow> reply (serverError err) x
                               | (Inr _, x) \<Rightarrow> reply (writeJSON 201 (account_json acc)) x))))"

record escalation_input =
  xi_TargetAccountID :: string
  xi_Technique :: string
  xi_CWE :: string
  xi_Weight :: f64

definition escalation_fields :: "(string \<times> escalation_input decoder) list" where
  "escalation_fields =
     [(''target_account_id'', on_field xi_TargetAccountID (\<lambda>x. xi_TargetAccountID_update (\<lambda>_. x)) dec_string),
      (''technique'', on_field xi_Technique (\<lambda>x. xi_Technique_update (\<lambda>_. x)) dec_string),
      (''cwe'', on_field xi_CWE (\<lambda>x. xi_CWE_update (\<lambda>_. x)) dec_string),
      (''weight'', on_field xi_Weight (\<lambda>x. xi_Weight_update (\<lambda>_. x)) dec_float)]"

definition accounts_missing :: "Writer \<Rightarrow> Writer" where
  "accounts_missing = writeJSON 404 (j_map [(''error'', j_str ''one or both accounts not found'')])"

definition addEscalation :: endpoint where
  "addEscalation a ps r = with_graph_enabled a (\<lambda>g x.
     case decode (dec_struct True escalation_fields) r \<lparr>xi_TargetAccountID = [], xi_Technique = [], xi_CWE = [], xi_Weight = Fin 0\<rparr> of
       (i, True) \<Rightarrow> reply (badRequest (decode_text (api_env a) r)) x
     | (i, False) \<Rightarrow>
         if xi_TargetAccountID i = [] then reply (badRequest ''target_account_id is required'') x
         else let weight = (if xi_Weight i \<le> Fin 0 then Fin 1 else xi_Weight i)
         in (case with_graph (UpsertEscalation g (ps ''id'') (xi_TargetAccountID i) (xi_Technique i) (xi_CWE i) weight) x of
               (Inl err, x) \<Rightarrow> reply (serverError err) x
             | (Inr ok, x) \<Rightarrow>
                 if \<not> ok then reply accounts_missing x
                 else reply (writeJSON 201 (j_map [(''from'', j_str (ps ''id'')), (''to'', j_str (xi_TargetAccountID i)),
                        (''type'', j_str ''CAN_ESCALATE''), (''technique'', j_str (xi_Technique i)), (''weight'', j_float weight)])) x))"

record credential_input =
  di_TargetAccountID :: string
  di_Weight :: f64

definition credential_input_fields :: "(string \<times> credential_input decoder) list" where
  "credential_input_fields =
     [(''target_account_id'', on_field di_TargetAccountID (\<lambda>x. di_TargetAccountID_update (\<lambda>_. x)) dec_string),
      (''weight'', on_field di_Weight (\<lambda>x. di_Weight_update (\<lambda>_. x)) dec_float)]"

definition addCredentialReuse :: endpoint where
  "addCredentialReuse a ps r = with_graph_enabled a (\<lambda>g x.
     case decode (dec_struct True credential_input_fields) r \<lparr>di_TargetAccountID = [], di_Weight = Fin 0\<rparr> of
       (i, True) \<Rightarrow> reply (badRequest (decode_text (api_env a) r)) x
     | (i, False) \<Rightarrow>
         if di_TargetAccountID i = [] then reply (badRequest ''target_account_id is required'') x
         else let weight = (if di_Weight i \<le> Fin 0 then Fin 3 else di_Weight i)
         in (case with_graph (UpsertCredentialReuse g (ps ''id'') (di_TargetAccountID i) weight) x of
               (Inl err, x) \<Rightarrow> reply (serverError err) x
             | (Inr ok, x) \<Rightarrow>
                 if \<not> ok then reply accounts_missing x
                 else reply (writeJSON 201 (j_map [(''from'', j_str (ps ''id'')), (''to'', j_str (di_TargetAccountID i)),
                        (''type'', j_str ''CREDENTIAL_REUSE''), (''weight'', j_float weight)])) x))"

definition privEscPath :: endpoint where
  "privEscPath a ps r = with_graph_enabled a (\<lambda>g x.
     let from_id = query r ''from''; to_id = query r ''to''
     in if from_id = [] \<or> to_id = [] then reply (badRequest ''from and to query params are required'') x
        else (case with_graph (FindPrivEscPath g from_id to_id) x of
                (Inl err, x) \<Rightarrow> reply (serverError err) x
              | (Inr path, x) \<Rightarrow> reply (writeJSON 200 (privesc_json path)) x))"

section \<open>Service endpoints\<close>

definition health :: endpoint where
  "health a ps r = reply (writeJSON 200 (j_map [(''status'', j_str ''ok'')]))"

definition securityTxt :: endpoint where
  "securityTxt a ps r = reply (\<lambda>w.
     write_body (''Contact: mailto:security@amankan.example'' @ [CHR 0x0A] @
                 ''Expires: 2027-12-31T23:59:59Z'' @ [CHR 0x0A] @
                 ''Preferred-Languages: en, id'' @ [CHR 0x0A] @
                 ''Policy: https://github.com/amankan/amankan/blob/main/SECURITY.md'' @ [CHR 0x0A])
       (header_set ''Content-Type'' ''text/plain; charset=utf-8'' w))"

definition metrics_text :: "metrics \<Rightarrow> string" where
  "metrics_text m =
     ''# HELP amankan_http_requests_total Total HTTP requests by status class.'' @ [CHR 0x0A] @
     ''# TYPE amankan_http_requests_total counter'' @ [CHR 0x0A] @
     ''amankan_http_requests_total{class=\"2xx\"} '' @ itoa (m_s2xx m) @ [CHR 0x0A] @
     ''amankan_http_requests_total{class=\"3xx\"} '' @ itoa (m_s3xx m) @ [CHR 0x0A] @
     ''amankan_http_requests_total{class=\"4xx\"} '' @ itoa (m_s4xx m) @ [CHR 0x0A] @
     ''amankan_http_requests_total{class=\"5xx\"} '' @ itoa (m_s5xx m) @ [CHR 0x0A] @
     ''# HELP amankan_http_in_flight In-flight HTTP requests.'' @ [CHR 0x0A] @
     ''# TYPE amankan_http_in_flight gauge'' @ [CHR 0x0A] @
     ''amankan_http_in_flight '' @ itoa (m_inFlight m) @ [CHR 0x0A]"

definition handleMetrics :: endpoint where
  "handleMetrics a ps r x = reply (\<lambda>w.
     write_body (metrics_text (l_metrics (local_of x)))
       (header_set ''Content-Type'' ''text/plain; version=0.0.4; charset=utf-8'' w)) x"

definition handleReadyz :: endpoint where
  "handleReadyz a ps r x =
     (let n = l_request (local_of x);
          d = ping_db (api_env a) n; q = ping_redis (api_env a) n;
          ready = (d = None \<and> q = None);
          text = (\<lambda>e. case e of None \<Rightarrow> ''ok'' | Some err \<Rightarrow> err)
      in reply (writeJSON (if ready then 200 else 503)
           (j_map [(''ready'', j_bool ready), (''checks'', j_map [(''database'', j_str (text d)), (''redis'', j_str (text q))])])) x)"

section \<open>The audit trail\<close>

definition listAudit :: endpoint where
  "listAudit a ps r x =
     (let v = query r ''limit'';
          limit = (if v \<noteq> [] then (case atoi v of Some n \<Rightarrow> n | None \<Rightarrow> 200) else 200)
      in case with_store (ListAudit (api_store a) limit) x of
           (Inl err, x) \<Rightarrow> storeError a err x
         | (Inr entries, x) \<Rightarrow> reply (writeJSON 200 (j_slice entry_json entries)) x)"

definition verifyAudit :: endpoint where
  "verifyAudit a ps r x =
     (case with_store (AllAuditForVerify (api_store a)) x of
        (Inl err, x) \<Rightarrow> storeError a err x
      | (Inr entries, x) \<Rightarrow>
          let (ok, brokenAt) = VerifyChain entries
          in reply (writeJSON 200 (j_map [(''intact'', j_bool ok), (''entries'', j_int (int (length entries))),
               (''broken_at_seq'', if ok then Some JNull else j_int brokenAt)])) x)"

end
