(* ===== verification/Api_Router.thy ===== *)
theory Api_Router
  imports Api_Handlers
begin

text \<open>
  The rest of the server: the recording writer, the two middlewares of \<open>internal/api\<close>, the table of routes and
  the chain of middlewares of \<open>Router\<close>.  A request meets, in this order, \<open>RealIP\<close>, \<open>observe\<close>, the
  timeout, the security headers, CORS, the rate limiter and the cap on the body, then the root routes; under
  \<open>/api/v1\<close> also the provider's \<open>Authenticate\<close> and the audit trail, and on each route the provider's
  \<open>Require\<close> with the role of the route.  \<open>RequestID\<close> and \<open>Recoverer\<close> of chi, which only matter
  to logs and panics, are left out.
\<close>

type_synonym api_handler = "request \<Rightarrow> exchange \<Rightarrow> exchange"

section \<open>The recording writer\<close>

text \<open>Runs a handler on a writer wrapped in a recorder, which starts with status 200.\<close>

definition recorded :: "api_handler \<Rightarrow> request \<Rightarrow> exchange \<Rightarrow> int \<times> exchange" where
  "recorded next_h r x =
     (let (w, s) = x; (w, s) = next_h r (w\<lparr>w_recs := 200 # w_recs w\<rparr>, s)
      in (hd (w_recs w), w\<lparr>w_recs := tl (w_recs w)\<rparr>, s))"

section \<open>Observation\<close>

definition statusClass :: "int \<Rightarrow> metrics \<Rightarrow> metrics" where
  "statusClass code m =
     (if 500 \<le> code then m\<lparr>m_s5xx := m_s5xx m + 1\<rparr>
      else if 400 \<le> code then m\<lparr>m_s4xx := m_s4xx m + 1\<rparr>
      else if 300 \<le> code then m\<lparr>m_s3xx := m_s3xx m + 1\<rparr>
      else m\<lparr>m_s2xx := m_s2xx m + 1\<rparr>)"

definition on_metrics :: "(metrics \<Rightarrow> metrics) \<Rightarrow> exchange \<Rightarrow> exchange" where
  "on_metrics f x = (let (w, kc, c, l) = x in (w, kc, c, l\<lparr>l_metrics := f (l_metrics l)\<rparr>))"

text \<open>The log line is left out.\<close>

definition observe :: "api_handler \<Rightarrow> api_handler" where
  "observe next_h r x =
     (let x = on_metrics (\<lambda>m. m\<lparr>m_total := m_total m + 1, m_inFlight := m_inFlight m + 1\<rparr>) x;
          (status, x) = recorded next_h r x;
          x = on_metrics (\<lambda>m. m\<lparr>m_inFlight := m_inFlight m - 1\<rparr>) x
      in on_metrics (statusClass status) x)"

section \<open>The audit trail\<close>

definition mutating :: "request \<Rightarrow> bool" where
  "mutating r \<longleftrightarrow> r_method r \<in> {MethodPost, MethodPatch, MethodPut, MethodDelete}"

definition audit_entry :: "request \<Rightarrow> int \<Rightarrow> AuditEntry" where
  "audit_entry r status =
     (let p = PrincipalFromRequest r
      in \<lparr>e_Seq = 0, e_TS = 0, e_Actor = p_ID p, e_Role = role_string (p_Role p), e_Method = r_method r,
          e_Path = r_path r, e_Status = status, e_RemoteIP = r_remote r, e_PrevHash = [], e_Hash = []\<rparr>)"

text \<open>A failure to append is logged only.\<close>

definition auditMiddleware :: "API \<Rightarrow> api_handler \<Rightarrow> api_handler" where
  "auditMiddleware a next_h r x =
     (if \<not> mutating r then next_h r x
      else let (status, x) = recorded next_h r x
           in snd (with_store (AppendAudit (api_store a) (audit_entry r status)) x))"

section \<open>Providers\<close>

fun provider_authenticate :: "Provider \<Rightarrow> api_handler \<Rightarrow> api_handler" where
  "provider_authenticate (ApiKeys k) = Authenticate k"
| "provider_authenticate (Tokens env v) = oidc_Authenticate env v"

fun provider_require :: "Provider \<Rightarrow> Role \<Rightarrow> api_handler \<Rightarrow> api_handler" where
  "provider_require (ApiKeys k) = Require k"
| "provider_require (Tokens env v) = oidc_Require"

fun provider_enabled :: "Provider \<Rightarrow> bool" where
  "provider_enabled (ApiKeys k) = enabled k"
| "provider_enabled (Tokens env v) = True"

section \<open>Routes\<close>

definition root_routes :: "((string \<times> string) \<times> endpoint) list" where
  "root_routes =
     [((MethodGet, ''/healthz''), health),
      ((MethodGet, ''/readyz''), handleReadyz),
      ((MethodGet, ''/metrics''), handleMetrics),
      ((MethodGet, ''/.well-known/security.txt''), securityTxt)]"

definition api_prefix :: string where "api_prefix = ''/api/v1''"

definition api_routes :: "((string \<times> string) \<times> Role \<times> endpoint) list" where
  "api_routes =
     [((MethodGet, ''/assets''), RoleViewer, listAssets),
      ((MethodGet, ''/assets/{id}''), RoleViewer, getAsset),
      ((MethodGet, ''/scans''), RoleViewer, listScans),
      ((MethodGet, ''/scans/{id}''), RoleViewer, getScan),
      ((MethodGet, ''/findings''), RoleViewer, listFindings),
      ((MethodGet, ''/compliance/cwe/{cwe}''), RoleViewer, complianceForCWE),
      ((MethodGet, ''/graph/export''), RoleViewer, exportGraph),
      ((MethodGet, ''/assets/{id}/attack-paths''), RoleViewer, attackPaths),
      ((MethodGet, ''/assets/{id}/accounts''), RoleViewer, listAccounts),
      ((MethodGet, ''/privesc-path''), RoleViewer, privEscPath),
      ((MethodPost, ''/assets''), RoleAnalyst, createAsset),
      ((MethodPost, ''/assets/{id}/scans''), RoleAnalyst, startScan),
      ((MethodPatch, ''/findings/{id}/status''), RoleAnalyst, updateFindingStatus),
      ((MethodGet, ''/findings/export''), RoleAnalyst, exportFindings),
      ((MethodPost, ''/graph/sync''), RoleAdmin, graphSync),
      ((MethodPost, ''/graph/topology''), RoleAdmin, importTopology),
      ((MethodPost, ''/assets/{id}/authorize''), RoleAdmin, authorizeAsset),
      ((MethodPost, ''/assets/{id}/reachability''), RoleAdmin, addReachability),
      ((MethodPost, ''/accounts''), RoleAdmin, createAccount),
      ((MethodPost, ''/accounts/{id}/escalation''), RoleAdmin, addEscalation),
      ((MethodPost, ''/accounts/{id}/credential-reuse''), RoleAdmin, addCredentialReuse),
      ((MethodGet, ''/audit''), RoleAdmin, listAudit),
      ((MethodGet, ''/audit/verify''), RoleAdmin, verifyAudit)]"

text \<open>The path that the mounted router sees: what is under the prefix, from a slash on.\<close>

definition sub_path :: "string \<Rightarrow> string" where
  "sub_path p = CHR ''/'' # drop (length api_prefix + 1) p"

text \<open>chi's answers without a route: \<open>http.NotFound\<close>, and a bare status with the methods that the path does have
  when only the method is wrong.\<close>

definition not_found :: "Writer \<Rightarrow> Writer" where
  "not_found w =
     write_body (''404 page not found'' @ [CHR 0x0A])
       (write_header 404 (header_set ''X-Content-Type-Options'' ''nosniff''
          (header_set ''Content-Type'' ''text/plain; charset=utf-8'' w)))"

definition bad_method :: "string list \<Rightarrow> Writer \<Rightarrow> Writer" where
  "bad_method ms w = write_header 405 (fold (header_add ''Allow'') ms w)"

definition api_dispatch :: "API \<Rightarrow> api_handler" where
  "api_dispatch a r x =
     (case chi_route (api_env a) (map fst api_routes) (r_method r) (sub_path (r_path r)) of
        BadMethod ms \<Rightarrow> reply (bad_method ms) x
      | NoRoute \<Rightarrow> reply not_found x
      | Matched i ps \<Rightarrow>
          if i < length api_routes then
            (case snd (api_routes ! i) of (role, h) \<Rightarrow> provider_require (api_auth a) role (h a (get_first ps)) r x)
          else reply not_found x)"

definition api_router :: "API \<Rightarrow> api_handler" where
  "api_router a = provider_authenticate (api_auth a) (auditMiddleware a (api_dispatch a))"

text \<open>The root table ends with the mount of the API, for any method, as chi registers it.\<close>

definition root_table :: "(string \<times> string) list" where
  "root_table = map fst root_routes @ [(''*'', api_prefix), (''*'', api_prefix @ ''/''), (''*'', api_prefix @ ''/*'')]"

definition root_dispatch :: "API \<Rightarrow> api_handler" where
  "root_dispatch a r x =
     (case chi_route (api_env a) root_table (r_method r) (r_path r) of
        BadMethod ms \<Rightarrow> reply (bad_method ms) x
      | NoRoute \<Rightarrow> reply not_found x
      | Matched i ps \<Rightarrow>
          if i < length root_routes then snd (root_routes ! i) a (get_first ps) r x
          else api_router a r x)"

section \<open>The chain\<close>

text \<open>chi's timeout: when the deadline has passed, the handler's answer is followed by a 504.\<close>

definition timeout :: "API \<Rightarrow> api_handler \<Rightarrow> api_handler" where
  "timeout a next_h r x =
     (let x = next_h r x
      in if deadline (api_env a) (l_request (local_of x)) then reply (write_header 504) x else x)"

definition limiter_of :: "server \<Rightarrow> Limiter" where
  "limiter_of s = l_limiter (snd (snd s))"

definition set_limiter :: "Limiter \<Rightarrow> server \<Rightarrow> server" where
  "set_limiter b s = (let (kc, c, l) = s in (kc, c, l\<lparr>l_limiter := b\<rparr>))"

definition Router :: "API \<Rightarrow> api_handler" where
  "Router a r x =
     observe
       (timeout a
         (SecurityHeaders
           (CORS (api_CORSOrigins a)
             (RateLimit (api_RateLimit a) (\<lambda>s. wall (api_env a) (l_request (snd (snd s)))) limiter_of set_limiter
               (MaxBody (2 ^ 20) (root_dispatch a))))))
       (r\<lparr>r_remote := real_ip (api_env a) r\<rparr>) x"

text \<open>The server: one request, and a sequence of requests with their answers.\<close>

definition serve :: "API \<Rightarrow> request \<Rightarrow> server \<Rightarrow> Writer \<times> server" where
  "serve a r s = (let (kc, c, l) = s in Router a r (new_writer, kc, c, l\<lparr>l_request := l_request l + 1\<rparr>))"

fun serve_all :: "API \<Rightarrow> request list \<Rightarrow> server \<Rightarrow> Writer list \<times> server" where
  "serve_all a [] s = ([], s)"
| "serve_all a (r # rs) s =
     (let (w, s) = serve a r s; (ws, s) = serve_all a rs s in (w # ws, s))"

end
