(* ===== verification/Api_Spec.thy ===== *)
theory Api_Spec
  imports Api_Router
begin

text \<open>
  What every handler keeps to: it answers once, it leaves the server's own data alone, and what it does to the
  databases and the queue is a sequence of the steps below.  The properties of the server are
  read off these facts.
\<close>

section \<open>Answering once\<close>

text \<open>Nothing is written and every recorder is as it began.\<close>

definition fresh :: "Writer \<Rightarrow> bool" where
  "fresh w \<longleftrightarrow> w_code w = None \<and> w_recs w = replicate (length (w_recs w)) 200"

text \<open>An answer is written, and every recorder has its status.\<close>

definition http_status :: "int \<Rightarrow> bool" where
  "http_status c \<longleftrightarrow> 100 \<le> c \<and> c < 600"

definition sent :: "Writer \<Rightarrow> Writer \<Rightarrow> bool" where
  "sent w w' \<longleftrightarrow> w_code w' \<noteq> None \<and> w_recs w' = replicate (length (w_recs w)) (status_of w') \<and> http_status (status_of w')"

named_theorems sent_intros \<open>writers that answer\<close>

lemma http_statuses [sent_intros, simp]:
  "http_status 200" "http_status 201" "http_status 202" "http_status 204" "http_status 400" "http_status 401" "http_status 403"
  "http_status 404" "http_status 405" "http_status 429" "http_status 500" "http_status 503" "http_status 504"
  by (simp_all add: http_status_def)

lemma http_status_if [sent_intros]: "http_status c \<Longrightarrow> http_status d \<Longrightarrow> http_status (if b then c else d)"
  by simp

lemma fresh_new: "fresh new_writer"
  by (simp add: fresh_def new_writer_def)

lemma fresh_header [sent_intros]: "fresh w \<Longrightarrow> fresh (header_set k v w)" "fresh w \<Longrightarrow> fresh (header_add k v w)"
  by (simp_all add: fresh_def header_set_def header_add_def)

lemma header_recs [simp]: "w_recs (header_set k v w) = w_recs w" "w_recs (header_add k v w) = w_recs w"
  by (simp_all add: header_set_def header_add_def)

lemma sent_header:
  "sent (header_set k v w) w' \<Longrightarrow> sent w w'" "sent (header_add k v w) w' \<Longrightarrow> sent w w'"
  by (simp_all add: sent_def)

lemma sent_write_header: "fresh w \<Longrightarrow> http_status c \<Longrightarrow> sent w (write_header c w)"
  by (simp add: fresh_def sent_def write_header_def send_header_def status_of_def map_replicate_const)

lemma sent_write_body: "fresh w \<Longrightarrow> sent w (write_body b w)"
  by (simp add: fresh_def sent_def write_body_def send_header_def status_of_def Let_def)

lemma sent_body_header [sent_intros]:
  "fresh w \<Longrightarrow> sent w (write_body b (header_set k v w))"
  "fresh w \<Longrightarrow> sent w (write_body b (header_set k v (header_set k' v' w)))"
  by (rule sent_header(1), rule sent_write_body, rule fresh_header, assumption)
    (rule sent_header(1), rule sent_header(1), rule sent_write_body, intro fresh_header)

lemma sent_more: "sent w w' \<Longrightarrow> sent w (write_body b w')"
  by (auto simp: sent_def write_body_def send_header_def status_of_def Let_def)

lemma sent_writeJSON: "fresh w \<Longrightarrow> http_status c \<Longrightarrow> sent w (writeJSON c v w)"
  using sent_header(1) [OF sent_write_header [OF fresh_header(1)]] sent_more
  by (auto simp: writeJSON_def Let_def split: option.split)

lemma status_writeJSON: "fresh w \<Longrightarrow> status_of (writeJSON c v w) = c"
  by (simp add: fresh_def writeJSON_def writer_defs status_of_def split: option.split)

lemma sent_writeError: "fresh w \<Longrightarrow> http_status c \<Longrightarrow> sent w (writeError c m w)"
  unfolding writeError_def by (intro sent_more sent_header(1) [OF sent_write_header] fresh_header)

lemma status_writeError: "fresh w \<Longrightarrow> status_of (writeError c m w) = c"
  by (simp add: fresh_def writeError_def writer_defs status_of_def)

lemma sent_answers [sent_intros]:
  "fresh w \<Longrightarrow> sent w (badRequest m w)" "fresh w \<Longrightarrow> sent w (serverError m w)" "fresh w \<Longrightarrow> sent w (graphDisabled w)"
  "fresh w \<Longrightarrow> sent w (accounts_missing w)"
  by (simp_all add: badRequest_def serverError_def graphDisabled_def accounts_missing_def sent_writeJSON)

lemma sent_bad_method [sent_intros]: "fresh w \<Longrightarrow> sent w (bad_method ms w)"
proof -
  assume "fresh w"
  then have "fresh (fold (header_add ''Allow'') ms w) \<and> w_recs (fold (header_add ''Allow'') ms w) = w_recs w"
    by (induction ms arbitrary: w) (simp_all add: fresh_header)
  then show ?thesis using sent_write_header [of "fold (header_add ''Allow'') ms w" 405] by (simp add: bad_method_def sent_def)
qed

lemma sent_not_found [sent_intros]: "fresh w \<Longrightarrow> sent w (not_found w)"
  unfolding not_found_def by (intro sent_more sent_header(1) [OF sent_header(1) [OF sent_write_header]] fresh_header http_statuses)

lemmas sent_bodies [sent_intros] = sent_writeJSON sent_write_header sent_write_body sent_writeError

section \<open>The steps of a handler\<close>

text \<open>What a reading handler may do: queries.\<close>

inductive read_step :: "core \<Rightarrow> core \<Rightarrow> bool" where
  query: "read_step c (c\<lparr>s_db := (s_db c)\<lparr>tick := n\<rparr>\<rparr>)"
| graph_query: "read_step c (c\<lparr>s_graph := (s_graph c)\<lparr>g_tick := n\<rparr>\<rparr>)"

text \<open>What any handler may do.  Rows of findings and audit entries are never added, and what is pushed to the queue is a job that
  has just been written.\<close>

inductive api_step :: "API \<Rightarrow> core \<Rightarrow> core \<Rightarrow> bool" for a where
  reading: "read_step c c' \<Longrightarrow> api_step a c c'"
| asset: "api_step a c (c\<lparr>s_db := snd (CreateAsset (api_store a) v (s_db c))\<rparr>)"
| authorization: "api_step a c (c\<lparr>s_db := snd (SetAssetAuthorization (api_store a) i b (s_db c))\<rparr>)"
| job: "api_step a c (c\<lparr>s_db := snd (CreateScanJob (api_store a) j (s_db c))\<rparr>)"
| status: "api_step a c (c\<lparr>s_db := snd (UpdateFindingStatus (api_store a) i st (s_db c))\<rparr>)"
| enqueue: "CreateScanJob (api_store a) j (s_db c) = (Inr job, d) \<Longrightarrow>
    api_step a c (c\<lparr>s_db := d, s_redis := snd (Enqueue (api_queue a) (j_ID job) (s_redis c))\<rparr>)"
| graph: "api_graph a = Some g \<Longrightarrow> graph_step g (s_graph c) h \<Longrightarrow> api_step a c (c\<lparr>s_graph := h\<rparr>)"

text \<open>The server's own data and the key cache stay; with and without an answer.\<close>

definition keeps :: "(core \<Rightarrow> core \<Rightarrow> bool) \<Rightarrow> exchange \<Rightarrow> exchange \<Rightarrow> bool" where
  "keeps S x y \<longleftrightarrow> rtranclp S (core_of x) (core_of y) \<and> local_of y = local_of x \<and> fst (snd y) = fst (snd x)"

definition calls :: "(core \<Rightarrow> core \<Rightarrow> bool) \<Rightarrow> exchange \<Rightarrow> exchange \<Rightarrow> bool" where
  "calls S x y \<longleftrightarrow> keeps S x y \<and> fst y = fst x"

definition answers :: "(core \<Rightarrow> core \<Rightarrow> bool) \<Rightarrow> exchange \<Rightarrow> exchange \<Rightarrow> bool" where
  "answers S x y \<longleftrightarrow> keeps S x y \<and> (fresh (fst x) \<longrightarrow> sent (fst x) (fst y))"

lemma calls_refl [simp]: "calls S x x"
  by (simp add: calls_def keeps_def)

lemma calls_trans: "calls S x y \<Longrightarrow> calls S y z \<Longrightarrow> calls S x z"
  by (auto simp: calls_def keeps_def)

lemma answers_after: "calls S x y \<Longrightarrow> answers S y z \<Longrightarrow> answers S x z"
  by (auto simp: calls_def answers_def keeps_def)

lemma answers_mono: "answers S x y \<Longrightarrow> (\<And>c c'. S c c' \<Longrightarrow> T c c') \<Longrightarrow> answers T x y"
  using rtranclp_mono [of S T] by (auto simp: answers_def keeps_def le_fun_def)

lemma calls_core:
  assumes "\<And>c. rtranclp S c (snd (f c))"
  shows "calls S x (snd (on_core f x))"
  using assms by (cases x) (auto simp: calls_def keeps_def on_core_def case_prod_unfold Let_def)

lemma calls_store:
  "(\<And>c. rtranclp S c (c\<lparr>s_db := snd (f (s_db c))\<rparr>)) \<Longrightarrow> calls S x (snd (with_store f x))"
  unfolding with_store_def by (rule calls_core) (simp add: case_prod_unfold Let_def)

lemma calls_graph:
  "(\<And>c. rtranclp S c (c\<lparr>s_graph := snd (f (s_graph c))\<rparr>)) \<Longrightarrow> calls S x (snd (with_graph f x))"
  unfolding with_graph_def by (rule calls_core) (simp add: case_prod_unfold Let_def)

lemma calls_queue:
  "(\<And>c. rtranclp S c (c\<lparr>s_redis := snd (f (s_redis c))\<rparr>)) \<Longrightarrow> calls S x (snd (with_queue f x))"
  unfolding with_queue_def by (rule calls_core) (simp add: case_prod_unfold Let_def)

named_theorems handler_intros \<open>answers, call by call\<close>

lemma answers_reply [handler_intros]: "(\<And>w. fresh w \<Longrightarrow> sent w (f w)) \<Longrightarrow> answers S x (reply f x)"
  by (cases x) (auto simp: answers_def keeps_def reply_def)

lemma answers_error [handler_intros]: "answers S x (storeError a e x)" "answers S x (notFoundOrError a e x)"
  unfolding storeError_def notFoundOrError_def by (auto intro!: answers_reply sent_intros)

lemma answers_call:
  assumes "calls S x (snd c)" and "\<And>e y. answers S y (A e y)" and "\<And>v y. answers S y (B v y)"
  shows "answers S x (case c of (Inl e, y) \<Rightarrow> A e y | (Inr v, y) \<Rightarrow> B v y)"
  using assms by (auto split: prod.split sum.split intro: answers_after)

lemma answers_store [handler_intros]:
  assumes "\<And>c. rtranclp S c (c\<lparr>s_db := snd (f (s_db c))\<rparr>)" and "\<And>e y. answers S y (A e y)" and "\<And>v y. answers S y (B v y)"
  shows "answers S x (case with_store f x of (Inl e, y) \<Rightarrow> A e y | (Inr v, y) \<Rightarrow> B v y)"
  by (rule answers_call [OF calls_store [OF assms(1)] assms(2,3)])

lemma answers_graph [handler_intros]:
  assumes "\<And>c. rtranclp S c (c\<lparr>s_graph := snd (f (s_graph c))\<rparr>)" and "\<And>e y. answers S y (A e y)" and "\<And>v y. answers S y (B v y)"
  shows "answers S x (case with_graph f x of (Inl e, y) \<Rightarrow> A e y | (Inr v, y) \<Rightarrow> B v y)"
  by (rule answers_call [OF calls_graph [OF assms(1)] assms(2,3)])

lemma answers_queue [handler_intros]:
  assumes "\<And>c. rtranclp S c (c\<lparr>s_redis := snd (f (s_redis c))\<rparr>)" and "\<And>e y. answers S y (A e y)" and "\<And>v y. answers S y (B v y)"
  shows "answers S x (case with_queue f x of (Inl e, y) \<Rightarrow> A e y | (Inr v, y) \<Rightarrow> B v y)"
  by (rule answers_call [OF calls_queue [OF assms(1)] assms(2,3)])

lemma answers_decode [handler_intros]:
  "(\<And>i. answers S x (A i)) \<Longrightarrow> (\<And>i. answers S x (B i)) \<Longrightarrow> answers S x (case p of (i, True) \<Rightarrow> A i | (i, False) \<Rightarrow> B i)"
  by (auto split: prod.split bool.split)

lemma answers_if [handler_intros]: "(b \<Longrightarrow> answers S x y) \<Longrightarrow> (\<not> b \<Longrightarrow> answers S x z) \<Longrightarrow> answers S x (if b then y else z)"
  by simp

lemma answers_page [handler_intros]:
  "http_status c \<Longrightarrow> answers S x (case paginate r rows (fst x) of (page, w) \<Rightarrow> (writeJSON c (v page) w, snd x))"
proof -
  assume c: "http_status c"
  obtain w s where x: "x = (w, s)" by (cases x)
  let ?w = "header_set ''X-Total-Count'' (itoa (int (length rows))) w"
  have p: "snd (paginate r rows w) = ?w" by (simp add: paginate_def Let_def case_prod_unfold)
  have "sent w (writeJSON c v ?w)" if "fresh w" for v
    using sent_header(1) [OF sent_writeJSON [OF fresh_header(1) [OF that] c]] .
  then show ?thesis by (cases s) (simp add: x case_prod_unfold p answers_def keeps_def)
qed

lemma answers_enabled [handler_intros]:
  "(\<And>g y. api_graph a = Some g \<Longrightarrow> answers S y (h g y)) \<Longrightarrow> answers S x (with_graph_enabled a h x)"
  by (auto simp: with_graph_enabled_def split: option.split intro!: answers_reply sent_intros)

section \<open>Calls as steps\<close>

lemma read_call:
  assumes "\<And>d. snd (f d) = d\<lparr>tick := Suc (tick d)\<rparr>"
  shows "rtranclp read_step c (c\<lparr>s_db := snd (f (s_db c))\<rparr>)"
  unfolding assms by (intro r_into_rtranclp read_step.query)

lemma store_reads [handler_intros]:
  "rtranclp read_step c (c\<lparr>s_db := snd (GetAsset E i (s_db c))\<rparr>)"
  "rtranclp read_step c (c\<lparr>s_db := snd (GetAssetByTarget E i (s_db c))\<rparr>)"
  "rtranclp read_step c (c\<lparr>s_db := snd (ListAssets E (s_db c))\<rparr>)"
  "rtranclp read_step c (c\<lparr>s_db := snd (GetScanJob E i (s_db c))\<rparr>)"
  "rtranclp read_step c (c\<lparr>s_db := snd (ListScanJobs E (s_db c))\<rparr>)"
  "rtranclp read_step c (c\<lparr>s_db := snd (ListFindings E i i' l k (s_db c))\<rparr>)"
  "rtranclp read_step c (c\<lparr>s_db := snd (ListAudit E l (s_db c))\<rparr>)"
  "rtranclp read_step c (c\<lparr>s_db := snd (AllAuditForVerify E (s_db c))\<rparr>)"
  by (rule read_call, simp add: read_inv)+

lemma graph_read_call:
  assumes "\<And>t g. snd (f t g) = g"
  shows "rtranclp read_step c (c\<lparr>s_graph := snd (transaction env f (s_graph c))\<rparr>)"
proof -
  have "snd (transaction env f g) = g\<lparr>g_tick := Suc (g_tick g)\<rparr>" for g
    using assms by (simp add: transaction_def Let_def case_prod_unfold split: option.split)
  then show ?thesis by (simp add: read_step.graph_query r_into_rtranclp)
qed

lemma graph_reads [handler_intros]:
  "rtranclp read_step c (c\<lparr>s_graph := snd (ListAccounts g i (s_graph c))\<rparr>)"
  "rtranclp read_step c (c\<lparr>s_graph := snd (FindPrivEscPath g i j (s_graph c))\<rparr>)"
  "rtranclp read_step c (c\<lparr>s_graph := snd (FindAttackPaths g i r n (s_graph c))\<rparr>)"
  unfolding ListAccounts_def FindPrivEscPath_def FindAttackPaths_def
  by (rule graph_read_call, simp add: Let_def)+

lemma read_api: "rtranclp read_step c c' \<Longrightarrow> rtranclp (api_step a) c c'"
  using rtranclp_mono [of read_step "api_step a"] api_step.reading by (auto simp: le_fun_def)

lemmas api_reads [handler_intros] = store_reads [THEN read_api] graph_reads [THEN read_api]

lemma api_writes [handler_intros]:
  "rtranclp (api_step a) c (c\<lparr>s_db := snd (CreateAsset (api_store a) v (s_db c))\<rparr>)"
  "rtranclp (api_step a) c (c\<lparr>s_db := snd (SetAssetAuthorization (api_store a) i b (s_db c))\<rparr>)"
  "rtranclp (api_step a) c (c\<lparr>s_db := snd (CreateScanJob (api_store a) j (s_db c))\<rparr>)"
  "rtranclp (api_step a) c (c\<lparr>s_db := snd (UpdateFindingStatus (api_store a) i st (s_db c))\<rparr>)"
  by (rule r_into_rtranclp, rule api_step.intros)+

lemma api_graph_writes [handler_intros]:
  assumes "api_graph a = Some g"
  shows "rtranclp (api_step a) c (c\<lparr>s_graph := snd (SyncAsset g v (s_graph c))\<rparr>)"
    and "rtranclp (api_step a) c (c\<lparr>s_graph := snd (SyncFinding g f (s_graph c))\<rparr>)"
    and "rtranclp (api_step a) c (c\<lparr>s_graph := snd (UpsertReachability g i j n p (s_graph c))\<rparr>)"
    and "rtranclp (api_step a) c (c\<lparr>s_graph := snd (SyncAccount g acc (s_graph c))\<rparr>)"
    and "rtranclp (api_step a) c (c\<lparr>s_graph := snd (UpsertEscalation g i j tech cwe w (s_graph c))\<rparr>)"
    and "rtranclp (api_step a) c (c\<lparr>s_graph := snd (UpsertCredentialReuse g i j w (s_graph c))\<rparr>)"
  by (rule r_into_rtranclp, rule api_step.graph [OF assms], rule graph_step.intros)+

section \<open>Handlers\<close>

text \<open>The reading handlers, in the order of the table of routes.\<close>

lemma ExportGraph_reads:
  "rtranclp read_step c (c\<lparr>s_graph := snd (ExportGraph g (s_graph c))\<rparr>)"
proof -
  have "\<exists>n. snd (ExportGraph g h) = h\<lparr>g_tick := n\<rparr>" for h
    by (auto simp: ExportGraph_def transaction_def Let_def case_prod_unfold split: option.split sum.split)
  then obtain n where "snd (ExportGraph g (s_graph c)) = (s_graph c)\<lparr>g_tick := n\<rparr>" by blast
  then show ?thesis by (simp add: read_step.graph_query r_into_rtranclp)
qed

lemma exportGraph_answers: "answers read_step x (exportGraph a ps r x)"
  unfolding exportGraph_def
proof (rule answers_enabled)
  fix g y
  obtain e ns es z where e: "with_graph (ExportGraph g) y = ((e, ns, es), z)" by (metis prod_cases3 surj_pair)
  have "calls read_step y z" using calls_graph [of read_step "ExportGraph g" y, OF ExportGraph_reads] by (simp add: e)
  then show "answers read_step y (case with_graph (ExportGraph g) y of
         ((Some err, _), x) \<Rightarrow> reply (serverError err) x
       | ((None, nodes, edges), x) \<Rightarrow>
           reply (writeJSON 200 (j_obj [fld ''nodes'' (j_list export_node_json nodes), fld ''edges'' (j_list export_edge_json edges)])) x)"
    by (cases e) (auto simp: e intro!: answers_reply sent_intros elim!: answers_after)
qed

lemma reading_handlers:
  "answers read_step x (listAssets a ps r x)"
  "answers read_step x (getAsset a ps r x)"
  "answers read_step x (listScans a ps r x)"
  "answers read_step x (getScan a ps r x)"
  "answers read_step x (listFindings a ps r x)"
  "answers read_step x (complianceForCWE a ps r x)"
  "answers read_step x (attackPaths a ps r x)"
  "answers read_step x (listAccounts a ps r x)"
  "answers read_step x (privEscPath a ps r x)"
  "answers read_step x (exportFindings a ps r x)"
  "answers read_step x (listAudit a ps r x)"
  "answers read_step x (verifyAudit a ps r x)"
  "answers read_step x (health a ps r x)"
  "answers read_step x (securityTxt a ps r x)"
  "answers read_step x (handleMetrics a ps r x)"
  "answers read_step x (handleReadyz a ps r x)"
  unfolding listAssets_def getAsset_def listScans_def getScan_def listFindings_def complianceForCWE_def attackPaths_def
    listAccounts_def privEscPath_def exportFindings_def listAudit_def verifyAudit_def health_def securityTxt_def
    handleMetrics_def handleReadyz_def Let_def
  subgoal by (intro handler_intros sent_intros)
  subgoal by (intro handler_intros sent_intros)
  subgoal by (intro handler_intros sent_intros)
  subgoal by (intro handler_intros sent_intros)
  subgoal by (cases "pageParams r", simp only: prod.case) (intro handler_intros sent_intros)
  subgoal by (intro handler_intros sent_intros)
  subgoal by (intro handler_intros sent_intros)
  subgoal by (intro handler_intros sent_intros)
  subgoal by (intro handler_intros sent_intros)
  subgoal by (intro handler_intros sent_intros)
  subgoal by (intro handler_intros sent_intros)
  subgoal by (intro answers_store answers_error store_reads) (auto simp: case_prod_unfold intro!: answers_reply sent_intros)
  subgoal by (intro handler_intros sent_intros)
  subgoal by (intro handler_intros sent_intros)
  subgoal by (intro handler_intros sent_intros)
  subgoal by (intro handler_intros sent_intros)
  done

lemmas handlers_read = reading_handlers exportGraph_answers

lemma calls_bind:
  assumes "calls S x (snd c)" and "\<And>e y. calls S y (snd (A e y))" and "\<And>v y. calls S y (snd (B v y))"
  shows "calls S x (snd (case c of (Inl e, y) \<Rightarrow> A e y | (Inr v, y) \<Rightarrow> B v y))"
  using assms by (auto split: prod.split sum.split intro: calls_trans)

lemma sync_findings_calls: "api_graph a = Some g \<Longrightarrow> calls (api_step a) x (snd (sync_findings g fs n x))"
proof (induction fs arbitrary: n x)
  case (Cons f fs)
  show ?case unfolding sync_findings.simps
    by (intro calls_bind calls_graph api_graph_writes [OF Cons.prems] Cons.IH [OF Cons.prems]) simp
qed simp

lemma sync_assets_calls: "api_graph a = Some g \<Longrightarrow> calls (api_step a) x (snd (sync_assets a g ass m n x))"
proof (induction ass arbitrary: m n x)
  case (Cons as ass)
  show ?case unfolding sync_assets.simps
    by (intro calls_bind calls_graph calls_store api_graph_writes [OF Cons.prems] api_reads sync_findings_calls
        Cons.IH [OF Cons.prems]) (simp_all add: Cons.prems)
qed simp

lemma resolveAsset_calls: "calls (api_step a) x (snd (resolveAsset a i x))"
proof -
  have "calls (api_step a) x (snd (case with_store (GetAsset (api_store a) i) x of
      (Inl _, x) \<Rightarrow> with_store (GetAssetByTarget (api_store a) i) x | (Inr asset, x) \<Rightarrow> (Inr asset, x)))"
    by (intro calls_bind calls_store api_reads) simp
  then show ?thesis by (simp add: resolveAsset_def case_prod_unfold split: sum.split)
qed

lemma import_edges_calls: "api_graph a = Some g \<Longrightarrow> calls (api_step a) x (snd (import_edges a g i es k ps x))"
proof (induction es arbitrary: i k ps x)
  case (Cons e es)
  note IH = Cons.IH [OF Cons.prems] and w = calls_graph [OF api_graph_writes(1) [OF Cons.prems]]
  have last: "calls (api_step a) y (snd (case with_graph (UpsertReachability g s d port proto) y of
      (Inl err, x) \<Rightarrow> (Inl err, x) | (Inr _, x) \<Rightarrow> import_edges a g (Suc i) es (k + 1) ps x))" for s d port proto y
    by (intro calls_bind calls_graph api_graph_writes [OF Cons.prems] IH) simp
  have syncs: "calls (api_step a) y (snd (with_graph (SyncAsset g t) (snd (with_graph (SyncAsset g s) y))))" for s t y
    by (rule calls_trans [OF w w])
  show ?case unfolding import_edges.simps Let_def
    by (intro calls_bind resolveAsset_calls IH calls_trans [OF syncs last])
qed simp

lemma startScan_answers: "answers (api_step a) x (startScan a ps r x)"
proof -
  have body: "answers (api_step a) y (case with_store (CreateScanJob (api_store a) j) y of
          (Inl err, x) \<Rightarrow> storeError a err x
        | (Inr job, x) \<Rightarrow>
            (case with_queue (Enqueue (api_queue a) (j_ID job)) x of
               (Inl _, x) \<Rightarrow> reply (serverError (redis_text (api_env a) (redis_tick (s_redis (core_of x))))) x
             | (Inr _, x) \<Rightarrow> reply (writeJSON 202 (job_json True job)) x))" for y j
  proof -
    obtain w kc c l where y: "y = (w, kc, c, l)" by (metis surj_pair)
    obtain res d where cj: "CreateScanJob (api_store a) j (s_db c) = (res, d)" by (rule prod.exhaust)
    show ?thesis
    proof (cases res)
      case (Inl e)
      have "calls (api_step a) y (w, kc, c\<lparr>s_db := d\<rparr>, l)"
        using api_writes(3) [of a c j] by (simp add: y calls_def keeps_def cj)
      from answers_after [OF this answers_error(1)] show ?thesis
        by (simp add: y with_store_def on_core_def cj Inl)
    next
      case (Inr job)
      obtain res2 q where en: "Enqueue (api_queue a) (j_ID job) (s_redis c) = (res2, q)" by (rule prod.exhaust)
      have "api_step a c (c\<lparr>s_db := d, s_redis := snd (Enqueue (api_queue a) (j_ID job) (s_redis c))\<rparr>)"
        by (rule api_step.enqueue [OF cj [unfolded Inr]])
      then have "calls (api_step a) y (w, kc, c\<lparr>s_db := d, s_redis := q\<rparr>, l)"
        by (simp add: y calls_def keeps_def en r_into_rtranclp)
      then have after: "answers (api_step a) y (reply f (w, kc, c\<lparr>s_db := d, s_redis := q\<rparr>, l))"
        if "\<And>w. fresh w \<Longrightarrow> sent w (f w)" for f
        using answers_after answers_reply [OF that] by blast
      show ?thesis
      proof (cases res2)
        case (Inl e)
        then show ?thesis using after [of "serverError (redis_text (api_env a) (redis_tick q))", OF sent_answers(2)]
          by (simp add: y with_store_def with_queue_def on_core_def cj \<open>res = Inr job\<close> en)
      next
        case (Inr u)
        then show ?thesis using after [of "writeJSON 202 (job_json True job)", OF sent_writeJSON [OF _ http_statuses(3)]]
          by (simp add: y with_store_def with_queue_def on_core_def cj \<open>res = Inr job\<close> en)
      qed
    qed
  qed
  show ?thesis unfolding startScan_def Let_def by (intro answers_store [OF _ answers_error(2) body] api_reads)
qed

lemma writing_handlers:
  "answers (api_step a) x (createAsset a ps r x)"
  "answers (api_step a) x (startScan a ps r x)"
  "answers (api_step a) x (updateFindingStatus a ps r x)"
  "answers (api_step a) x (graphSync a ps r x)"
  "answers (api_step a) x (importTopology a ps r x)"
  "answers (api_step a) x (authorizeAsset a ps r x)"
  "answers (api_step a) x (addReachability a ps r x)"
  "answers (api_step a) x (createAccount a ps r x)"
  "answers (api_step a) x (addEscalation a ps r x)"
  "answers (api_step a) x (addCredentialReuse a ps r x)"
  unfolding createAsset_def updateFindingStatus_def graphSync_def importTopology_def authorizeAsset_def
    addReachability_def createAccount_def addEscalation_def addCredentialReuse_def Let_def
  subgoal by (intro handler_intros sent_intros)
  subgoal by (rule startScan_answers)
  subgoal by (intro handler_intros sent_intros)
  subgoal by (intro answers_enabled answers_store api_reads answers_error answers_call [OF sync_assets_calls])
      (auto simp: case_prod_unfold intro!: answers_reply sent_intros)
  subgoal by (intro answers_enabled answers_decode answers_call [OF import_edges_calls])
      (auto simp: case_prod_unfold intro!: answers_reply sent_intros)
  subgoal by (intro handler_intros sent_intros)
  subgoal by (intro handler_intros sent_intros)
  subgoal by (intro handler_intros sent_intros)
  subgoal by (intro handler_intros sent_intros)
  subgoal by (intro handler_intros sent_intros)
  done

section \<open>Any route\<close>

lemma endpoint_answers:
  assumes "i < length api_routes"
  shows "answers (api_step a) x (snd (snd (api_routes ! i)) a ps r x)"
    and "fst (fst (api_routes ! i)) = MethodGet \<Longrightarrow> answers read_step x (snd (snd (api_routes ! i)) a ps r x)"
proof -
  have "list_all (\<lambda>((m, _), _, h). (m = MethodGet \<longrightarrow> answers read_step x (h a ps r x)) \<and>
      (m \<noteq> MethodGet \<longrightarrow> answers (api_step a) x (h a ps r x))) api_routes"
    by (simp add: api_routes_def handlers_read writing_handlers)
  then have e: "(fst (fst (api_routes ! i)) = MethodGet \<longrightarrow> answers read_step x (snd (snd (api_routes ! i)) a ps r x)) \<and>
      (fst (fst (api_routes ! i)) \<noteq> MethodGet \<longrightarrow> answers (api_step a) x (snd (snd (api_routes ! i)) a ps r x))"
    using assms by (simp add: list_all_length case_prod_unfold)
  then show "answers (api_step a) x (snd (snd (api_routes ! i)) a ps r x)"
    using e answers_mono [of read_step _ _ "api_step a"] api_step.reading by blast
  show "fst (fst (api_routes ! i)) = MethodGet \<Longrightarrow> answers read_step x (snd (snd (api_routes ! i)) a ps r x)" using e by blast
qed

lemma root_answers: "i < length root_routes \<Longrightarrow> answers read_step x (snd (root_routes ! i) a ps r x)"
proof -
  have "list_all (\<lambda>(_, h). answers read_step x (h a ps r x)) root_routes"
    by (simp add: root_routes_def handlers_read)
  then show "i < length root_routes \<Longrightarrow> answers read_step x (snd (root_routes ! i) a ps r x)"
    by (simp add: list_all_length case_prod_unfold)
qed

end
