(* ===== verification/Api_Chain.thy ===== *)
theory Api_Chain
  imports Api_Spec
begin

text \<open>
  A request on its way through the middlewares: the provider as an instance of the interface of
  \<open>Auth\<close>, the audit trail, and the chain from the server to the routes.  The last section is about the
  counters.
\<close>

section \<open>The provider\<close>

fun provider_resolve :: "Provider \<Rightarrow> request \<Rightarrow> server \<Rightarrow> (string + Principal) \<times> server" where
  "provider_resolve (ApiKeys k) = key_resolve k"
| "provider_resolve (Tokens env v) = token_resolve env v"

interpretation router: auth_provider "provider_authenticate p" "provider_require p" "provider_enabled p" "provider_resolve p" snd
  for p :: Provider
proof (cases p)
  case (ApiKeys k)
  then show "auth_provider (provider_authenticate p) (provider_require p) (provider_enabled p) (provider_resolve p) snd"
    by unfold_locales
      (auto simp: api_keys.authn_open api_keys.authn_ok api_keys.authn_fail api_keys.req_open api_keys.req_some api_keys.req_none
          key_resolve_def split: option.split)
next
  case (Tokens env v)
  then show "auth_provider (provider_authenticate p) (provider_require p) (provider_enabled p) (provider_resolve p) snd"
    using tokens.auth_provider_axioms by simp
qed

text \<open>Who calls: the principal that the audit trail will show.\<close>

definition caller :: "API \<Rightarrow> request \<Rightarrow> key_cache \<Rightarrow> (string + Principal)" where
  "caller a r kc = fst (provider_resolve (api_auth a) r (kc, undefined))"

lemma resolve_caller: "fst (provider_resolve (api_auth a) r (kc, s)) = caller a r kc"
  unfolding caller_def
  by (cases "api_auth a")
    (simp_all add: key_resolve_def token_resolve_def Let_def case_prod_unfold split: option.split sum.split)

lemma bearer_request: "bearer (r\<lparr>r_remote := i\<rparr>) = bearer r" "bearer (r\<lparr>r_limit := n\<rparr>) = bearer r"
  by (simp_all add: bearer_def Let_def)

lemma resolve_bearer: "bearer r' = bearer r \<Longrightarrow> provider_resolve p r' s = provider_resolve p r s"
  by (cases p) (simp_all add: key_resolve_def token_resolve_def)

lemma caller_request [simp]: "caller a (r\<lparr>r_remote := i\<rparr>) kc = caller a r kc" "caller a (r\<lparr>r_limit := n\<rparr>) kc = caller a r kc"
  by (simp_all only: caller_def resolve_bearer [OF bearer_request(1)] resolve_bearer [OF bearer_request(2)])

lemma require_cases:
  obtains "provider_require p m h r x = h r x" "\<not> provider_enabled p \<or> r_method r = MethodOptions \<or> (\<exists>q. r_ctx r = Some q \<and> m \<le> p_Role q)"
  | c msg where "c \<in> {401, 403}" "provider_require p m h r x = reply (writeError c msg) x"
      "provider_enabled p" "r_method r \<noteq> MethodOptions" "\<And>q. r_ctx r = Some q \<Longrightarrow> p_Role q < m"
proof (cases "provider_enabled p \<and> r_method r \<noteq> MethodOptions")
  case False
  then show ?thesis using that(1) router.req_open [of p r m h x] by blast
next
  case True
  show ?thesis
  proof (cases "r_ctx r")
    case None
    then show ?thesis using that(2) [of 401] router.req_none [of p r m h x] True by (simp add: reply_def)
  next
    case (Some q)
    then show ?thesis using that router.req_some [of p r q m h x] True by (auto simp: reply_def not_less split: if_splits)
  qed
qed

lemma authenticate_cases:
  assumes "provider_authenticate (api_auth a) h r (w, kc, s) = y"
  obtains "\<not> provider_enabled (api_auth a) \<or> r_method r = MethodOptions" "y = h r (w, kc, s)"
  | e kc' where "provider_enabled (api_auth a)" "caller a r kc = Inl e" "y = (writeError 401 e w, kc', s)"
  | p kc' where "provider_enabled (api_auth a)" "caller a r kc = Inr p" "y = h (r\<lparr>r_ctx := Some p\<rparr>) (w, kc', s)"
proof (cases "provider_enabled (api_auth a) \<and> r_method r \<noteq> MethodOptions")
  case False
  then show ?thesis using that(1) router.authn_open [of "api_auth a" r h "(w, kc, s)"] assms by metis
next
  case True
  obtain c kc' s' where res: "provider_resolve (api_auth a) r (kc, s) = (c, kc', s')" by (metis surj_pair)
  then have s: "s' = s" using router.resolve_core [of "api_auth a" r "(kc, s)"] by simp
  have c: "caller a r kc = c" using res resolve_caller [of a r kc s] by simp
  show ?thesis
  proof (cases c)
    case (Inl e)
    then show ?thesis using that(2) [of e kc'] True c res s router.authn_fail [of "api_auth a" r "(kc, s)" e _ h w] assms by auto
  next
    case (Inr p)
    then show ?thesis using that(3) [of p kc'] True c res s router.authn_ok [of "api_auth a" r "(kc, s)" p _ h w] assms by auto
  qed
qed

section \<open>Below the API's prefix\<close>

inductive serve_step :: "API \<Rightarrow> core \<Rightarrow> core \<Rightarrow> bool" for a where
  handler: "api_step a c c' \<Longrightarrow> serve_step a c c'"
| audit: "serve_step a c (c\<lparr>s_db := snd (AppendAudit (api_store a) e (s_db c))\<rparr>)"

text \<open>As \<open>answers\<close>, for what may change the key cache.\<close>

definition replies :: "(core \<Rightarrow> core \<Rightarrow> bool) \<Rightarrow> exchange \<Rightarrow> exchange \<Rightarrow> bool" where
  "replies S x y \<longleftrightarrow>
     rtranclp S (core_of x) (core_of y) \<and> local_of y = local_of x \<and> (fresh (fst x) \<longrightarrow> sent (fst x) (fst y))"

lemma answers_replies: "answers S x y \<Longrightarrow> replies S x y"
  by (simp add: answers_def replies_def keeps_def)

lemma replies_mono: "replies S x y \<Longrightarrow> (\<And>c c'. S c c' \<Longrightarrow> T c c') \<Longrightarrow> replies T x y"
  using rtranclp_mono [of S T] by (auto simp: replies_def le_fun_def)

lemma sent_recorded:
  assumes "fresh w" and "sent (w\<lparr>w_recs := 200 # w_recs w\<rparr>) w'"
  shows "hd (w_recs w') = status_of w'" and "sent w (w'\<lparr>w_recs := tl (w_recs w')\<rparr>)"
  using assms by (auto simp: sent_def status_of_def)

lemma fresh_recorded: "fresh w \<Longrightarrow> fresh (w\<lparr>w_recs := 200 # w_recs w\<rparr>)"
  by (simp add: fresh_def)

text \<open>The status a recorder has at the end is the one that is sent.\<close>

lemma recorded_replies:
  assumes "\<And>x. replies S x (h r x)" and "recorded h r (w, s) = (st, y)"
  shows "replies S (w, s) y" and "fresh w \<Longrightarrow> st = status_of (fst y)"
proof -
  let ?w = "w\<lparr>w_recs := 200 # w_recs w\<rparr>"
  obtain w' s' where h: "h r (?w, s) = (w', s')" by (rule prod.exhaust)
  have y: "y = (w'\<lparr>w_recs := tl (w_recs w')\<rparr>, s')" "st = hd (w_recs w')" using assms(2) by (auto simp: recorded_def h)
  have r: "replies S (?w, s) (w', s')" using assms(1) [of "(?w, s)"] by (simp add: h)
  obtain kc c l where s: "s = (kc, c, l)" by (cases s)
  obtain kc' c' l' where s': "s' = (kc', c', l')" by (cases s')
  show "replies S (w, s) y"
    using r sent_recorded(2) [of w w'] fresh_recorded [of w] by (auto simp: replies_def y s s')
  show "st = status_of (fst y)" if "fresh w"
    using r sent_recorded(1) [OF that] fresh_recorded [OF that] by (auto simp: replies_def y status_of_def)
qed

lemma api_dispatch_answers: "answers (api_step a) x (api_dispatch a r x)"
proof (cases "chi_route (api_env a) (map fst api_routes) (r_method r) (sub_path (r_path r))")
  case (Matched i ps)
  show ?thesis
  proof (cases "i < length api_routes")
    case True
    note h = endpoint_answers(1) [OF True, of a x "get_first ps" r]
    show ?thesis
      by (rule require_cases [of "api_auth a" "fst (snd (api_routes ! i))" "snd (snd (api_routes ! i)) a (get_first ps)" r x])
        (use h in \<open>auto simp: api_dispatch_def Matched True case_prod_unfold intro!: answers_reply sent_writeError\<close>)
  next
    case False
    have "answers (api_step a) x (reply not_found x)" by (intro answers_reply sent_not_found)
    with False show ?thesis by (simp add: api_dispatch_def Matched)
  qed
qed (auto simp: api_dispatch_def intro!: answers_reply sent_intros)

lemma with_store_exchange:
  "with_store f (w, kc, c, l) = (fst (f (s_db c)), w, kc, c\<lparr>s_db := snd (f (s_db c))\<rparr>, l)"
  by (simp add: with_store_def on_core_def case_prod_unfold Let_def)

lemma with_graph_exchange:
  "with_graph f (w, kc, c, l) = (fst (f (s_graph c)), w, kc, c\<lparr>s_graph := snd (f (s_graph c))\<rparr>, l)"
  by (simp add: with_graph_def on_core_def case_prod_unfold Let_def)

lemma audit_replies:
  assumes "\<And>x. replies (serve_step a) x (h r x)"
  shows "replies (serve_step a) x (auditMiddleware a h r x)"
proof (cases "mutating r")
  case False
  then show ?thesis using assms by (simp add: auditMiddleware_def)
next
  case True
  obtain st y where rec: "recorded h r x = (st, y)" by (rule prod.exhaust)
  have y: "replies (serve_step a) x y" using recorded_replies(1) [of "serve_step a" h r "fst x" "snd x"] assms rec by simp
  obtain w kc c l where e: "y = (w, kc, c, l)" by (metis surj_pair)
  have "serve_step a c (c\<lparr>s_db := snd (AppendAudit (api_store a) (audit_entry r st) (s_db c))\<rparr>)" by (rule serve_step.audit)
  with y show ?thesis
    by (auto simp: auditMiddleware_def True rec e with_store_exchange replies_def elim: rtranclp.rtrancl_into_rtrancl)
qed

lemma api_router_replies: "replies (serve_step a) x (api_router a r x)"
proof -
  obtain w kc s where x: "x = (w, kc, s)" by (metis surj_pair)
  have d: "replies (serve_step a) x (api_dispatch a r x)" for r x
    using answers_replies [OF api_dispatch_answers] replies_mono serve_step.handler by blast
  note au = audit_replies [of a "api_dispatch a", OF d]
  show ?thesis unfolding x api_router_def
  proof (rule authenticate_cases [of a "auditMiddleware a (api_dispatch a)" r w kc s, OF refl])
    fix e kc'
    assume y: "provider_authenticate (api_auth a) (auditMiddleware a (api_dispatch a)) r (w, kc, s) = (writeError 401 e w, kc', s)"
    show "replies (serve_step a) (w, kc, s) (provider_authenticate (api_auth a) (auditMiddleware a (api_dispatch a)) r (w, kc, s))"
      unfolding y by (cases s) (simp add: replies_def sent_writeError)
  next
    fix p kc'
    assume y: "provider_authenticate (api_auth a) (auditMiddleware a (api_dispatch a)) r (w, kc, s) =
      auditMiddleware a (api_dispatch a) (r\<lparr>r_ctx := Some p\<rparr>) (w, kc', s)"
    show "replies (serve_step a) (w, kc, s) (provider_authenticate (api_auth a) (auditMiddleware a (api_dispatch a)) r (w, kc, s))"
      unfolding y using au [of "(w, kc', s)" "r\<lparr>r_ctx := Some p\<rparr>"] by (cases s) (simp add: replies_def)
  qed (use au in simp)
qed

lemma root_dispatch_replies: "replies (serve_step a) x (root_dispatch a r x)"
proof -
  have read: "replies (serve_step a) x y" if "answers read_step x y" for y
    using answers_replies [OF that] replies_mono api_step.reading serve_step.handler by (metis (full_types))
  have "replies (serve_step a) x (reply f x)" if "\<And>w. fresh w \<Longrightarrow> sent w (f w)" for f
    by (rule answers_replies [OF answers_reply [OF that]])
  then show ?thesis
    by (auto simp: root_dispatch_def intro: read root_answers api_router_replies sent_intros split: route_result.split)
qed

section \<open>From the server to the routes\<close>

definition pipeline :: "API \<Rightarrow> api_handler" where
  "pipeline a =
     SecurityHeaders
       (CORS (api_CORSOrigins a)
         (RateLimit (api_RateLimit a) (\<lambda>s. wall (api_env a) (l_request (snd (snd s)))) limiter_of set_limiter
           (MaxBody (2 ^ 20) (root_dispatch a))))"

lemma Router_pipeline: "Router a r x = observe (timeout a (pipeline a)) (r\<lparr>r_remote := real_ip (api_env a) r\<rparr>) x"
  by (simp add: Router_def pipeline_def)

text \<open>What differs between the writer the server makes and the one a handler gets: headers.\<close>

definition headed :: "Writer \<Rightarrow> Writer \<Rightarrow> bool" where
  "headed w w' \<longleftrightarrow> w_code w' = w_code w \<and> w_recs w' = w_recs w"

lemma headed_header [intro]: "headed w w' \<Longrightarrow> headed w (header_set k v w')" "headed w w' \<Longrightarrow> headed w (header_add k v w')"
  by (simp_all add: headed_def header_set_def header_add_def)

lemma headed_refl [simp]: "headed w w"
  by (simp add: headed_def)

lemma headed_fresh: "headed w w' \<Longrightarrow> fresh w \<Longrightarrow> fresh w'"
  by (simp add: headed_def fresh_def)

lemma headed_sent: "headed w w' \<Longrightarrow> sent w' = sent w"
  by (simp add: headed_def sent_def fun_eq_iff)

lemma SecurityHeaders_headed:
  obtains w' where "headed w w'" "SecurityHeaders h r (w, s) = h r (w', s)"
  by (rule that [unfolded SecurityHeaders_def Let_def prod.case, rotated], rule refl) (intro headed_header headed_refl)

lemma CORS_headed:
  obtains w' where "headed w w'" "CORS os h r (w, s) = (if r_method r = MethodOptions then (write_header 204 w', s) else h r (w', s))"
  by (rule that [unfolded CORS_def Let_def prod.case, rotated], rule refl) (auto intro!: headed_header)

lemma RateLimit_cases:
  obtains b where "RateLimit q now limiter_of set_limiter h r (w, kc, c, l) = h r (w, kc, c, l\<lparr>l_limiter := b\<rparr>)"
  | b where "RateLimit q now limiter_of set_limiter h r (w, kc, c, l) =
        (writeError 429 ''rate limit exceeded'' (header_set ''Retry-After'' ''1'' w), kc, c, l\<lparr>l_limiter := b\<rparr>)" "\<not> q \<le> Fin 0"
proof (cases "q \<le> Fin 0 \<or> r_method r = MethodOptions")
  case True
  then show ?thesis using that(1) [of "l_limiter l"] by (auto simp: RateLimit_def)
next
  case False
  obtain ok b where al: "allow q (q * to_f64 2) (clientIP r) (now (kc, c, l)) (limiter_of (kc, c, l)) = (ok, b)" by (rule prod.exhaust)
  then show ?thesis using that [of b] False by (cases ok) (auto simp: RateLimit_def set_limiter_def)
qed

text \<open>A request either is stopped on the way or reaches the routes with a writer that has headers only.\<close>

lemma pipeline_cases:
  assumes "fresh w"
  obtains (handled) w' b where "r_method r \<noteq> MethodOptions" "headed w w'"
      "pipeline a r (w, kc, c, l) = root_dispatch a (r\<lparr>r_limit := Some (2 ^ 20)\<rparr>) (w', kc, c, l\<lparr>l_limiter := b\<rparr>)"
  | (stopped) w' b where "pipeline a r (w, kc, c, l) = (w', kc, c, l\<lparr>l_limiter := b\<rparr>)" "sent w w'"
      "status_of w' = (if r_method r = MethodOptions then 204 else 429)" "r_method r = MethodOptions \<or> \<not> api_RateLimit a \<le> Fin 0"
proof -
  let ?now = "\<lambda>s. wall (api_env a) (l_request (snd (snd s)))"
  let ?m = "MaxBody (2 ^ 20) (root_dispatch a)"
  let ?rl = "RateLimit (api_RateLimit a) ?now limiter_of set_limiter ?m"
  obtain w1 where 1: "headed w w1" "pipeline a r (w, kc, c, l) = CORS (api_CORSOrigins a) ?rl r (w1, kc, c, l)"
    unfolding pipeline_def by (rule SecurityHeaders_headed)
  obtain w2 where 2: "headed w1 w2" "CORS (api_CORSOrigins a) ?rl r (w1, kc, c, l) =
      (if r_method r = MethodOptions then (write_header 204 w2, kc, c, l) else ?rl r (w2, kc, c, l))"
    by (rule CORS_headed)
  have h: "headed w w2" using 1(1) 2(1) by (simp add: headed_def)
  note f = headed_fresh [OF h assms]
  show ?thesis
  proof (cases "r_method r = MethodOptions")
    case True
    have "status_of (write_header 204 w2) = 204" using f by (simp add: fresh_def write_header_def send_header_def status_of_def)
    then show ?thesis using stopped [of "write_header 204 w2" "l_limiter l"] 1 2 True sent_write_header [OF f] headed_sent [OF h] by simp
  next
    case False
    show ?thesis
    proof (rule RateLimit_cases [of "api_RateLimit a" ?now ?m r w2 kc c l])
      fix b assume "?rl r (w2, kc, c, l) = ?m r (w2, kc, c, l\<lparr>l_limiter := b\<rparr>)"
      then show ?thesis using handled [OF False h, of b] 1 2 False by (simp add: MaxBody_def)
    next
      fix b assume pos: "\<not> api_RateLimit a \<le> Fin 0" and e: "?rl r (w2, kc, c, l) =
        (writeError 429 ''rate limit exceeded'' (header_set ''Retry-After'' ''1'' w2), kc, c, l\<lparr>l_limiter := b\<rparr>)"
      have f': "fresh (header_set k v w2)" "headed w2 (header_set k v w2)" for k v using f by (auto intro: fresh_header)
      have "sent w (writeError 429 m (header_set k v w2))" for m k v
        using sent_writeError [OF f'(1) http_statuses(10)] headed_sent [OF f'(2)] headed_sent [OF h] by metis
      then show ?thesis using stopped [of _ b] 1 2 False e pos status_writeError [OF f'(1)] by simp
    qed
  qed
qed

lemma pipeline_replies:
  assumes "fresh w" and "pipeline a r (w, kc, c, l) = (w', kc', c', l')"
  shows "rtranclp (serve_step a) c c'" and "sent w w'" and "\<exists>b. l' = l\<lparr>l_limiter := b\<rparr>"
proof -
  have "rtranclp (serve_step a) c c' \<and> sent w w' \<and> (\<exists>b. l' = l\<lparr>l_limiter := b\<rparr>)"
  proof (rule pipeline_cases [OF assms(1), of r a kc c l])
    fix w1 b
    assume h: "headed w w1"
      and p: "pipeline a r (w, kc, c, l) = root_dispatch a (r\<lparr>r_limit := Some (2 ^ 20)\<rparr>) (w1, kc, c, l\<lparr>l_limiter := b\<rparr>)"
    have d: "root_dispatch a (r\<lparr>r_limit := Some (2 ^ 20)\<rparr>) (w1, kc, c, l\<lparr>l_limiter := b\<rparr>) = (w', kc', c', l')"
      using p assms(2) by simp
    show ?thesis
      using root_dispatch_replies [of a "(w1, kc, c, l\<lparr>l_limiter := b\<rparr>)" "r\<lparr>r_limit := Some (2 ^ 20)\<rparr>"]
        headed_fresh [OF h assms(1)] headed_sent [OF h] unfolding d by (auto simp: replies_def)
  qed (use assms(2) in auto)
  then show "rtranclp (serve_step a) c c'" "sent w w'" "\<exists>b. l' = l\<lparr>l_limiter := b\<rparr>" by auto
qed

text \<open>One request: what the server's data become, and which answer of the pipeline is sent.\<close>

lemma serve_pipeline:
  assumes "serve a r (kc, c, l) = (w, kc', c', l')"
  obtains w1 w2 l1 l2 where "fresh w1" "w_recs w1 = [200]" "l1 = l\<lparr>l_request := l_request l + 1,
        l_metrics := (l_metrics l)\<lparr>m_total := m_total (l_metrics l) + 1, m_inFlight := m_inFlight (l_metrics l) + 1\<rparr>\<rparr>"
      "pipeline a (r\<lparr>r_remote := real_ip (api_env a) r\<rparr>) (w1, kc, c, l1) = (w2, kc', c', l2)"
      "w_code w = w_code w2" "w_body w = w_body w2" "l_request l' = l_request l + 1"
      "l_metrics l' = statusClass (if deadline (api_env a) (l_request l + 1) then 504 else status_of w2)
         ((l_metrics l)\<lparr>m_total := m_total (l_metrics l) + 1\<rparr>)"
proof -
  let ?r = "r\<lparr>r_remote := real_ip (api_env a) r\<rparr>"
  let ?w = "new_writer\<lparr>w_recs := [200]\<rparr>"
  let ?l = "l\<lparr>l_request := l_request l + 1,
        l_metrics := (l_metrics l)\<lparr>m_total := m_total (l_metrics l) + 1, m_inFlight := m_inFlight (l_metrics l) + 1\<rparr>\<rparr>"
  obtain w2 kc2 c2 l2 where p: "pipeline a ?r (?w, kc, c, ?l) = (w2, kc2, c2, l2)" by (metis surj_pair)
  have f: "fresh ?w" by (simp add: fresh_def new_writer_def)
  note q = pipeline_replies [OF f p]
  obtain b where l2: "l2 = ?l\<lparr>l_limiter := b\<rparr>" using q(3) by blast
  have s: "w_code w2 \<noteq> None" "w_recs w2 = [status_of w2]" using q(2) by (auto simp: sent_def)
  have "w_code (write_header 504 w2) = w_code w2" "w_recs (write_header 504 w2) = [504]"
    "w_body (write_header 504 w2) = w_body w2" using s by (auto simp: write_header_def send_header_def)
  then have "w_code w = w_code w2 \<and> w_body w = w_body w2 \<and> kc' = kc2 \<and> c' = c2 \<and> l_request l' = l_request l + 1 \<and>
      l_metrics l' = statusClass (if deadline (api_env a) (l_request l + 1) then 504 else status_of w2)
         ((l_metrics l)\<lparr>m_total := m_total (l_metrics l) + 1\<rparr>)"
    using assms p s
    by (cases "deadline (api_env a) (l_request l + 1)")
      (auto simp: serve_def Router_pipeline observe_def recorded_def on_metrics_def timeout_def new_writer_def reply_def l2 Let_def)
  then show ?thesis using that [OF f _ refl, of w2 l2] p by (simp add: new_writer_def)
qed

end
