(* ===== verification/Api_Guard.thy ===== *)
theory Api_Guard
  imports Api_Chain
begin

text \<open>
  What the server guarantees about any request: who may do what, what the audit trail records, which requests
  change nothing, and what the counters count.
\<close>

section \<open>Requests to the API\<close>

definition for_api :: "API \<Rightarrow> request \<Rightarrow> bool" where
  "for_api a r \<longleftrightarrow>
     (case chi_route (api_env a) root_table (r_method r) (r_path r) of Matched n _ \<Rightarrow> length root_routes \<le> n | _ \<Rightarrow> False)"

definition route_of :: "API \<Rightarrow> request \<Rightarrow> (Role \<times> endpoint \<times> (string \<Rightarrow> string)) option" where
  "route_of a r =
     (case chi_route (api_env a) (map fst api_routes) (r_method r) (sub_path (r_path r)) of
        Matched i ps \<Rightarrow>
          if i < length api_routes then Some (fst (snd (api_routes ! i)), snd (snd (api_routes ! i)), get_first ps) else None
      | _ \<Rightarrow> None)"

text \<open>The principal the request acts as: without authentication everyone is an administrator.\<close>

definition actor :: "API \<Rightarrow> request \<Rightarrow> key_cache \<Rightarrow> Principal option" where
  "actor a r kc =
     (if provider_enabled (api_auth a) then (case caller a r kc of Inr p \<Rightarrow> Some p | Inl _ \<Rightarrow> None)
      else Some \<lparr>p_ID = ''anonymous'', p_Role = RoleAdmin\<rparr>)"

text \<open>The request as the routes get it.\<close>

definition at_routes :: "API \<Rightarrow> request \<Rightarrow> Principal option \<Rightarrow> request" where
  "at_routes a r p = r\<lparr>r_remote := real_ip (api_env a) r, r_limit := Some (2 ^ 20), r_ctx := p\<rparr>"

lemma at_routes_fields [simp]:
  "r_method (at_routes a r p) = r_method r" "r_path (at_routes a r p) = r_path r"
  "r_remote (at_routes a r p) = real_ip (api_env a) r" "r_ctx (at_routes a r p) = p" "mutating (at_routes a r p) = mutating r"
  by (simp_all add: at_routes_def mutating_def)

lemma serve_api:
  assumes "serve a r (kc, c, l) = (w, kc', c', l')" and "for_api a r" and "r_ctx r = None"
  obtains (stopped) "c' = c" "status_of w = (if r_method r = MethodOptions then 204 else 429)"
      "r_method r = MethodOptions \<or> \<not> api_RateLimit a \<le> Fin 0"
  | (refused) e where "c' = c" "status_of w = 401" "actor a r kc = None"
  | (entered) p w1 kc1 l1 y where "r_method r \<noteq> MethodOptions" "fresh w1" "l_request l1 = l_request l + 1"
      "actor a r kc = Some p" "y = auditMiddleware a (api_dispatch a)
         (at_routes a r (if provider_enabled (api_auth a) then Some p else None)) (w1, kc1, c, l1)"
      "c' = core_of y" "status_of w = status_of (fst y)" "w_body w = w_body (fst y)"
proof (rule serve_pipeline [OF assms(1)])
  fix w1 w2 l1 l2
  assume f: "fresh w1" and l1: "l1 = l\<lparr>l_request := l_request l + 1,
        l_metrics := (l_metrics l)\<lparr>m_total := m_total (l_metrics l) + 1, m_inFlight := m_inFlight (l_metrics l) + 1\<rparr>\<rparr>"
    and p: "pipeline a (r\<lparr>r_remote := real_ip (api_env a) r\<rparr>) (w1, kc, c, l1) = (w2, kc', c', l2)"
    and w: "w_code w = w_code w2" "w_body w = w_body w2"
  have st: "status_of w = status_of w2" using w by (simp add: status_of_def)
  let ?r = "r\<lparr>r_remote := real_ip (api_env a) r\<rparr>"
  show thesis
  proof (rule pipeline_cases [OF f, of ?r a kc c l1])
    fix w' b
    assume "pipeline a ?r (w1, kc, c, l1) = (w', kc, c, l1\<lparr>l_limiter := b\<rparr>)"
      "status_of w' = (if r_method ?r = MethodOptions then 204 else 429)" "r_method ?r = MethodOptions \<or> \<not> api_RateLimit a \<le> Fin 0"
    then show thesis using stopped p st by simp
  next
    fix w3 b
    assume m: "r_method ?r \<noteq> MethodOptions" and h: "headed w1 w3" and
      d: "pipeline a ?r (w1, kc, c, l1) = root_dispatch a (?r\<lparr>r_limit := Some (2 ^ 20)\<rparr>) (w3, kc, c, l1\<lparr>l_limiter := b\<rparr>)"
    let ?r2 = "?r\<lparr>r_limit := Some (2 ^ 20)\<rparr>"
    let ?l3 = "l1\<lparr>l_limiter := b\<rparr>"
    have f3: "fresh w3" by (rule headed_fresh [OF h f])
    have "root_dispatch a ?r2 x = api_router a ?r2 x" for x
      using assms(2) by (auto simp: root_dispatch_def for_api_def split: route_result.splits)
    then have d2: "provider_authenticate (api_auth a) (auditMiddleware a (api_dispatch a)) ?r2 (w3, kc, c, ?l3) = (w2, kc', c', l2)"
      using d p by (simp add: api_router_def)
    show thesis
    proof (rule authenticate_cases [OF d2])
      assume "\<not> provider_enabled (api_auth a) \<or> r_method ?r2 = MethodOptions"
        and y: "(w2, kc', c', l2) = auditMiddleware a (api_dispatch a) ?r2 (w3, kc, c, ?l3)"
      then have e: "\<not> provider_enabled (api_auth a)" using m by simp
      have "?r2 = at_routes a r None" using assms(3) by (simp add: at_routes_def)
      then have y': "(w2, kc', c', l2) = auditMiddleware a (api_dispatch a)
          (at_routes a r (if provider_enabled (api_auth a) then Some \<lparr>p_ID = ''anonymous'', p_Role = RoleAdmin\<rparr> else None)) (w3, kc, c, ?l3)"
        using y e by simp
      show thesis by (rule entered [OF _ f3 _ _ y']) (use e m l1 st w in \<open>simp_all add: actor_def\<close>)
    next
      fix e kc2
      assume "provider_enabled (api_auth a)" "caller a ?r2 kc = Inl e" "(w2, kc', c', l2) = (writeError 401 e w3, kc2, c, ?l3)"
      then show thesis using refused st status_writeError [OF f3] by (simp add: actor_def)
    next
      fix q kc2
      assume e: "provider_enabled (api_auth a)" "caller a ?r2 kc = Inr q"
        and y: "(w2, kc', c', l2) = auditMiddleware a (api_dispatch a) (?r2\<lparr>r_ctx := Some q\<rparr>) (w3, kc2, c, ?l3)"
      have "?r2\<lparr>r_ctx := Some q\<rparr> = at_routes a r (Some q)" by (simp add: at_routes_def)
      then have y': "(w2, kc', c', l2) = auditMiddleware a (api_dispatch a)
          (at_routes a r (if provider_enabled (api_auth a) then Some q else None)) (w3, kc2, c, ?l3)"
        using y e by simp
      show thesis by (rule entered [OF _ f3 _ _ y']) (use e m l1 st w in \<open>simp_all add: actor_def\<close>)
    qed
  qed
qed

lemma dispatch_route:
  "api_dispatch a r x =
     (case route_of a r of
        Some (role, h, ps) \<Rightarrow> provider_require (api_auth a) role (h a ps) r x
      | None \<Rightarrow> reply (case chi_route (api_env a) (map fst api_routes) (r_method r) (sub_path (r_path r)) of
                         BadMethod ms \<Rightarrow> bad_method ms | _ \<Rightarrow> not_found) x)"
  by (auto simp: api_dispatch_def route_of_def case_prod_unfold split: route_result.split)

lemma route_of_at_routes [simp]: "route_of a (at_routes a r p) = route_of a r"
  by (simp add: route_of_def)

text \<open>What the audit trail adds to what the handler does.\<close>

lemma audit_outcome:
  assumes "\<And>x. answers S x (h r x)" and "fresh w"
  obtains y where "rtranclp S c (core_of y)" "sent w (fst y)" "status_of (fst (auditMiddleware a h r (w, kc, c, l))) = status_of (fst y)"
    "w_body (fst (auditMiddleware a h r (w, kc, c, l))) = w_body (fst y)"
    "core_of (auditMiddleware a h r (w, kc, c, l)) =
       (if mutating r then (core_of y)\<lparr>s_db := snd (AppendAudit (api_store a) (audit_entry r (status_of (fst y))) (s_db (core_of y)))\<rparr>
        else core_of y)"
    "y = h r (if mutating r then w\<lparr>w_recs := 200 # w_recs w\<rparr> else w, kc, c, l) \<or>
     (\<exists>v s. h r (w\<lparr>w_recs := 200 # w_recs w\<rparr>, kc, c, l) = (v, s) \<and> y = (v\<lparr>w_recs := tl (w_recs v)\<rparr>, s))"
proof (cases "mutating r")
  case False
  have "answers S (w, kc, c, l) (h r (w, kc, c, l))" by (rule assms(1))
  then show ?thesis using that [of "h r (w, kc, c, l)"] False assms(2)
    by (auto simp: auditMiddleware_def answers_def keeps_def)
next
  case True
  obtain v kc' c' l' where h: "h r (w\<lparr>w_recs := 200 # w_recs w\<rparr>, kc, c, l) = (v, kc', c', l')" by (metis surj_pair)
  obtain st y where rec: "recorded h r (w, kc, c, l) = (st, y)" by (rule prod.exhaust)
  have y: "y = (v\<lparr>w_recs := tl (w_recs v)\<rparr>, kc', c', l')" using rec by (auto simp: recorded_def h)
  have a: "\<And>x. replies S x (h r x)" by (rule answers_replies [OF assms(1)])
  have "replies S (w, kc, c, l) y" "st = status_of (fst y)" using recorded_replies [OF a rec] assms(2) by auto
  then show ?thesis using that [of y] True assms(2) h
    by (auto simp: auditMiddleware_def rec with_store_exchange replies_def y)
qed

section \<open>Access control\<close>

text \<open>The rows an operation may leave alone: all but the audit trail.\<close>

definition same_data :: "core \<Rightarrow> core \<Rightarrow> bool" where
  "same_data c c' \<longleftrightarrow>
     assets (s_db c') = assets (s_db c) \<and> scan_jobs (s_db c') = scan_jobs (s_db c) \<and> findings (s_db c') = findings (s_db c) \<and>
     s_graph c' = s_graph c \<and> s_redis c' = s_redis c"

lemma AppendAudit_same: "same_data c (c\<lparr>s_db := snd (AppendAudit E e (s_db c))\<rparr>)"
  by (simp add: same_data_def AppendAudit_def call_def Let_def)

text \<open>A request that addresses a route is kept away from its handler, or the handler decides the answer.\<close>

lemma serve_handler:
  assumes "serve a r (kc, c, l) = (w, kc', c', l')" and "for_api a r" and "r_ctx r = None" and "route_of a r = Some (role, h, ps)"
    and q: "q = (if provider_enabled (api_auth a) then actor a r kc else None)"
  obtains (away) "same_data c c'" "status_of w \<in> {204, 401, 403, 429}"
      "r_method r = MethodOptions \<or> \<not> api_RateLimit a \<le> Fin 0 \<or> (\<forall>p. actor a r kc = Some p \<longrightarrow> p_Role p < role)"
  | (handled) p x y where "actor a r kc = Some p" "role \<le> p_Role p" "core_of x = c" "fresh (fst x)" "l_request (local_of x) = l_request l + 1"
      "y = h a ps (at_routes a r q) x"
      "status_of w = status_of (fst y)" "w_body w = w_body (fst y)"
      "c' = core_of y \<or> (\<exists>e. c' = (core_of y)\<lparr>s_db := snd (AppendAudit (api_store a) e (s_db (core_of y)))\<rparr>)"
proof (rule serve_api [OF assms(1-3)])
  fix p w1 kc1 l1 y
  assume m: "r_method r \<noteq> MethodOptions" and f: "fresh w1" and l1: "l_request l1 = l_request l + 1" and p: "actor a r kc = Some p"
    and y: "y = auditMiddleware a (api_dispatch a) (at_routes a r (if provider_enabled (api_auth a) then Some p else None)) (w1, kc1, c, l1)"
    and c': "c' = core_of y" and st: "status_of w = status_of (fst y)" and bd: "w_body w = w_body (fst y)"
  let ?r = "at_routes a r q"
  have y': "y = auditMiddleware a (api_dispatch a) ?r (w1, kc1, c, l1)" using y p by (simp add: q)
  obtain z where z: "status_of (fst y) = status_of (fst z)" "w_body (fst y) = w_body (fst z)"
      "core_of y = (if mutating ?r then (core_of z)\<lparr>s_db := snd (AppendAudit (api_store a) (audit_entry ?r (status_of (fst z))) (s_db (core_of z)))\<rparr>
        else core_of z)"
      "z = api_dispatch a ?r (if mutating ?r then w1\<lparr>w_recs := 200 # w_recs w1\<rparr> else w1, kc1, c, l1) \<or>
       (\<exists>v s. api_dispatch a ?r (w1\<lparr>w_recs := 200 # w_recs w1\<rparr>, kc1, c, l1) = (v, s) \<and> z = (v\<lparr>w_recs := tl (w_recs v)\<rparr>, s))"
    unfolding y' by (rule audit_outcome [where h = "api_dispatch a" and r = ?r and c = c and kc = kc1 and l = l1 and a = a,
      OF api_dispatch_answers f])
  have "\<exists>x. core_of x = c \<and> fresh (fst x) \<and> local_of x = l1 \<and> status_of (fst z) = status_of (fst (api_dispatch a ?r x)) \<and>
      w_body (fst z) = w_body (fst (api_dispatch a ?r x)) \<and> core_of z = core_of (api_dispatch a ?r x)"
    using z(4)
  proof
    assume "z = api_dispatch a ?r (if mutating ?r then w1\<lparr>w_recs := 200 # w_recs w1\<rparr> else w1, kc1, c, l1)"
    then show ?thesis using f fresh_recorded [OF f]
      by (intro exI [of _ "(if mutating ?r then w1\<lparr>w_recs := 200 # w_recs w1\<rparr> else w1, kc1, c, l1)"]) simp
  next
    assume "\<exists>v s. api_dispatch a ?r (w1\<lparr>w_recs := 200 # w_recs w1\<rparr>, kc1, c, l1) = (v, s) \<and> z = (v\<lparr>w_recs := tl (w_recs v)\<rparr>, s)"
    then obtain v s where "api_dispatch a ?r (w1\<lparr>w_recs := 200 # w_recs w1\<rparr>, kc1, c, l1) = (v, s)" "z = (v\<lparr>w_recs := tl (w_recs v)\<rparr>, s)"
      by blast
    then show ?thesis using fresh_recorded [OF f]
      by (intro exI [of _ "(w1\<lparr>w_recs := 200 # w_recs w1\<rparr>, kc1, c, l1)"], cases s) (simp add: status_of_def)
  qed
  then obtain x where x: "core_of x = c" "fresh (fst x)" "local_of x = l1" "status_of (fst z) = status_of (fst (api_dispatch a ?r x))"
    "w_body (fst z) = w_body (fst (api_dispatch a ?r x))" "core_of z = core_of (api_dispatch a ?r x)" by blast
  have after: "c' = core_of z \<or> (\<exists>e. c' = (core_of z)\<lparr>s_db := snd (AppendAudit (api_store a) e (s_db (core_of z)))\<rparr>)"
    using z(3) c' by auto
  have d: "api_dispatch a ?r x = provider_require (api_auth a) role (h a ps) ?r x" by (simp add: dispatch_route assms(4))
  show thesis
  proof (rule require_cases [of "api_auth a" role "h a ps" ?r x])
    assume "provider_require (api_auth a) role (h a ps) ?r x = h a ps ?r x"
      and ok: "\<not> provider_enabled (api_auth a) \<or> r_method ?r = MethodOptions \<or> (\<exists>q. r_ctx ?r = Some q \<and> role \<le> p_Role q)"
    moreover have "role \<le> p_Role p" using ok m p by (auto simp: q actor_def split: if_splits)
    ultimately show thesis using handled [OF p _ x(1,2) _ refl] x z st bd after l1 d by simp
  next
    fix k msg
    assume k: "k \<in> {401, 403}" "provider_require (api_auth a) role (h a ps) ?r x = reply (writeError k msg) x"
      and low: "\<And>q. r_ctx ?r = Some q \<Longrightarrow> p_Role q < role" "provider_enabled (api_auth a)"
    have "status_of (fst (api_dispatch a ?r x)) = k" "core_of (api_dispatch a ?r x) = c"
      using k(2) d x(1,2) status_writeError [OF x(2)] by (cases x; auto simp: reply_def)+
    then show thesis using away k(1) x z st after AppendAudit_same low p by (auto simp: same_data_def q)
  qed
qed (use away in \<open>auto simp: same_data_def split: if_splits\<close>)

text \<open>C1: Access control, for the whole table of routes and either kind of authentication: a request whose caller is
  not authenticated, or has a role below the one of the route it addresses, is answered with 401 or 403
  (or stopped by the rate limit or as a preflight) and changes nothing but the audit trail.\<close>

theorem access_control:
  assumes "provider_enabled (api_auth a)" and "r_ctx r = None" and "for_api a r" and "route_of a r = Some (role, h, ps)"
    and "\<forall>p. actor a r kc = Some p \<longrightarrow> p_Role p < role" and "serve a r (kc, c, l) = (w, kc', c', l')"
  shows "same_data c c' \<and> status_of w \<in> {204, 401, 403, 429}"
  by (rule serve_handler [OF assms(6,3,2,4) refl]) (use assms(5) in auto)

section \<open>The audit trail\<close>

lemma read_step_frame: "read_step c c' \<Longrightarrow> \<exists>n m. c' = c\<lparr>s_db := (s_db c)\<lparr>tick := n\<rparr>, s_graph := (s_graph c)\<lparr>g_tick := m\<rparr>\<rparr>"
proof (induction rule: read_step.induct)
  case (query c n)
  show ?case by (intro exI [of _ n] exI [of _ "g_tick (s_graph c)"]) simp
next
  case (graph_query c n)
  show ?case by (intro exI [of _ "tick (s_db c)"] exI [of _ n]) simp
qed

lemma read_steps_frame:
  "rtranclp read_step c c' \<Longrightarrow> \<exists>n m. c' = c\<lparr>s_db := (s_db c)\<lparr>tick := n\<rparr>, s_graph := (s_graph c)\<lparr>g_tick := m\<rparr>\<rparr>"
proof (induction rule: rtranclp_induct)
  case base
  show ?case by (intro exI [of _ "tick (s_db c)"] exI [of _ "g_tick (s_graph c)"]) simp
next
  case (step y z)
  then obtain n m n' m' where "y = c\<lparr>s_db := (s_db c)\<lparr>tick := n\<rparr>, s_graph := (s_graph c)\<lparr>g_tick := m\<rparr>\<rparr>"
      "z = y\<lparr>s_db := (s_db y)\<lparr>tick := n'\<rparr>, s_graph := (s_graph y)\<lparr>g_tick := m'\<rparr>\<rparr>"
    using read_step_frame by blast
  then show ?case by (intro exI [of _ n'] exI [of _ m']) simp
qed

lemma api_step_audit: "api_step a c c' \<Longrightarrow> audit_log (s_db c') = audit_log (s_db c)"
proof (induction rule: api_step.induct)
  case (reading c c')
  then show ?case by (auto dest!: read_step_frame)
next
  case (enqueue j c job d)
  have "audit_log (snd (CreateScanJob (api_store a) j (s_db c))) = audit_log (s_db c)"
    by (auto simp: CreateScanJob_def call_def Let_def split: option.split)
  with enqueue show ?case by simp
qed (auto simp: CreateAsset_def SetAssetAuthorization_def CreateScanJob_def UpdateFindingStatus_def call_def Let_def split: option.split)

lemma api_steps_audit: "rtranclp (api_step a) c c' \<Longrightarrow> audit_log (s_db c') = audit_log (s_db c)"
  by (induction rule: rtranclp_induct) (auto dest: api_step_audit)

definition audit_shows :: "API \<Rightarrow> request \<Rightarrow> Principal \<Rightarrow> int \<Rightarrow> AuditEntry \<Rightarrow> bool" where
  "audit_shows a r p status e \<longleftrightarrow>
     e_Actor e = p_ID p \<and> e_Role e = role_string (p_Role p) \<and> e_Method e = r_method r \<and> e_Path e = r_path r \<and>
     e_Status e = status \<and> e_RemoteIP e = real_ip (api_env a) r"

lemma AppendAudit_log:
  "\<exists>new. audit_log (snd (AppendAudit E e d)) = audit_log d @ new \<and> length new \<le> 1 \<and>
     (\<forall>f \<in> set new. e_Actor f = e_Actor e \<and> e_Role f = e_Role e \<and> e_Method f = e_Method e \<and> e_Path f = e_Path e \<and>
        e_Status f = e_Status e \<and> e_RemoteIP f = e_RemoteIP e) \<and>
     (\<not> fault_at E (tick d) \<and> audit_check E e \<longrightarrow> new \<noteq> [])"
proof -
  have "audit_check E (e\<lparr>e_TS := t, e_PrevHash := p, e_Hash := h, e_Seq := q\<rparr>) = audit_check E e" for t p h q
    by (simp add: audit_check_def)
  then show ?thesis by (auto simp: AppendAudit_def call_def Let_def intro!: exI [of _ "[]"])
qed

definition audit_texts :: "API \<Rightarrow> request \<Rightarrow> Principal \<Rightarrow> string list" where
  "audit_texts a r p = [p_ID p, role_string (p_Role p), r_method r, r_path r, real_ip (api_env a) r]"

lemma request_audited:
  assumes "for_api a r" and "r_ctx r = None" and "serve a r (kc, c, l) = (w, kc', c', l')"
  shows "\<exists>new. audit_log (s_db c') = audit_log (s_db c) @ new \<and> length new \<le> 1 \<and>
    (\<forall>e \<in> set new. mutating r \<and> (\<exists>p. actor a r kc = Some p \<and> audit_shows a r p (status_of w) e)) \<and>
    (\<forall>p. (\<forall>t. \<not> fault_at (api_store a) t) \<and> mutating r \<and> status_of w \<noteq> 429 \<and> actor a r kc = Some p \<and>
       list_all (text_ok (api_store a)) (audit_texts a r p) \<longrightarrow> new \<noteq> [])"
proof (rule serve_api [OF assms(3,1,2)])
  fix p w1 kc1 l1 y
  assume m: "r_method r \<noteq> MethodOptions" and f: "fresh w1" and p: "actor a r kc = Some p" and c': "c' = core_of y"
    and y: "y = auditMiddleware a (api_dispatch a) (at_routes a r (if provider_enabled (api_auth a) then Some p else None)) (w1, kc1, c, l1)"
    and st: "status_of w = status_of (fst y)"
  let ?r = "at_routes a r (if provider_enabled (api_auth a) then Some p else None)"
  have pr: "PrincipalFromRequest ?r = p"
    using p by (auto simp: PrincipalFromRequest_def principalFrom_def actor_def split: if_splits)
  obtain z where z: "rtranclp (api_step a) c (core_of z)" "sent w1 (fst z)" "status_of (fst y) = status_of (fst z)"
      "core_of y = (if mutating ?r then (core_of z)\<lparr>s_db := snd (AppendAudit (api_store a) (audit_entry ?r (status_of (fst z))) (s_db (core_of z)))\<rparr>
        else core_of z)"
    unfolding y by (rule audit_outcome [where h = "api_dispatch a" and r = ?r and c = c and kc = kc1 and l = l1 and a = a,
      OF api_dispatch_answers f])
  note log = api_steps_audit [OF z(1)]
  show ?thesis
  proof (cases "mutating r")
    case False
    then show ?thesis using z(4) log c' by (intro exI [of _ "[]"]) simp
  next
    case True
    let ?e = "audit_entry ?r (status_of (fst z))"
    obtain new where n: "audit_log (snd (AppendAudit (api_store a) ?e (s_db (core_of z)))) = audit_log (s_db (core_of z)) @ new" "length new \<le> 1"
        "\<forall>f \<in> set new. e_Actor f = e_Actor ?e \<and> e_Role f = e_Role ?e \<and> e_Method f = e_Method ?e \<and> e_Path f = e_Path ?e \<and>
           e_Status f = e_Status ?e \<and> e_RemoteIP f = e_RemoteIP ?e"
        "\<not> fault_at (api_store a) (tick (s_db (core_of z))) \<and> audit_check (api_store a) ?e \<longrightarrow> new \<noteq> []"
      using AppendAudit_log [of "api_store a" ?e "s_db (core_of z)"] by blast
    have e: "e_Actor ?e = p_ID p" "e_Role ?e = role_string (p_Role p)" "e_Method ?e = r_method r" "e_Path ?e = r_path r"
      "e_RemoteIP ?e = real_ip (api_env a) r" "e_Status ?e = status_of w"
      using pr z(3) st by (simp_all add: audit_entry_def Let_def)
    have "audit_check (api_store a) ?e" if "list_all (text_ok (api_store a)) (audit_texts a r p)"
      using that z(2,3) st e by (auto simp: audit_check_def audit_texts_def sent_def http_status_def)
    then show ?thesis using n e z(4) log c' True p by (intro exI [of _ new]) (auto simp: audit_shows_def)
  qed
qed (auto intro: exI [of _ "[]"] simp: mutating_def)


section \<open>Requests that change nothing\<close>

text \<open>chi's promise: a match is a row of the table with the method of the request, or with any method.\<close>

definition chi_ok :: "api_env \<Rightarrow> bool" where
  "chi_ok E \<longleftrightarrow> (\<forall>tab m p i ps. chi_route E tab m p = Matched i ps \<longrightarrow> i < length tab \<and> fst (tab ! i) \<in> {m, ''*''})"

lemma chi_okD: "chi_ok E \<Longrightarrow> chi_route E tab m p = Matched i ps \<Longrightarrow> i < length tab \<and> fst (tab ! i) \<in> {m, ''*''}"
  unfolding chi_ok_def by blast

lemma dispatch_reads:
  assumes "chi_ok (api_env a)" and "\<not> mutating r"
  shows "answers read_step x (api_dispatch a r x)"
proof (cases "chi_route (api_env a) (map fst api_routes) (r_method r) (sub_path (r_path r))")
  case (Matched i ps)
  from chi_okD [OF assms(1) this] have i: "i < length api_routes" "fst (fst (api_routes ! i)) \<in> {r_method r, ''*''}"
    by auto
  have "list_all (\<lambda>((m, _), _). m = MethodGet \<or> m \<in> {MethodPost, MethodPatch}) api_routes" by (simp add: api_routes_def)
  with i assms(2) have "fst (fst (api_routes ! i)) = MethodGet"
    by (auto simp: list_all_length case_prod_unfold mutating_def)
  note h = endpoint_answers(2) [OF i(1) this, of x a "get_first ps" r]
  show ?thesis
    by (rule require_cases [of "api_auth a" "fst (snd (api_routes ! i))" "snd (snd (api_routes ! i)) a (get_first ps)" r x])
      (use h i(1) in \<open>auto simp: api_dispatch_def Matched case_prod_unfold intro!: answers_reply sent_writeError\<close>)
qed (auto simp: api_dispatch_def intro!: answers_reply sent_intros)

lemma root_reads:
  assumes "chi_ok (api_env a)" and "\<not> mutating r"
  shows "replies read_step x (root_dispatch a r x)"
proof -
  obtain w kc s where x: "x = (w, kc, s)" by (metis surj_pair)
  have d: "replies read_step x (auditMiddleware a (api_dispatch a) r' x)" if "\<not> mutating r'" for r' x
    using answers_replies [OF dispatch_reads [OF assms(1) that]] that by (simp add: auditMiddleware_def)
  have "replies read_step x (api_router a r x)" unfolding x api_router_def
  proof (rule authenticate_cases [of a "auditMiddleware a (api_dispatch a)" r w kc s, OF refl])
    fix e kc'
    assume y: "provider_authenticate (api_auth a) (auditMiddleware a (api_dispatch a)) r (w, kc, s) = (writeError 401 e w, kc', s)"
    show "replies read_step (w, kc, s) (provider_authenticate (api_auth a) (auditMiddleware a (api_dispatch a)) r (w, kc, s))"
      unfolding y by (cases s) (simp add: replies_def sent_writeError)
  next
    fix p kc'
    assume y: "provider_authenticate (api_auth a) (auditMiddleware a (api_dispatch a)) r (w, kc, s) =
      auditMiddleware a (api_dispatch a) (r\<lparr>r_ctx := Some p\<rparr>) (w, kc', s)"
    show "replies read_step (w, kc, s) (provider_authenticate (api_auth a) (auditMiddleware a (api_dispatch a)) r (w, kc, s))"
      unfolding y using d [of "r\<lparr>r_ctx := Some p\<rparr>" "(w, kc', s)"] assms(2) by (cases s) (simp add: replies_def mutating_def)
  qed (use d assms(2) in simp)
  moreover have "replies read_step x (reply f x)" if "\<And>w. fresh w \<Longrightarrow> sent w (f w)" for f
    by (rule answers_replies [OF answers_reply [OF that]])
  ultimately show ?thesis
    by (auto simp: root_dispatch_def intro: answers_replies root_answers sent_intros split: route_result.split)
qed

text \<open>C16: Reading is safe: a request with a method other than POST, PATCH, PUT and DELETE leaves every table, the audit
  trail, the graph and the queue as they were; only the counts of calls to the databases move on.\<close>

theorem reads_change_nothing:
  assumes "chi_ok (api_env a)" and "\<not> mutating r" and "serve a r (kc, c, l) = (w, kc', c', l')"
  shows "\<exists>n m. c' = c\<lparr>s_db := (s_db c)\<lparr>tick := n\<rparr>, s_graph := (s_graph c)\<lparr>g_tick := m\<rparr>\<rparr>"
proof (rule serve_pipeline [OF assms(3)])
  fix w1 w2 l1 l2
  let ?r = "r\<lparr>r_remote := real_ip (api_env a) r\<rparr>"
  assume f: "fresh w1" and p: "pipeline a ?r (w1, kc, c, l1) = (w2, kc', c', l2)"
  have r: "\<not> mutating (?r\<lparr>r_limit := Some (2 ^ 20)\<rparr>)" using assms(2) by (simp add: mutating_def)
  have "rtranclp read_step c c'"
  proof (rule pipeline_cases [OF f, of ?r a kc c l1])
    fix w' b
    assume d: "pipeline a ?r (w1, kc, c, l1) = root_dispatch a (?r\<lparr>r_limit := Some (2 ^ 20)\<rparr>) (w', kc, c, l1\<lparr>l_limiter := b\<rparr>)"
    then have d: "root_dispatch a (?r\<lparr>r_limit := Some (2 ^ 20)\<rparr>) (w', kc, c, l1\<lparr>l_limiter := b\<rparr>) = (w2, kc', c', l2)" using p by simp
    show ?thesis using root_reads [OF assms(1) r, of "(w', kc, c, l1\<lparr>l_limiter := b\<rparr>)"] unfolding d by (simp add: replies_def)
  qed (use p in simp)
  then show ?thesis by (rule read_steps_frame)
qed

section \<open>The counters\<close>

definition in_class :: "int \<Rightarrow> int \<Rightarrow> int \<Rightarrow> bool" where
  "in_class lo hi status \<longleftrightarrow> lo \<le> status \<and> status < hi"

definition answers_in :: "int \<Rightarrow> int \<Rightarrow> int list \<Rightarrow> int" where
  "answers_in lo hi sts = int (length (filter (in_class lo hi) sts))"

text \<open>What the counters' recorder sees of the answers, from request \<open>n + 1\<close> on.\<close>

fun recorded_statuses :: "API \<Rightarrow> nat \<Rightarrow> Writer list \<Rightarrow> int list" where
  "recorded_statuses a n [] = []"
| "recorded_statuses a n (w # ws) =
     (if deadline (api_env a) (n + 1) then 504 else status_of w) # recorded_statuses a (n + 1) ws"


section \<open>A server\<close>

text \<open>A small router that keeps chi's promise: the first row whose pattern has the path's segments.\<close>

fun bind_segments :: "string list \<Rightarrow> string list \<Rightarrow> (string \<times> string) list option" where
  "bind_segments [] [] = Some []"
| "bind_segments (p # ps) (s # ss) =
     (if p = ''*'' then Some [(''*'', join ''/'' (s # ss))]
      else if take 1 p = ''{'' then map_option (Cons (butlast (tl p), s)) (bind_segments ps ss)
      else if p = s then bind_segments ps ss else None)"
| "bind_segments _ _ = None"

definition sample_chi :: "(string \<times> string) list \<Rightarrow> string \<Rightarrow> string \<Rightarrow> route_result" where
  "sample_chi tab m p =
     (let bind = (\<lambda>i. bind_segments (split_on (CHR ''/'') (snd (tab ! i))) (split_on (CHR ''/'') p))
      in case find (\<lambda>i. (fst (tab ! i) = m \<or> fst (tab ! i) = ''*'') \<and> bind i \<noteq> None) [0..<length tab] of
           Some i \<Rightarrow> Matched i (the (bind i))
         | None \<Rightarrow> (case filter (\<lambda>i. bind i \<noteq> None) [0..<length tab] of [] \<Rightarrow> NoRoute | is \<Rightarrow> BadMethod (map (\<lambda>i. fst (tab ! i)) is)))"

definition sample_api_env :: api_env where
  "sample_api_env =
     \<lparr>wall = (\<lambda>_. 0), fresh_uuid = (\<lambda>n. ''account''), ping_db = (\<lambda>_. None), ping_redis = (\<lambda>_. None), deadline = (\<lambda>_. False),
      db_text = (\<lambda>_. ''database error''), redis_text = (\<lambda>_. ''redis error''), decode_text = (\<lambda>_. ''bad body''), quoted_text = (\<lambda>s. s),
      feed = global_feed, chi_route = sample_chi, real_ip = r_remote\<rparr>"

definition sample_store :: env where
  "sample_store = demo_env\<lparr>fault_at := (\<lambda>_. False)\<rparr>"

definition sample_api :: API where
  "sample_api = New sample_store \<lparr>q_key = ''k'', redis_fault = (\<lambda>_. False), redis_lost = (\<lambda>_. 0)\<rparr> None (Some (ApiKeys demo_keys)) [] (Fin 0) sample_api_env"

definition no_keys :: key_cache where
  "no_keys = \<lparr>v_keys = [], v_fetched = False, v_tick = 0\<rparr>"

definition sample_core :: core where
  "sample_core = \<lparr>s_db = db_empty, s_graph = graph_empty, s_redis = \<lparr>lists = (\<lambda>_. []), redis_tick = 0\<rparr>\<rparr>"

definition sample_local :: local where
  "sample_local = \<lparr>l_metrics = metrics_zero, l_limiter = limiter_new, l_request = 0\<rparr>"

lemma sample_chi_ok: "chi_ok sample_api_env"
  by (auto simp: chi_ok_def sample_api_env_def sample_chi_def Let_def split: option.splits list.splits if_splits dest!: find_SomeD)

lemma sample_fields [simp]:
  "api_env sample_api = sample_api_env" "api_auth sample_api = ApiKeys demo_keys" "api_store sample_api = sample_store"
  "provider_enabled (api_auth sample_api)" "\<not> deadline sample_api_env n" "l_metrics sample_local = metrics_zero"
  "real_ip sample_api_env r = r_remote r" "chi_route sample_api_env = sample_chi"
  by (simp_all add: sample_api_def New_def sample_api_env_def demo_keys_def sample_local_def)

lemma demo_request_fields [simp]:
  "r_ctx (demo_request k) = None" "r_method (demo_request k) = MethodPost" "r_path (demo_request k) = ''/api/v1/assets''"
  "mutating (demo_request k)"
  by (simp_all add: demo_request_def mutating_def)

lemma demo_request_routes:
  "for_api sample_api (demo_request k)" "\<exists>ps. route_of sample_api (demo_request k) = Some (RoleAnalyst, createAsset, ps)"
  by (simp_all add: for_api_def route_of_def sample_chi_def root_table_def root_routes_def api_routes_def api_prefix_def sub_path_def Let_def
      upt_rec)

lemma demo_request_actor:
  "actor sample_api (demo_request ''s1'') kc = Some \<lparr>p_ID = ''ops'', p_Role = RoleAdmin\<rparr>"
  "actor sample_api (demo_request ''s2'') kc = Some \<lparr>p_ID = ''view'', p_Role = RoleViewer\<rparr>"
proof -
  have "bearer (demo_request ''s1'') = ''s1''" "bearer (demo_request ''s2'') = ''s2''"
    by (rule bearer_demo_request, auto simp: visible_def)+
  then show "actor sample_api (demo_request ''s1'') kc = Some \<lparr>p_ID = ''ops'', p_Role = RoleAdmin\<rparr>"
    "actor sample_api (demo_request ''s2'') kc = Some \<lparr>p_ID = ''view'', p_Role = RoleViewer\<rparr>"
    by (simp_all add: actor_def caller_def key_resolve_def lookup_key_def demo_keys_def)
qed

theorem access_control_witness:
  "\<exists>w kc' c' l'. serve sample_api (demo_request ''s2'') (no_keys, sample_core, sample_local) = (w, kc', c', l') \<and>
     same_data sample_core c' \<and> status_of w \<in> {204, 401, 403, 429}"
proof -
  obtain w kc' c' l' where s: "serve sample_api (demo_request ''s2'') (no_keys, sample_core, sample_local) = (w, kc', c', l')"
    by (metis surj_pair)
  obtain ps where r: "route_of sample_api (demo_request ''s2'') = Some (RoleAnalyst, createAsset, ps)"
    using demo_request_routes(2) by blast
  have "same_data sample_core c' \<and> status_of w \<in> {204, 401, 403, 429}"
    by (rule access_control [OF sample_fields(4) demo_request_fields(1) demo_request_routes(1) r _ s])
      (simp add: demo_request_actor less_Role_def)
  with s show ?thesis by blast
qed


theorem reads_change_nothing_witness:
  "\<exists>w kc' c' l'. serve sample_api ((demo_request ''s1'')\<lparr>r_method := MethodGet\<rparr>) (no_keys, sample_core, sample_local) = (w, kc', c', l') \<and>
     assets (s_db c') = [] \<and> g_assets (s_graph c') = []"
proof -
  obtain w kc' c' l' where
    s: "serve sample_api ((demo_request ''s1'')\<lparr>r_method := MethodGet\<rparr>) (no_keys, sample_core, sample_local) = (w, kc', c', l')"
    by (metis surj_pair)
  have "chi_ok (api_env sample_api)" by (simp add: sample_chi_ok)
  moreover have "\<not> mutating ((demo_request ''s1'')\<lparr>r_method := MethodGet\<rparr>)" by (simp add: mutating_def)
  ultimately obtain n m where
    "c' = sample_core\<lparr>s_db := (s_db sample_core)\<lparr>tick := n\<rparr>, s_graph := (s_graph sample_core)\<lparr>g_tick := m\<rparr>\<rparr>"
    using reads_change_nothing [OF _ _ s] by blast
  then have "assets (s_db c') = [] \<and> g_assets (s_graph c') = []" by (simp add: sample_core_def db_empty_def graph_empty_def)
  with s show ?thesis by blast
qed


end
