(* ===== verification/Api_System.thy ===== *)
theory Api_System
  imports Api_Guard Engine_Outcome
begin

text \<open>
  The server and the worker together: they share the two databases and the queue.  A run is any sequence of
  requests and turns of the worker.  What is proved here spans the components: integrity over all runs, the way
  of an accepted scan from the request to its last status, and the job that an unreachable queue
  leaves behind.
\<close>

section \<open>Runs\<close>

type_synonym system = "server \<times> contact list"

datatype event = Req request | WorkerTurn

definition worker_view :: "system \<Rightarrow> redis \<times> engine_state" where
  "worker_view s = (let ((kc, c, l), seen) = s
     in (s_redis c, \<lparr>st_db = s_db c, st_graph = s_graph c, st_contacts = seen\<rparr>))"

definition put_worker :: "redis \<times> engine_state \<Rightarrow> system \<Rightarrow> system" where
  "put_worker v s = (let (q, e) = v; ((kc, c, l), seen) = s
     in ((kc, \<lparr>s_db = st_db e, s_graph = st_graph e, s_redis = q\<rparr>, l), st_contacts e))"

fun event_step :: "API \<Rightarrow> engine_env \<Rightarrow> Processor \<Rightarrow> event \<Rightarrow> system \<Rightarrow> system" where
  "event_step a E p (Req r) s = (snd (serve a r (fst s)), snd s)"
| "event_step a E p WorkerTurn s = put_worker (worker_step E p (api_queue a) (worker_view s)) s"

definition run_system :: "API \<Rightarrow> engine_env \<Rightarrow> Processor \<Rightarrow> event list \<Rightarrow> system \<Rightarrow> system" where
  "run_system a E p evs s = fold (event_step a E p) evs s"

definition system_ok :: "env \<Rightarrow> system \<Rightarrow> bool" where
  "system_ok D s \<longleftrightarrow> db_inv D (s_db (fst (snd (fst s)))) \<and> graph_ok (s_graph (fst (snd (fst s))))"

section \<open>Integrity\<close>

lemma api_step_db: "api_step a c c' \<Longrightarrow> db_inv (api_store a) (s_db c) \<Longrightarrow> db_inv (api_store a) (s_db c')"
proof (induction rule: api_step.induct)
  case (enqueue j c job d)
  then show ?case using CreateScanJob_inv [of "api_store a" "s_db c" j] by simp
qed (auto intro: inv_intros dest!: read_step_frame)

lemma api_step_graph: "api_step a c c' \<Longrightarrow> graph_ok (s_graph c) \<Longrightarrow> graph_ok (s_graph c')"
  by (induction rule: api_step.induct) (auto simp: graph_ok_def [of "_\<lparr>g_tick := _\<rparr>"] graph_ok_def [symmetric] intro: graph_step_ok dest!: read_step_frame)

lemma serve_db_inv: "rtranclp (serve_step a) c c' \<Longrightarrow> db_inv (api_store a) (s_db c) \<Longrightarrow> db_inv (api_store a) (s_db c')"
  by (induction rule: rtranclp_induct) (auto elim!: serve_step.cases intro: api_step_db inv_intros)

lemma serve_graph_ok: "rtranclp (serve_step a) c c' \<Longrightarrow> graph_ok (s_graph c) \<Longrightarrow> graph_ok (s_graph c')"
  by (induction rule: rtranclp_induct) (auto elim!: serve_step.cases intro: api_step_graph)

lemma serve_steps:
  assumes "serve a r (kc, c, l) = (w, kc', c', l')"
  shows "rtranclp (serve_step a) c c'"
  by (rule serve_pipeline [OF assms]) (rule pipeline_replies(1))

lemma job_steps_ok:
  assumes "job_steps E p s s'" and "db_inv (pr_store p) (st_db s)" and "graph_ok (st_graph s)"
  shows "db_inv (pr_store p) (st_db s') \<and> graph_ok (st_graph s')"
  by (rule job_steps_keep [OF assms(1)]) (use assms(2,3) in \<open>auto intro: job_step_db job_step_graph\<close>)

lemma event_step_ok:
  assumes "pr_store p = api_store a" and "system_ok (api_store a) s"
  shows "system_ok (api_store a) (event_step a E p e s)"
proof -
  obtain kc c l seen where s: "s = ((kc, c, l), seen)" by (metis surj_pair)
  show ?thesis
  proof (cases e)
    case (Req r)
    obtain w kc' c' l' where v: "serve a r (kc, c, l) = (w, kc', c', l')" by (metis surj_pair)
    show ?thesis using serve_db_inv [OF serve_steps [OF v]] serve_graph_ok [OF serve_steps [OF v]] assms(2) by (simp add: s Req v system_ok_def)
  next
    case WorkerTurn
    let ?st = "\<lparr>st_db = s_db c, st_graph = s_graph c, st_contacts = seen\<rparr>"
    obtain q es where v: "worker_step E p (api_queue a) (s_redis c, ?st) = (q, es)" by (rule prod.exhaust)
    have "job_steps E p ?st es" using worker_step_steps [of E p "(s_redis c, ?st)" "api_queue a"] by (simp add: v)
    then have "db_inv (pr_store p) (st_db es) \<and> graph_ok (st_graph es)"
      by (rule job_steps_ok) (use assms in \<open>auto simp: s system_ok_def\<close>)
    then show ?thesis using assms(1) by (simp add: s WorkerTurn worker_view_def put_worker_def v system_ok_def)
  qed
qed

text \<open>C4: The integrity of the system: from a state where both databases are sound (the empty ones are), any
  sequence of requests of any callers and of turns of the worker, whatever fails on the way, leads to a
  state where they are sound: keys distinct, references alive, checks met, the audit trail in
  order, the graph's relationships between existing nodes.\<close>

theorem system_integrity:
  assumes "pr_store p = api_store a" and "system_ok (api_store a) s"
  shows "system_ok (api_store a) (run_system a E p evs s)"
  unfolding run_system_def using assms(2)
proof (induction evs arbitrary: s)
  case (Cons e evs)
  show ?case using Cons.IH [OF event_step_ok [OF assms(1) Cons.prems]] by simp
qed simp

lemma empty_ok: "system_ok D ((kc, \<lparr>s_db = db_empty, s_graph = graph_empty, s_redis = q\<rparr>, l), seen)"
  by (simp add: system_ok_def db_inv_def db_empty_def graph_empty_def graph_ok_def at.keys_distinct_def jt.keys_distinct_def
      ft.keys_distinct_def refs_ok_def checks_ok_def log_ordered_def ends_in_def)

definition sample_worker :: Processor where
  "sample_worker = NewProcessor sample_store None (Load_config (\<lambda>_. []))"

theorem system_integrity_witness:
  "system_ok sample_store (run_system sample_api work_engine sample_worker
     [Req (demo_request ''s1''), WorkerTurn, Req (demo_request ''s2''), WorkerTurn] ((no_keys, sample_core, sample_local), []))"
proof -
  have "pr_store sample_worker = api_store sample_api" by (simp add: sample_worker_def NewProcessor_def)
  from system_integrity [OF this] show ?thesis by (simp add: sample_core_def empty_ok)
qed

section \<open>Accepting a scan\<close>

text \<open>UUIDs as the server writes them parse to themselves.\<close>

definition uuid_ok :: "env \<Rightarrow> bool" where
  "uuid_ok D \<longleftrightarrow>
     (\<forall>s i. uuid_text D s = Some i \<longrightarrow> uuid_text D i = Some i) \<and>
     (\<forall>t. uuid_text D (uuid_at D t) = Some (uuid_at D t) \<and> uuid_at D t \<noteq> [])"

text \<open>A new job: its row is the last, queued, under an identifier that no row had.\<close>

definition new_job :: "env \<Rightarrow> core \<Rightarrow> core \<Rightarrow> ScanJob \<Rightarrow> bool" where
  "new_job D c c' row \<longleftrightarrow> scan_jobs (s_db c') = scan_jobs (s_db c) @ [row] \<and> select_id j_ID (j_ID row) (scan_jobs (s_db c)) = None \<and>
     j_Status row = StatusQueued \<and> j_ID row \<noteq> [] \<and> uuid_text D (j_ID row) = Some (j_ID row) \<and>
     uuid_text D (j_AssetID row) = Some (j_AssetID row)"

lemma CreateScanJob_row:
  assumes "uuid_ok D" and "CreateScanJob D j d = (res, d')"
  obtains (none) e where "res = Inl e" "scan_jobs d' = scan_jobs d"
  | (row) row where "new_job D (c\<lparr>s_db := d\<rparr>) (c\<lparr>s_db := d'\<rparr>) row" "\<And>job. res = Inr job \<Longrightarrow> j_ID job = j_ID row"
proof -
  let ?t = "tick d"
  let ?i = "uuid_at D ?t"
  let ?j = "j\<lparr>j_ID := ?i, j_CreatedAt := now_at D ?t, j_Status := StatusQueued\<rparr>"
  let ?row = "?j\<lparr>j_Error := [], j_UsedMock := False, j_CreatedAt := ts_store D (j_CreatedAt ?j), j_StartedAt := None, j_FinishedAt := None\<rparr>"
  have u: "uuid_text D ?i = Some ?i" "?i \<noteq> []" using assms(1) by (simp_all add: uuid_ok_def)
  show thesis
  proof (cases "scan_jobs d' = scan_jobs d \<and> (\<exists>e. res = Inl e)")
    case False
    obtain k where k: "uuid_text D (j_AssetID j) = Some k" "select_id j_ID ?i (scan_jobs d) = None"
        "scan_jobs d' = scan_jobs d @ [?row\<lparr>j_ID := ?i, j_AssetID := k\<rparr>]" "res = Inr ?j \<or> (\<exists>e. res = Inl e)"
      using assms(2) u(1) False unfolding CreateScanJob_def call_def Let_def
      by (auto split: option.splits if_splits)
    have "uuid_text D k = Some k" using k(1) assms(1) by (auto simp: uuid_ok_def)
    then show ?thesis using k u by (intro row [of "?row\<lparr>j_ID := ?i, j_AssetID := k\<rparr>"]) (auto simp: new_job_def)
  qed (use none in blast)
qed

lemma startScan_cases:
  assumes "uuid_ok (api_store a)" and "core_of x = c" and "fresh (fst x)" and "y = startScan a ps r x"
  obtains (unwritten) "scan_jobs (s_db (core_of y)) = scan_jobs (s_db c)" "s_redis (core_of y) = s_redis c" "status_of (fst y) \<in> {404, 500}"
  | (unpushed) row where "new_job (api_store a) c (core_of y) row" "s_redis (core_of y) = s_redis c" "status_of (fst y) = 500"
  | (pushed) row where "new_job (api_store a) c (core_of y) row" "s_redis (core_of y) = snd (Enqueue (api_queue a) (j_ID row) (s_redis c))"
      "status_of (fst y) = (case fst (Enqueue (api_queue a) (j_ID row) (s_redis c)) of Inl _ \<Rightarrow> 500 | Inr _ \<Rightarrow> 202)"
proof -
  let ?E = "api_store a"
  obtain w kc l where x: "x = (w, kc, c, l)" using assms(2) by (metis core_of.simps surj_pair)
  have f: "fresh w" using assms(3) x by simp
  have st: "status_of (serverError m w) = 500" "status_of (writeJSON k v w) = k" for m k v
    using f by (simp_all add: serverError_def status_writeJSON)
  have nf: "status_of (fst (notFoundOrError a e (w, kc, d, l))) \<in> {404, 500}" "core_of (notFoundOrError a e (w, kc, d, l)) = d" for e d
    using f by (auto simp: notFoundOrError_def storeError_def reply_def serverError_def status_writeJSON)
  obtain r1 d1 where ga: "GetAsset ?E (ps ''id'') (s_db c) = (r1, d1)" by (rule prod.exhaust)
  have d1: "d1 = (s_db c)\<lparr>tick := Suc (tick (s_db c))\<rparr>" using read_inv(1) [of ?E "ps ''id''" "s_db c"] by (simp add: ga)
  show thesis
  proof (cases r1)
    case (Inl e)
    then have "y = notFoundOrError a e (w, kc, c\<lparr>s_db := d1\<rparr>, l)" by (simp add: assms(4) startScan_def x with_store_exchange ga)
    then show thesis using unwritten nf [of e "c\<lparr>s_db := d1\<rparr>"] by (simp add: d1)
  next
    case (Inr asset)
    define prof where "prof = (let q = fst (decode (dec_struct True [(''profile'', dec_string)]) r []) in if q = [] then ProfileQuick else q)"
    define j where "j = \<lparr>j_ID = [], j_AssetID = a_ID asset, j_Profile = prof, j_Scanners = [], j_Status = [], j_Error = [],
                     j_UsedMock = False, j_CreatedAt = 0, j_StartedAt = None, j_FinishedAt = None\<rparr>"
    obtain r2 d2 where cj: "CreateScanJob ?E j d1 = (r2, d2)" by (rule prod.exhaust)
    have y: "y = (case r2 of Inl err \<Rightarrow> storeError a err (w, kc, c\<lparr>s_db := d2\<rparr>, l)
      | Inr job \<Rightarrow> (case with_queue (Enqueue (api_queue a) (j_ID job)) (w, kc, c\<lparr>s_db := d2\<rparr>, l) of
          (Inl _, x) \<Rightarrow> reply (serverError (redis_text (api_env a) (redis_tick (s_redis (core_of x))))) x
        | (Inr _, x) \<Rightarrow> reply (writeJSON 202 (job_json True job)) x))"
      using cj by (cases r2) (simp_all add: assms(4) startScan_def x with_store_exchange ga Inr j_def prof_def Let_def)
    show thesis
    proof (cases rule: CreateScanJob_row [OF assms(1) cj, where c = c])
      case (1 e)
      then show thesis using unwritten st by (simp add: y storeError_def reply_def d1)
    next
      case (2 row)
      have new: "new_job ?E c (c\<lparr>s_db := d2, s_redis := q\<rparr>) row" for q using 2(1) by (simp add: new_job_def d1)
      have new': "new_job ?E c (c\<lparr>s_db := d2\<rparr>) row" using 2(1) by (simp add: new_job_def d1)
      show thesis
      proof (cases r2)
        case (Inl e)
        then show thesis using unpushed [of row] new' st by (simp add: y storeError_def reply_def)
      next
        case (Inr job)
        obtain r3 q where en: "Enqueue (api_queue a) (j_ID row) (s_redis c) = (r3, q)" by (rule prod.exhaust)
        have "j_ID job = j_ID row" using 2(2) Inr by simp
        then show thesis using pushed [of row] new en st
          by (cases r3) (simp_all add: y Inr with_queue_def on_core_def reply_def)
      qed
    qed
  qed
qed

text \<open>The turns of the worker, seen from the system.\<close>

lemma put_worker_view [simp]: "worker_view (put_worker v s) = v"
  by (cases v; cases s) (auto simp: worker_view_def put_worker_def)

lemma worker_turns:
  "worker_view (run_system a E p (replicate n WorkerTurn) s) = worker_loop E p (api_queue a) n (worker_view s)"
  by (induction n arbitrary: s) (simp_all add: run_system_def)

definition job_in :: "core \<Rightarrow> string \<Rightarrow> ScanStatus option" where
  "job_in c i = map_option j_Status (select_id j_ID i (scan_jobs (s_db c)))"

definition queue_of :: "API \<Rightarrow> core \<Rightarrow> string list" where
  "queue_of a c = waiting (q_key (api_queue a)) (s_redis c)"

text \<open>The state in which jobs are taken up: the database is sound, its identifiers are in canonical form, and what waits in the
  queue has a row.\<close>

definition sound_jobs :: "API \<Rightarrow> core \<Rightarrow> bool" where
  "sound_jobs a c \<longleftrightarrow> db_inv (api_store a) (s_db c) \<and> canonical (api_store a) (s_db c) \<and> uuid_ok (api_store a) \<and>
     (\<forall>i \<in> set (queue_of a c). i \<noteq> [] \<and> job_in c i \<noteq> None)"

lemma select_append:
  "select_id key k (xs @ [row]) = (case select_id key k xs of Some q \<Rightarrow> Some q | None \<Rightarrow> if k = key row then Some row else None)"
  by (induction xs) (auto simp: select_id_def split: option.split)

lemma new_job_in:
  assumes "new_job D c c' row"
  shows "job_in c (j_ID row) = None" "job_in c' k = (if k = j_ID row then Some StatusQueued else job_in c k)"
  using assms by (auto simp: new_job_def job_in_def select_append split: option.split)

text \<open>A request to the route: the cases of the handler, as the caller and the server see them.\<close>

lemma scan_requested:
  assumes "serve a r (kc, c, l) = (w, kc', c', l')" and "for_api a r" and "r_ctx r = None" and "route_of a r = Some (role, startScan, ps)"
    and "uuid_ok (api_store a)"
  obtains (unwritten) "scan_jobs (s_db c') = scan_jobs (s_db c)" "s_redis c' = s_redis c" "status_of w \<noteq> 202"
  | (unpushed) row where "new_job (api_store a) c c' row" "s_redis c' = s_redis c" "status_of w = 500"
  | (pushed) row where "new_job (api_store a) c c' row" "s_redis c' = snd (Enqueue (api_queue a) (j_ID row) (s_redis c))"
      "status_of w = (case fst (Enqueue (api_queue a) (j_ID row) (s_redis c)) of Inl _ \<Rightarrow> 500 | Inr _ \<Rightarrow> 202)"
proof (rule serve_handler [OF assms(1-4) refl])
  assume "same_data c c'" "status_of w \<in> {204, 401, 403, 429}"
  then show thesis using unwritten by (auto simp: same_data_def)
next
  fix p x y
  let ?r = "at_routes a r (if provider_enabled (api_auth a) then actor a r kc else None)"
  assume x: "core_of x = c" "fresh (fst x)" and y: "y = startScan a ps ?r x" and st: "status_of w = status_of (fst y)"
    and c': "c' = core_of y \<or> (\<exists>e. c' = (core_of y)\<lparr>s_db := snd (AppendAudit (api_store a) e (s_db (core_of y)))\<rparr>)"
  have same: "scan_jobs (s_db c') = scan_jobs (s_db (core_of y))" "s_redis c' = s_redis (core_of y)"
    using c' AppendAudit_same [of "core_of y" "api_store a"] by (auto simp: same_data_def)
  show thesis
    by (rule startScan_cases [where a = a and x = x and c = c and y = y and ps = ps and r = ?r, OF assms(5) x y]) (use same st unwritten unpushed pushed in \<open>auto simp: new_job_def\<close>)
qed

text \<open>The worker gets the queue as the request left it.\<close>

lemma worker_after:
  assumes "pr_store p = api_store a" and "healthy E (api_store a)" and "queue_works (api_queue a)"
    and "canonical (api_store a) (s_db c)" and "db_inv (api_store a) (s_db c)"
    and "\<forall>i \<in> set (queue_of a c). i \<noteq> [] \<and> job_in c i \<noteq> None"
  shows "let c' = fst (snd (fst (run_system a E p (replicate (length (queue_of a c)) WorkerTurn) ((kc, c, l), seen)))) in
    queue_of a c' = [] \<and> (\<forall>i \<in> set (queue_of a c). terminal (job_in c' i)) \<and>
    (\<forall>i. i \<notin> set (queue_of a c) \<longrightarrow> job_in c' i = job_in c i)"
proof -
  let ?s = "((kc, c, l), seen)"
  let ?n = "length (queue_of a c)"
  let ?st = "\<lparr>st_db = s_db c, st_graph = s_graph c, st_contacts = seen\<rparr>"
  obtain kc' c' l' seen' where e: "run_system a E p (replicate ?n WorkerTurn) ?s = ((kc', c', l'), seen')" by (metis surj_pair)
  have v: "worker_loop E p (api_queue a) ?n (s_redis c, ?st) =
      (s_redis c', \<lparr>st_db = s_db c', st_graph = s_graph c', st_contacts = seen'\<rparr>)"
    using worker_turns [of a E p ?n ?s] by (simp add: e worker_view_def)
  have "let (r', s') = worker_loop E p (api_queue a) ?n (s_redis c, ?st) in waiting (q_key (api_queue a)) r' = [] \<and>
    (\<forall>i. i \<in> set (queue_of a c) \<or> terminal (job_status ?st i) \<longrightarrow> terminal (job_status s' i)) \<and>
    (\<forall>i. i \<notin> set (queue_of a c) \<longrightarrow> job_status s' i = job_status ?st i)"
    by (rule worker_drains) (use assms in \<open>simp_all add: queue_of_def job_status_def job_in_def\<close>)
  then show ?thesis unfolding v e by (simp add: queue_of_def job_status_def job_in_def)
qed


section \<open>The job that no queue has\<close>

text \<open>Its row is queued, and nothing that waits in the queue stands for it.\<close>

definition orphan :: "API \<Rightarrow> string \<Rightarrow> core \<Rightarrow> bool" where
  "orphan a i c \<longleftrightarrow> job_in c i = Some StatusQueued \<and> (\<forall>k \<in> set (queue_of a c). uuid_text (api_store a) k \<noteq> Some i)"

lemma orphan_same: "orphan a i c \<Longrightarrow> scan_jobs (s_db c') = scan_jobs (s_db c) \<Longrightarrow> s_redis c' = s_redis c \<Longrightarrow> orphan a i c'"
  by (simp add: orphan_def job_in_def queue_of_def)

lemma orphan_new_job:
  assumes "orphan a i c" and "new_job D c c' row"
  shows "job_in c' i = Some StatusQueued" "j_ID row \<noteq> i"
  using assms new_job_in [OF assms(2)] by (auto simp: orphan_def)

lemma other_jobs:
  "scan_jobs (snd (CreateAsset D v d)) = scan_jobs d" "scan_jobs (snd (SetAssetAuthorization D k b d)) = scan_jobs d"
  "scan_jobs (snd (UpdateFindingStatus D k st d)) = scan_jobs d"
  by (auto simp: CreateAsset_def SetAssetAuthorization_def UpdateFindingStatus_def call_def Let_def split: option.split)

lemma orphan_api_step:
  assumes "api_step a c c'" and "uuid_ok (api_store a)" and "orphan a i c"
  shows "orphan a i c'"
  using assms(1)
proof cases
  case reading
  then obtain n m where "c' = c\<lparr>s_db := (s_db c)\<lparr>tick := n\<rparr>, s_graph := (s_graph c)\<lparr>g_tick := m\<rparr>\<rparr>" using read_step_frame by blast
  then show ?thesis by (intro orphan_same [OF assms(3)]) simp_all
next
  case (asset v)
  then show ?thesis by (intro orphan_same [OF assms(3)]) (simp_all add: other_jobs)
next
  case (authorization k b)
  then show ?thesis by (intro orphan_same [OF assms(3)]) (simp_all add: other_jobs)
next
  case (status k st)
  then show ?thesis by (intro orphan_same [OF assms(3)]) (simp_all add: other_jobs)
next
  case (graph g h)
  then show ?thesis by (intro orphan_same [OF assms(3)]) simp_all
next
  case (job j)
  obtain r d where cj: "CreateScanJob (api_store a) j (s_db c) = (r, d)" by (rule prod.exhaust)
  show ?thesis
  proof (cases rule: CreateScanJob_row [OF assms(2) cj, where c = c])
    case 1
    then show ?thesis using orphan_same [OF assms(3)] job cj by simp
  next
    case (2 row)
    have "new_job (api_store a) c c' row" using 2(1) job cj by simp
    then show ?thesis using orphan_new_job(1) [OF assms(3)] assms(3) job by (simp add: orphan_def queue_of_def)
  qed
next
  case (enqueue j jb d)
  show ?thesis
  proof (cases rule: CreateScanJob_row [OF assms(2) enqueue(2), where c = c])
    case (2 row)
    have n: "new_job (api_store a) c c' row" "j_ID jb = j_ID row" using 2(1) 2(2) [OF refl] by (simp_all add: enqueue(1) new_job_def)
    have "set (queue_of a c') \<subseteq> insert (j_ID row) (set (queue_of a c))"
      by (auto simp: queue_of_def enqueue(1) Enqueue_waiting n(2))
    then show ?thesis using orphan_new_job [OF assms(3) n(1)] assms(3) n(1) by (auto simp: orphan_def new_job_def)
  qed simp
qed

lemma orphan_serve:
  assumes "rtranclp (serve_step a) c c'" and "uuid_ok (api_store a)" and "orphan a i c"
  shows "orphan a i c'"
  using assms(1,3)
proof (induction rule: rtranclp_induct)
  case (step y z)
  from step.hyps(2) show ?case
  proof cases
    case handler
    then show ?thesis using orphan_api_step assms(2) step.IH step.prems by blast
  next
    case (audit e)
    then show ?thesis using orphan_same [OF step.IH [OF step.prems], of z] AppendAudit_same [of y "api_store a" e] by (simp add: same_data_def)
  qed
qed

text \<open>A turn of the worker writes only the row that the identifier it took stands for.\<close>

lemma update_job_other:
  assumes "uuid_text D k \<noteq> Some i" and "\<And>t j. j_ID (f t j) = j_ID j"
  shows "select_id j_ID i (scan_jobs (snd (update_job D k f d))) = select_id j_ID i (scan_jobs d)"
  using assms select_update_id [of j_ID "f (tick d)", OF assms(2)]
  by (auto simp: update_job_def call_def Let_def split: option.split)

lemma mark_other:
  assumes "uuid_text D k \<noteq> Some i"
  shows "job_status (snd (on_db (MarkRunning D k) s)) i = job_status s i"
    and "job_status (snd (on_db (MarkCompleted D k m) s)) i = job_status s i"
    and "job_status (snd (on_db (MarkFailed D k msg) s)) i = job_status s i"
  by (simp_all add: job_status_def on_db_state MarkRunning_def MarkCompleted_def MarkFailed_def update_job_other [OF assms])

lemma Process_other:
  assumes "uuid_ok (pr_store p)" and "uuid_text (pr_store p) k \<noteq> Some i"
  shows "job_status (snd (Process E p k s)) i = job_status s i"
proof -
  let ?D = "pr_store p"
  obtain r1 s1 where 1: "on_db (GetScanJob ?D k) s = (r1, s1)" by fastforce
  have s1: "job_status s1 = job_status s"
    using arg_cong [OF 1, of snd] by (auto simp: on_db_state read_inv job_status_def [abs_def])
  show ?thesis
  proof (cases r1)
    case job: (Inr job)
    obtain r2 s2 where 2: "on_db (GetAsset ?D (j_AssetID job)) s1 = (r2, s2)" by fastforce
    have s2: "job_status s2 = job_status s1"
      using arg_cong [OF 2, of snd] by (auto simp: on_db_state read_inv job_status_def [abs_def])
    have "fst (on_db (GetScanJob ?D k) s) = Inr job" by (simp add: 1 job)
    then obtain i' where "uuid_text ?D k = Some i'" "j_ID job = i'"
      by (auto simp: on_db_state GetScanJob_def call_def Let_def dest: jt.lookup_Some split: if_splits option.splits)
    then have other: "uuid_text ?D (j_ID job) \<noteq> Some i" using assms by (auto simp: uuid_ok_def)
    show ?thesis
    proof (cases r2)
      case a: (Inr a)
      obtain r3 s3 where 3: "on_db (MarkRunning ?D (j_ID job)) s2 = (r3, s3)" by fastforce
      have s3: "job_status s3 i = job_status s2 i" using mark_other(1) [OF other, of s2] by (simp add: 3)
      obtain s4 pg where 4: "scan_job E p job a s3 = (s4, pg)" by fastforce
      have s4: "job_status s4 = job_status s3" using scan_job_frame [OF 4] by (intro job_status_same_rows) blast
      have "job_status (snd (finish_job p job pg s4)) i = job_status s4 i"
        using mark_other(2,3) [OF other] by (simp add: finish_job_def)
      moreover obtain r5 s5 where 5: "finish_job p job pg s4 = (r5, s5)" by fastforce
      ultimately show ?thesis using s1 s2 s3 s4 by (simp add: Process_def 1 2 3 4 5 job a split: sum.split)
    qed (use s1 s2 in \<open>simp add: Process_def 1 2 job\<close>)
  qed (use s1 in \<open>simp add: Process_def 1\<close>)
qed

lemma orphan_worker:
  assumes "uuid_ok (pr_store p)" and "\<forall>k \<in> set (waiting (q_key q) r). uuid_text (pr_store p) k \<noteq> Some i"
    and "worker_step E p q (r, s) = (r', s')"
  shows "job_status s' i = job_status s i" and "set (waiting (q_key q) r') \<subseteq> set (waiting (q_key q) r)"
proof -
  obtain d u where d: "Dequeue q r = (d, u)" by fastforce
  have u: "waiting (q_key q) u = drop (pushes q (redis_tick r)) (waiting (q_key q) r)" using Dequeue_waiting [of q r] by (simp add: d)
  have k: "k \<in> set (waiting (q_key q) r)" if "d = Inr k" "k \<noteq> []" for k
    using Dequeue_result [of q r] that by (auto simp: d split: if_splits list.splits) (metis in_set_dropD list.set_intros(1))
  have "r' = u" using assms(3) by (auto simp: worker_step_def d split: sum.splits if_splits prod.splits option.splits)
  then show "set (waiting (q_key q) r') \<subseteq> set (waiting (q_key q) r)" using u set_drop_subset by simp
  have "job_status (snd (worker_step E p q (r, s))) i = job_status s i"
    using Process_other [OF assms(1)] mark_other(3) k assms(2)
    by (auto simp: worker_step_def d split: sum.split option.split prod.split) (metis snd_conv)+
  then show "job_status s' i = job_status s i" by (simp add: assms(3))
qed

lemma orphan_event:
  assumes "pr_store p = api_store a" and "uuid_ok (api_store a)" and "orphan a i (fst (snd (fst s)))"
  shows "orphan a i (fst (snd (fst (event_step a E p e s))))"
proof -
  obtain kc c l seen where s: "s = ((kc, c, l), seen)" by (metis surj_pair)
  show ?thesis
  proof (cases e)
    case (Req r)
    obtain w kc' c' l' where v: "serve a r (kc, c, l) = (w, kc', c', l')" by (metis surj_pair)
    show ?thesis using orphan_serve [OF serve_steps [OF v] assms(2)] assms(3) by (simp add: s Req v)
  next
    case WorkerTurn
    let ?st = "\<lparr>st_db = s_db c, st_graph = s_graph c, st_contacts = seen\<rparr>"
    obtain q es where v: "worker_step E p (api_queue a) (s_redis c, ?st) = (q, es)" by (rule prod.exhaust)
    have "\<forall>k \<in> set (waiting (q_key (api_queue a)) (s_redis c)). uuid_text (pr_store p) k \<noteq> Some i"
      using assms(1,3) by (simp add: s orphan_def queue_of_def)
    from orphan_worker [OF _ this v] assms show ?thesis
      by (auto simp: s WorkerTurn worker_view_def put_worker_def v orphan_def queue_of_def job_in_def job_status_def)
  qed
qed

text \<open>C37: A failing queue leaves an orphan: when a request to scan has written its job and the push has not reached the queue,
  the caller gets 500, and the job is lost for ever: after any sequence of requests and turns of the worker,
  whatever fails or not, its row still says queued and nothing in the queue stands for it.\<close>

theorem failed_enqueue_orphans:
  assumes "serve a r (kc, c, l) = (w, kc', c', l')" and "for_api a r" and "r_ctx r = None" and "route_of a r = Some (role, startScan, ps)"
    and "sound_jobs a c" and "pushes (api_queue a) (redis_tick (s_redis c)) = 0"
    and "job_in c i = None" and "job_in c' i \<noteq> None" and "pr_store p = api_store a"
  shows "status_of w = 500 \<and>
    (let c2 = fst (snd (fst (run_system a E p evs ((kc', c', l'), seen)))) in
     job_in c2 i = Some StatusQueued \<and> (\<forall>k \<in> set (queue_of a c2). uuid_text (api_store a) k \<noteq> Some i))"
proof -
  have u: "uuid_ok (api_store a)" using assms(5) by (simp add: sound_jobs_def)
  have fault: "redis_fault (api_queue a) (redis_tick (s_redis c))" using assms(6) by (auto simp: pushes_def split: if_splits)
  obtain row where row: "new_job (api_store a) c c' row" "queue_of a c' = queue_of a c" "status_of w = 500"
    by (rule scan_requested [OF assms(1-4) u])
      (use assms(6-8) fault in \<open>auto simp: job_in_def queue_of_def Enqueue_waiting Enqueue_result\<close>)
  have i: "i = j_ID row" using new_job_in(2) [OF row(1), of i] assms(7,8) by (auto split: if_splits)
  have "uuid_text (api_store a) k \<noteq> Some i" if "k \<in> set (queue_of a c)" for k
  proof -
    have "job_in c k \<noteq> None" "canonical (api_store a) (s_db c)" using assms(5) that by (auto simp: sound_jobs_def)
    then have "uuid_text (api_store a) k = Some k" by (auto simp: job_in_def canonical_def dest: jt.lookup_Some)
    then show ?thesis using assms(7) \<open>job_in c k \<noteq> None\<close> by auto
  qed
  then have "orphan a i c'" using new_job_in(2) [OF row(1), of i] by (simp add: orphan_def row(2) i)
  then have c': "orphan a i (fst (snd (fst ((kc', c', l'), seen))))" by simp
  have "orphan a i (fst (snd (fst (run_system a E p evs s))))" if "orphan a i (fst (snd (fst s)))" for s
    using that unfolding run_system_def
    by (induction evs arbitrary: s) (simp_all add: orphan_event [OF assms(9) u])
  from this [OF c'] show ?thesis using row(3) by (simp add: orphan_def Let_def)
qed

section \<open>A scan request\<close>

definition scan_of_0 :: request where
  "scan_of_0 = (demo_request ''s1'')\<lparr>r_path := ''/api/v1/assets/0/scans''\<rparr>"

definition core_with_0 :: core where
  "core_with_0 = sample_core\<lparr>s_db := db_empty\<lparr>assets := [work_asset], tick := 1\<rparr>\<rparr>"

definition broken_queue_api :: API where
  "broken_queue_api = sample_api\<lparr>api_queue := \<lparr>q_key = ''k'', redis_fault = (\<lambda>t. t = 0), redis_lost = (\<lambda>_. 0)\<rparr>\<rparr>"

lemma scan_of_0_route:
  "route_of a scan_of_0 = Some (RoleAnalyst, startScan, get_first [(''id'', ''0'')])" "for_api a scan_of_0"
  if "chi_route (api_env a) = sample_chi" for a :: API
  using that
  by (simp_all add: route_of_def for_api_def scan_of_0_def sample_chi_def root_table_def root_routes_def api_routes_def api_prefix_def sub_path_def
      Let_def upt_rec)

lemma scan_of_0_actor:
  assumes "api_auth a = ApiKeys demo_keys"
  shows "actor a scan_of_0 no_keys = Some \<lparr>p_ID = ''ops'', p_Role = RoleAdmin\<rparr>"
proof -
  have "bearer scan_of_0 = bearer (demo_request ''s1'')" by (simp add: bearer_def scan_of_0_def Let_def)
  then have "caller a scan_of_0 no_keys = caller sample_api (demo_request ''s1'') no_keys"
    by (simp add: caller_def assms key_resolve_def)
  then show ?thesis using demo_request_actor(1) [of no_keys] by (simp add: actor_def assms demo_keys_def)
qed

lemma core_with_0_sound:
  assumes "api_store a = sample_store"
  shows "sound_jobs a core_with_0"
  by (simp add: assms sound_jobs_def sample_store_def demo_env_def core_with_0_def sample_core_def select_id_def
      db_empty_def queue_of_def waiting_def canonical_def uuid_ok_def db_inv_def at.keys_distinct_def jt.keys_distinct_def
      ft.keys_distinct_def refs_ok_def checks_ok_def log_ordered_def asset_check_def work_asset_def demo_asset_def show_nat_nonempty)

lemma parse_nothing: "parse_first [] = None"
  by code_simp

lemma scan_of_0_profile: "fst (decode (dec_struct True [(''profile'', dec_string)]) (at_routes a scan_of_0 q) []) = []"
  by (simp add: decode_def scan_of_0_def demo_request_def at_routes_def decode_first_def parse_nothing)

text \<open>The handler finds the asset, writes the job and pushes it.\<close>

lemma scan_of_0_handled:
  assumes "serve a scan_of_0 (no_keys, core_with_0, sample_local) = (w, kc', c', l')"
    and "api_env a = sample_api_env" and "api_auth a = ApiKeys demo_keys" and "api_store a = sample_store" and "api_RateLimit a = Fin 0"
  shows "status_of w = (case fst (Enqueue (api_queue a) (show_nat (Suc (Suc 0))) (s_redis core_with_0)) of Inl _ \<Rightarrow> 500 | Inr _ \<Rightarrow> 202) \<and>
    job_in c' (show_nat (Suc (Suc 0))) = Some StatusQueued"
proof -
  have r: "for_api a scan_of_0" "r_ctx scan_of_0 = None" "route_of a scan_of_0 = Some (RoleAnalyst, startScan, get_first [(''id'', ''0'')])"
    using scan_of_0_route [of a] assms(2) by (simp_all add: scan_of_0_def)
  show ?thesis
  proof (rule serve_handler [OF assms(1) r refl])
    assume "r_method scan_of_0 = MethodOptions \<or> \<not> api_RateLimit a \<le> Fin 0 \<or>
      (\<forall>p. actor a scan_of_0 no_keys = Some p \<longrightarrow> p_Role p < RoleAnalyst)"
    then show ?thesis using scan_of_0_actor [OF assms(3)] assms(5)
      by (simp add: scan_of_0_def less_eq_f64_def less_Role_def)
  next
    fix p x y
    let ?r = "at_routes a scan_of_0 (if provider_enabled (api_auth a) then actor a scan_of_0 no_keys else None)"
    assume x: "core_of x = core_with_0" "fresh (fst x)" and y: "y = startScan a (get_first [(''id'', ''0'')]) ?r x"
      and st: "status_of w = status_of (fst y)"
      and c': "c' = core_of y \<or> (\<exists>e. c' = (core_of y)\<lparr>s_db := snd (AppendAudit (api_store a) e (s_db (core_of y)))\<rparr>)"
    obtain w1 kc l where x': "x = (w1, kc, core_with_0, l)" using x(1) by (metis core_of.simps surj_pair)
    obtain res q where en: "Enqueue (api_queue a) (show_nat (Suc (Suc 0))) (s_redis sample_core) = (res, q)" by (rule prod.exhaust)
    have redis: "s_redis core_with_0 = s_redis sample_core" by (simp add: core_with_0_def)
    have "status_of (fst y) = (case res of Inl _ \<Rightarrow> 500 | Inr _ \<Rightarrow> 202) \<and> job_in (core_of y) (show_nat (Suc (Suc 0))) = Some StatusQueued"
      using x(2) en unfolding y startScan_def scan_of_0_profile x'
      by (cases res) (simp_all add: with_store_exchange with_queue_def on_core_def Let_def GetAsset_def CreateScanJob_def call_def assms(4)
          sample_store_def demo_env_def core_with_0_def db_empty_def get_first_def select_id_def work_asset_def demo_asset_def
          job_check_def reply_def serverError_def status_writeJSON job_in_def)
    moreover have "scan_jobs (s_db c') = scan_jobs (s_db (core_of y))"
      using c' AppendAudit_same [of "core_of y" "api_store a"] by (auto simp: same_data_def)
    ultimately show ?thesis using st by (simp add: en redis job_in_def)
  qed
qed

lemma work_engine_healthy: "healthy work_engine sample_store"
  by (simp add: healthy_def sound_def sample_store_def work_engine_def demo_env_def)


theorem failed_enqueue_orphans_witness:
  "\<exists>w kc' c' l' i. serve broken_queue_api scan_of_0 (no_keys, core_with_0, sample_local) = (w, kc', c', l') \<and> status_of w = 500 \<and>
     job_in (fst (snd (fst (run_system broken_queue_api work_engine sample_worker
       [WorkerTurn, Req (demo_request ''s1''), WorkerTurn] ((kc', c', l'), []))))) i = Some StatusQueued"
proof -
  obtain w kc' c' l' where s: "serve broken_queue_api scan_of_0 (no_keys, core_with_0, sample_local) = (w, kc', c', l')" by (metis surj_pair)
  have e: "api_env broken_queue_api = sample_api_env" "api_auth broken_queue_api = ApiKeys demo_keys" "api_store broken_queue_api = sample_store"
      "api_RateLimit broken_queue_api = Fin 0"
    by (simp_all add: broken_queue_api_def) (simp add: sample_api_def New_def)
  have r: "for_api broken_queue_api scan_of_0" "r_ctx scan_of_0 = None"
      "route_of broken_queue_api scan_of_0 = Some (RoleAnalyst, startScan, get_first [(''id'', ''0'')])"
    using scan_of_0_route [of broken_queue_api] by (simp_all add: e scan_of_0_def)
  have f: "pushes (api_queue broken_queue_api) (redis_tick (s_redis core_with_0)) = 0"
    by (simp add: pushes_def broken_queue_api_def core_with_0_def sample_core_def)
  have i: "job_in core_with_0 (show_nat (Suc (Suc 0))) = None" "job_in c' (show_nat (Suc (Suc 0))) \<noteq> None"
    using scan_of_0_handled [OF s e] by (simp add: job_in_def core_with_0_def db_empty_def select_id_def) (use scan_of_0_handled [OF s e] in auto)
  have p: "pr_store sample_worker = api_store broken_queue_api" by (simp add: e sample_worker_def NewProcessor_def)
  from failed_enqueue_orphans [OF s r core_with_0_sound [OF e(3)] f i p] s show ?thesis by (auto simp: Let_def)
qed

end
