(* ===== verification/Api_Output.thy ===== *)
theory Api_Output
  imports Api_Guard
begin

text \<open>
  What clients get from single endpoints: pages of a listing, and the CSV report.
\<close>

section \<open>Pages\<close>

lemma pageParams_bounds: "let (limit, offset) = pageParams r in 1 \<le> limit \<and> limit \<le> 1000 \<and> 0 \<le> offset"
  by (auto simp: pageParams_def defaultPageLimit_def maxPageLimit_def Let_def split: option.splits)

lemma paginate_slice:
  "fst (paginate r items w) = (let (limit, offset) = pageParams r in take (nat limit) (drop (nat offset) items))"
proof -
  obtain limit offset where p: "pageParams r = (limit, offset)" by (rule prod.exhaust)
  have b: "1 \<le> limit" "0 \<le> offset" using pageParams_bounds [of r] by (simp_all add: p)
  show ?thesis
  proof (cases "int (length items) \<le> offset")
    case True
    then have "drop (nat offset) items = []" by simp
    then show ?thesis using True by (simp add: paginate_def p)
  next
    case False
    have "nat (int (length items) - offset) = length items - nat offset" using b False by linarith
    then have "take (nat (int (length items) - offset)) (drop (nat offset) items) = drop (nat offset) items" by simp
    moreover have "take (nat limit) (drop (nat offset) items) = drop (nat offset) items" if "int (length items) < offset + limit"
      using that b by simp
    ultimately show ?thesis using False b by (simp add: paginate_def p Let_def)
  qed
qed

text \<open>The request for the \<open>k\<close>-th page of \<open>L\<close> items.\<close>

definition page_request :: "request \<Rightarrow> nat \<Rightarrow> nat \<Rightarrow> request" where
  "page_request r L k = r\<lparr>r_query := [(''limit'', itoa (int L)), (''offset'', itoa (int (k * L)))]\<rparr>"

lemma itoa_nonempty: "itoa n \<noteq> []"
  by (simp add: itoa_def)

lemma page_request_params:
  assumes "0 < L" and "L \<le> 1000" and "int (k * L) < 2 ^ 63"
  shows "pageParams (page_request r L k) = (int L, int (k * L))"
proof -
  have "atoi (itoa (int m)) = Some (int m)" if "int m < 2 ^ 63" for m
    using that by (intro atoi_itoa) (simp_all add: order.trans [of _ 0])
  then have "atoi (itoa (int L)) = Some (int L)" "atoi (itoa (int (k * L))) = Some (int (k * L))"
    using assms by (simp_all del: of_nat_mult)
  moreover have "int (k * L) > 0 \<or> k * L = 0" by linarith
  ultimately show ?thesis using assms
    by (auto simp: pageParams_def page_request_def query_def get_first_def maxPageLimit_def Let_def itoa_nonempty)
qed

lemma chunks: "concat (map (\<lambda>k. take L (drop (k * L) xs)) [0..<n]) = take (n * L) xs"
proof (induction n)
  case (Suc n)
  have "take (n * L) xs @ take L (drop (n * L) xs) = take (Suc n * L) xs"
    using take_add [of "n * L" L xs] by (simp add: add.commute)
  with Suc show ?case by simp
qed simp

lemma header_set_last: "w_code w = None \<Longrightarrow> map_of (w_headers (header_set k v w)) k = Some v"
proof -
  have "map_of (filter (\<lambda>(k', _). k' \<noteq> k) xs @ [(k, v)]) k = Some v" for xs by (induction xs) auto
  then show "w_code w = None \<Longrightarrow> map_of (w_headers (header_set k v w)) k = Some v" by (simp add: header_set_def)
qed

text \<open>C38: Paging: whatever the query says, a page has at most 1000 items and is a slice of the listing, and the
  header gives the number of all items; pages of the same size, asked for one after the other, are the listing cut in
  pieces, with nothing lost and nothing twice.\<close>

theorem pages_partition:
  assumes "0 < L" and "L \<le> 1000" and "int (n * L) < 2 ^ 63" and "w_code w = None"
  shows "concat (map (\<lambda>k. fst (paginate (page_request r L k) items w)) [0..<n]) = take (n * L) items \<and>
    length (fst (paginate q items w)) \<le> 1000 \<and>
    map_of (w_headers (snd (paginate q items w))) ''X-Total-Count'' = Some (itoa (int (length items)))"
proof -
  have "int (k * L) < 2 ^ 63" if "k < n" for k
    using assms(3) that mult_le_mono1 [of k n L] by linarith
  then have "map (\<lambda>k. fst (paginate (page_request r L k) items w)) [0..<n] = map (\<lambda>k. take L (drop (k * L) items)) [0..<n]"
    using assms(1,2) by (intro map_cong refl) (simp add: paginate_slice page_request_params del: of_nat_mult)
  moreover have "length (fst (paginate q items w)) \<le> 1000"
    using pageParams_bounds [of q] by (auto simp: paginate_slice split: prod.splits)
  moreover have "map_of (w_headers (snd (paginate q items w))) ''X-Total-Count'' = Some (itoa (int (length items)))"
    using assms(4) by (simp add: paginate_def Let_def case_prod_unfold header_set_last)
  ultimately show ?thesis by (simp only: chunks)
qed

theorem pages_partition_witness:
  "concat (map (\<lambda>k. fst (paginate (page_request (demo_request []) 2 k) ''abcde'' new_writer)) [0..<3]) = ''abcde''"
proof -
  have c: "w_code new_writer = None" by (simp add: new_writer_def)
  show ?thesis
    using pages_partition [OF _ _ _ c, THEN conjunct1, of 2 3 "demo_request []" "''abcde''"] by simp
qed

section \<open>The CSV report\<close>

text \<open>A reader of RFC 4180: fields between commas, lines between newlines, quotes around a field and doubled in it.\<close>

datatype csv_mode = Begin | Bare | Quoted | Quote

fun csv_read :: "csv_mode \<Rightarrow> string \<Rightarrow> string list \<Rightarrow> string list list \<Rightarrow> string \<Rightarrow> string list list option" where
  "csv_read m cur fs rs [] = (if m = Begin \<and> fs = [] then Some rs else None)"
| "csv_read m cur fs rs (c # s) =
     (if m = Quoted then (if c = CHR 0x22 then csv_read Quote cur fs rs s else csv_read Quoted (cur @ [c]) fs rs s)
      else if c = CHR '','' then csv_read Begin [] (fs @ [cur]) rs s
      else if c = CHR 0x0A then csv_read Begin [] [] (rs @ [fs @ [cur]]) s
      else if c = CHR 0x22 then
        (case m of Begin \<Rightarrow> csv_read Quoted [] fs rs s | Quote \<Rightarrow> csv_read Quoted (cur @ [c]) fs rs s | _ \<Rightarrow> None)
      else (case m of Quote \<Rightarrow> None | _ \<Rightarrow> csv_read Bare (cur @ [c]) fs rs s))"

definition csv_parse :: "string \<Rightarrow> string list list option" where
  "csv_parse s = csv_read Begin [] [] [] s"

lemma read_quoted:
  "csv_read Quoted cur fs rs (double_quotes s @ CHR 0x22 # r) = csv_read Quote (cur @ s) fs rs r"
  by (induction s arbitrary: cur) simp_all

lemma read_bare:
  assumes "\<forall>c \<in> set s. c \<noteq> CHR '','' \<and> c \<noteq> CHR 0x22 \<and> c \<noteq> CHR 0x0A" and "m = Begin \<or> m = Bare" and "s \<noteq> [] \<or> m = Bare"
  shows "csv_read m cur fs rs (s @ r) = csv_read Bare (cur @ s) fs rs r"
  using assms
proof (induction s arbitrary: m cur)
  case (Cons c s)
  have "csv_read m cur fs rs ((c # s) @ r) = csv_read Bare (cur @ [c]) fs rs (s @ r)"
    using Cons.prems(1,2) by (cases m) simp_all
  also have "\<dots> = csv_read Bare ((cur @ [c]) @ s) fs rs r" using Cons.prems(1) by (intro Cons.IH) simp_all
  finally show ?case by simp
qed simp

lemma read_field:
  assumes "d = CHR '','' \<or> d = CHR 0x0A"
  shows "csv_read Begin [] fs rs (csv_field f @ d # s) =
    (if d = CHR '','' then csv_read Begin [] (fs @ [f]) rs s else csv_read Begin [] [] (rs @ [fs @ [f]]) s)"
proof (cases "field_needs_quotes f")
  case True
  have "csv_read Begin [] fs rs (csv_field f @ d # s) = csv_read Quote f fs rs (d # s)"
    using read_quoted [of "[]" fs rs f "d # s"] True by (simp add: csv_field_def)
  then show ?thesis using assms by auto
next
  case False
  show ?thesis
  proof (cases "f = []")
    case True
    then show ?thesis using assms by (auto simp: csv_field_def field_needs_quotes_def)
  next
    case ne: False
    have "\<forall>c \<in> set f. c \<noteq> CHR '','' \<and> c \<noteq> CHR 0x22 \<and> c \<noteq> CHR 0x0A"
      using False ne by (auto simp: field_needs_quotes_def list_ex_iff)
    then have "csv_read Begin [] fs rs (f @ d # s) = csv_read Bare f fs rs (d # s)"
      using read_bare [of f Begin "[]" fs rs "d # s"] ne by simp
    then show ?thesis using assms False by (auto simp: csv_field_def)
  qed
qed

lemma read_fields:
  "f # gs = hs \<Longrightarrow> csv_read Begin [] fs rs (join '','' (map csv_field hs) @ CHR 0x0A # s) = csv_read Begin [] [] (rs @ [fs @ hs]) s"
proof (induction gs arbitrary: f fs hs)
  case Nil
  then show ?case using read_field [of "CHR 0x0A" fs rs f s] by auto
next
  case (Cons g gs)
  have "csv_read Begin [] fs rs (join '','' (map csv_field (f # g # gs)) @ CHR 0x0A # s) =
      csv_read Begin [] (fs @ [f]) rs (join '','' (map csv_field (g # gs)) @ CHR 0x0A # s)"
    using read_field [of "CHR '',''" fs rs f] by simp
  also have "\<dots> = csv_read Begin [] [] (rs @ [(fs @ [f]) @ g # gs]) s" by (rule Cons.IH) simp
  finally show ?case using Cons.prems by auto
qed

lemma csv_parse_records: "\<forall>r \<in> set rows. r \<noteq> [] \<Longrightarrow> csv_parse (concat (map csv_record rows)) = Some rows"
proof -
  have "csv_read Begin [] [] rs (concat (map csv_record rows)) = Some (rs @ rows)" if "\<forall>r \<in> set rows. r \<noteq> []" for rs
    using that
  proof (induction rows arbitrary: rs)
    case (Cons r rows)
    obtain f gs where r: "r = f # gs" using Cons.prems by (cases r) auto
    have "csv_read Begin [] [] rs (csv_record r @ u) = csv_read Begin [] [] (rs @ [r]) u" for u
      using read_fields [of f gs r "[]" rs u] r by (simp add: csv_record_def)
    with Cons show ?case by simp
  qed simp
  then show "\<forall>r \<in> set rows. r \<noteq> [] \<Longrightarrow> csv_parse (concat (map csv_record rows)) = Some rows" by (simp add: csv_parse_def)
qed

text \<open>C20: The report can be read back: the body of an export is a CSV text whose records are the header and one
  record per finding of the database that the filters select, highest risk first, with all texts as
  they are stored, whatever commas, quotes and line breaks they contain.\<close>

theorem export_reads_back:
  assumes "\<not> fault_at (api_store a) (tick (s_db (core_of x)))"
    and "text_ok (api_store a) (query r ''asset_id'')" and "text_ok (api_store a) (query r ''scan_id'')" and "w_body (fst x) = []"
  shows "csv_parse (w_body (fst (exportFindings a ps r x))) =
    Some (csv_header # map csv_row (enrichRuntime (feed (api_env a)) (request_time a x)
      (select_findings (query r ''asset_id'') (query r ''scan_id'') (s_db (core_of x)))))"
proof -
  obtain w kc c l where x: "x = (w, kc, c, l)" by (metis surj_pair)
  have "ListFindings (api_store a) (query r ''asset_id'') (query r ''scan_id'') 0 0 (s_db c) =
      (Inr (select_findings (query r ''asset_id'') (query r ''scan_id'') (s_db c)), (s_db c)\<lparr>tick := Suc (tick (s_db c))\<rparr>)"
    using assms by (simp add: ListFindings_def call_def Let_def x select_findings_def)
  then have b: "w_body (fst (exportFindings a ps r x)) = concat (map csv_record (csv_header # map csv_row
      (enrichRuntime (feed (api_env a)) (request_time a x) (select_findings (query r ''asset_id'') (query r ''scan_id'') (s_db c)))))"
    using assms(4)
    by (simp add: exportFindings_def x with_store_exchange reply_def request_time_def write_body_def send_header_def header_set_def Let_def)
  have "\<forall>row \<in> set (csv_header # map csv_row fs). row \<noteq> []" for fs by (auto simp: csv_header_def csv_row_def Let_def)
  from csv_parse_records [OF this] show ?thesis using b by (simp add: x)
qed

text \<open>A finding whose title has what a CSV text must quote.\<close>

definition odd_finding :: Finding where
  "odd_finding = Finding_zero\<lparr>f_ID := ''f'', f_Title := ''a,'' @ [CHR 0x22] @ ''b'' @ [CHR 0x22, CHR 0x0A, CHR 0x0D] @ ''c'', f_Severity := SevHigh\<rparr>"

definition odd_core :: core where
  "odd_core = sample_core\<lparr>s_db := db_empty\<lparr>findings := [odd_finding]\<rparr>\<rparr>"

theorem export_reads_back_witness:
  "\<exists>f. csv_parse (w_body (fst (exportFindings sample_api (\<lambda>_. []) (demo_request []) (new_writer, no_keys, odd_core, sample_local)))) =
     Some [csv_header, csv_row f] \<and> f_Title f = f_Title odd_finding"
proof -
  let ?x = "(new_writer, no_keys, odd_core, sample_local)"
  have "query (demo_request []) k = []" for k by (simp add: query_def get_first_def demo_request_def)
  moreover have "text_ok sample_store []" "\<not> fault_at sample_store t" for t by (simp_all add: sample_store_def demo_env_def)
  moreover have "select_findings [] [] (s_db odd_core) = [odd_finding]"
    by (simp add: select_findings_def order_desc_def odd_core_def)
  moreover have "w_body new_writer = []" by (simp add: new_writer_def)
  ultimately have "csv_parse (w_body (fst (exportFindings sample_api (\<lambda>_. []) (demo_request []) ?x))) =
      Some (csv_header # map csv_row (enrichRuntime (feed (api_env sample_api)) (request_time sample_api ?x) [odd_finding]))"
    using export_reads_back [of sample_api ?x "demo_request []" "\<lambda>_. []"] by simp
  moreover have "\<exists>f. enrichRuntime fd t [g] = [f] \<and> f_Title f = f_Title g" for fd t g by (simp add: enrichRuntime_def Let_def)
  ultimately show ?thesis by (metis list.simps(8,9))
qed

end
