(* ===== verification/Api_Topology.thy ===== *)
theory Api_Topology
  imports Api_Guard
begin

text \<open>
  The import of a topology (\<open>importTopology\<close> in internal/api/api.go): what one request with many edges leaves in the
  graph, and what it answers, against a specification that looks the assets up in a list and adds a set of pairs.
\<close>

section \<open>The specification\<close>

text \<open>The asset that a reference names: by its id, else by its target.\<close>

definition asset_of :: "env \<Rightarrow> Asset list \<Rightarrow> string \<Rightarrow> Asset option" where
  "asset_of E rows rf =
     (case Option.bind (uuid_text E rf) (\<lambda>i. select_id a_ID i rows) of
        Some x \<Rightarrow> Some x
      | None \<Rightarrow> if text_ok E rf then find (\<lambda>x. a_Target x = rf) rows else None)"

definition edge_ends :: "env \<Rightarrow> Asset list \<Rightarrow> edge_input \<Rightarrow> (string \<times> string) option" where
  "edge_ends E rows e =
     Option.bind (asset_of E rows (ei_From e)) (\<lambda>src. map_option (\<lambda>dst. (a_ID src, a_ID dst)) (asset_of E rows (ei_To e)))"

text \<open>No statement and no transaction fails.\<close>

definition all_well :: "API \<Rightarrow> graph_env \<Rightarrow> bool" where
  "all_well a g \<longleftrightarrow> (\<forall>t. \<not> fault_at (api_store a) t) \<and> (\<forall>t. g_fault g t = None)"

abbreviation reaches :: "graph \<Rightarrow> (string \<times> string) set" where
  "reaches g \<equiv> rr_ends ` set (can_reach g)"

abbreviation asset_nodes :: "graph \<Rightarrow> string set" where
  "asset_nodes g \<equiv> an_id ` set (g_assets g)"

section \<open>One reference, one edge\<close>

lemma resolve_asset:
  assumes "all_well a g"
  obtains r t where "resolveAsset a rf (w, kc, c, l) = (r, w, kc, c\<lparr>s_db := (s_db c)\<lparr>tick := t\<rparr>\<rparr>, l)"
    and "asset_of (api_store a) (assets (s_db c)) rf = (case r of Inl _ \<Rightarrow> None | Inr x \<Rightarrow> Some x)"
proof -
  have f: "\<not> fault_at (api_store a) t" for t using assms by (simp add: all_well_def)
  show thesis
  proof (cases "Option.bind (uuid_text (api_store a) rf) (\<lambda>i. select_id a_ID i (assets (s_db c)))")
    case None
    then obtain e where "fst (GetAsset (api_store a) rf (s_db c)) = Inl e"
      by (simp add: GetAsset_def call_def f Let_def) (force split: option.splits)
    moreover have "snd (GetAsset (api_store a) rf (s_db c)) = (s_db c)\<lparr>tick := Suc (tick (s_db c))\<rparr>"
      by (simp add: read_inv)
    ultimately have g: "GetAsset (api_store a) rf (s_db c) = (Inl e, (s_db c)\<lparr>tick := Suc (tick (s_db c))\<rparr>)"
      by (simp add: prod_eq_iff)
    define r where "r = fst (GetAssetByTarget (api_store a) rf ((s_db c)\<lparr>tick := Suc (tick (s_db c))\<rparr>))"
    have "asset_of (api_store a) (assets (s_db c)) rf = (case r of Inl _ \<Rightarrow> None | Inr x \<Rightarrow> Some x)"
      by (simp add: r_def GetAssetByTarget_def call_def f asset_of_def None Let_def split: option.split)
    then show thesis by (intro that) (simp_all add: resolveAsset_def with_store_exchange g read_inv r_def)
  next
    case (Some x)
    then have "GetAsset (api_store a) rf (s_db c) = (Inr x, (s_db c)\<lparr>tick := Suc (tick (s_db c))\<rparr>)"
      by (auto simp: GetAsset_def call_def f Let_def split: option.splits Option.bind_splits)
    then show thesis using Some that by (simp add: resolveAsset_def with_store_exchange asset_of_def)
  qed
qed

lemma sync_asset:
  assumes "all_well a g"
  shows "reaches (snd (SyncAsset g x gr)) = reaches gr" and "asset_nodes (snd (SyncAsset g x gr)) = insert (a_ID x) (asset_nodes gr)"
  using assms by (simp_all add: SyncAsset_def transaction_def all_well_def Let_def merge_row_keys)

lemma upsert_reach:
  assumes "all_well a g" and "s \<in> asset_nodes gr" and "d \<in> asset_nodes gr"
  shows "fst (UpsertReachability g s d p q gr) = Inr ()" and "reaches (snd (UpsertReachability g s d p q gr)) = insert (s, d) (reaches gr)"
  using assms by (simp_all add: UpsertReachability_def transaction_def all_well_def Let_def merge_row_keys has_row_iff)

lemma import_one:
  assumes "all_well a g"
  obtains (skipped) p t where
      "import_edges a g i (e # es) n problems (w, kc, c, l) =
         import_edges a g (Suc i) es n (problems @ [p]) (w, kc, c\<lparr>s_db := (s_db c)\<lparr>tick := t\<rparr>\<rparr>, l)"
      "edge_ends (api_store a) (assets (s_db c)) e = None"
    | (taken) s d t gr where
      "import_edges a g i (e # es) n problems (w, kc, c, l) =
         import_edges a g (Suc i) es (n + 1) problems (w, kc, c\<lparr>s_db := (s_db c)\<lparr>tick := t\<rparr>, s_graph := gr\<rparr>, l)"
      "edge_ends (api_store a) (assets (s_db c)) e = Some (s, d)" "reaches gr = insert (s, d) (reaches (s_graph c))"
proof -
  let ?of = "asset_of (api_store a) (assets (s_db c))"
  obtain r t where r: "resolveAsset a (ei_From e) (w, kc, c, l) = (r, w, kc, c\<lparr>s_db := (s_db c)\<lparr>tick := t\<rparr>\<rparr>, l)"
    and ra: "?of (ei_From e) = (case r of Inl _ \<Rightarrow> None | Inr x \<Rightarrow> Some x)"
    using resolve_asset [OF assms] by blast
  obtain r' t' where r': "resolveAsset a (ei_To e) (w, kc, c\<lparr>s_db := (s_db c)\<lparr>tick := t\<rparr>\<rparr>, l) =
      (r', w, kc, c\<lparr>s_db := (s_db c)\<lparr>tick := t'\<rparr>\<rparr>, l)"
    and ra': "?of (ei_To e) = (case r' of Inl _ \<Rightarrow> None | Inr x \<Rightarrow> Some x)"
    using resolve_asset [OF assms, of "ei_To e" w kc "c\<lparr>s_db := (s_db c)\<lparr>tick := t\<rparr>\<rparr>" l] by auto
  consider err where "r = Inl err" | src err where "r = Inr src" "r' = Inl err" | src dst where "r = Inr src" "r' = Inr dst"
    by (cases r; cases r') auto
  then show thesis
  proof cases
    case 1
    then show thesis using ra by (intro skipped) (simp_all add: r edge_ends_def)
  next
    case 2
    then show thesis using ra ra' by (intro skipped) (simp_all add: r r' edge_ends_def)
  next
    case (3 src dst)
    define gr where "gr = snd (SyncAsset g dst (snd (SyncAsset g src (s_graph c))))"
    define up where "up = UpsertReachability g (a_ID src) (a_ID dst) (ei_Port e) (if ei_Proto e = [] then ''tcp'' else ei_Proto e) gr"
    have gr: "reaches gr = reaches (s_graph c)" "a_ID src \<in> asset_nodes gr" "a_ID dst \<in> asset_nodes gr"
      using sync_asset [OF assms] by (auto simp: gr_def)
    have up: "fst up = Inr ()" "reaches (snd up) = insert (a_ID src, a_ID dst) (reaches (s_graph c))"
      using upsert_reach [OF assms gr(2,3)] gr(1) by (simp_all add: up_def)
    obtain gr' where gr': "up = (Inr (), gr')" using up(1) by (cases up) simp
    show thesis using ra ra' 3 up(2) gr' up_def
      by (intro taken [where t = t' and gr = gr']) (simp_all add: r r' edge_ends_def with_graph_exchange gr_def Let_def)
  qed
qed

section \<open>The loop\<close>

definition edges_of :: "env \<Rightarrow> Asset list \<Rightarrow> edge_input list \<Rightarrow> (string \<times> string) list" where
  "edges_of E rows es = List.map_filter (edge_ends E rows) es"

lemma import_loop:
  assumes "all_well a g"
  shows "\<exists>ps t gr.
    import_edges a g i es n problems (w, kc, c, l) =
      (Inr (n + int (length (edges_of (api_store a) (assets (s_db c)) es)), problems @ ps),
       w, kc, c\<lparr>s_db := (s_db c)\<lparr>tick := t\<rparr>, s_graph := gr\<rparr>, l) \<and>
    length (edges_of (api_store a) (assets (s_db c)) es) + length ps = length es \<and>
    reaches gr = reaches (s_graph c) \<union> set (edges_of (api_store a) (assets (s_db c)) es)"
proof (induction es arbitrary: i n problems c)
  case Nil
  have "c = c\<lparr>s_db := (s_db c)\<lparr>tick := tick (s_db c)\<rparr>, s_graph := s_graph c\<rparr>" by simp
  then show ?case by (auto simp: edges_of_def List.map_filter_simps intro!: exI [of _ "tick (s_db c)"] exI [of _ "s_graph c"])
next
  case (Cons e es)
  define E where "E = api_store a"
  show ?case
    using assms
  proof (cases rule: import_one [of a g i e es n problems w kc c l, case_names skipped taken])
    case (skipped p t)
    from Cons.IH [of "Suc i" n "problems @ [p]" "c\<lparr>s_db := (s_db c)\<lparr>tick := t\<rparr>\<rparr>"] obtain ps u gr where
      "import_edges a g i (e # es) n problems (w, kc, c, l) =
        (Inr (n + int (length (edges_of E (assets (s_db c)) es)), problems @ p # ps), w, kc, c\<lparr>s_db := (s_db c)\<lparr>tick := u\<rparr>, s_graph := gr\<rparr>, l)"
      "length (edges_of E (assets (s_db c)) es) + length ps = length es"
      "reaches gr = reaches (s_graph c) \<union> set (edges_of E (assets (s_db c)) es)"
      unfolding skipped(1) E_def by auto
    moreover have "edges_of E (assets (s_db c)) (e # es) = edges_of E (assets (s_db c)) es"
      using skipped(2) by (simp add: edges_of_def List.map_filter_simps E_def)
    ultimately show ?thesis unfolding E_def [symmetric]
      by (intro exI [of _ "p # ps"] exI [of _ u] exI [of _ gr]) (simp del: import_edges.simps)
  next
    case (taken s d t gr)
    from Cons.IH [of "Suc i" "n + 1" problems "c\<lparr>s_db := (s_db c)\<lparr>tick := t\<rparr>, s_graph := gr\<rparr>"] obtain ps u gr' where
      "import_edges a g i (e # es) n problems (w, kc, c, l) =
        (Inr (n + 1 + int (length (edges_of E (assets (s_db c)) es)), problems @ ps), w, kc, c\<lparr>s_db := (s_db c)\<lparr>tick := u\<rparr>, s_graph := gr'\<rparr>, l)"
      "length (edges_of E (assets (s_db c)) es) + length ps = length es"
      "reaches gr' = reaches gr \<union> set (edges_of E (assets (s_db c)) es)"
      unfolding taken(1) E_def by auto
    moreover have "edges_of E (assets (s_db c)) (e # es) = (s, d) # edges_of E (assets (s_db c)) es"
      using taken(2) by (simp add: edges_of_def List.map_filter_simps E_def)
    ultimately show ?thesis using taken(3) unfolding E_def [symmetric]
      by (intro exI [of _ ps] exI [of _ u] exI [of _ gr']) (simp del: import_edges.simps)
  qed
qed


definition mesh_api :: API where
  "mesh_api = sample_api\<lparr>api_graph := Some (sample_graph_env [])\<rparr>"

definition mesh_core :: core where
  "mesh_core = sample_core\<lparr>s_db := db_empty\<lparr>assets := [demo_asset\<lparr>a_ID := ''a''\<rparr>, demo_asset\<lparr>a_ID := ''b'', a_Target := ''db''\<rparr>]\<rparr>\<rparr>"

definition mesh_request :: request where
  "mesh_request = (demo_request [])\<lparr>r_body := enc (JObj [(''edges'', JArr [JObj [(''from'', JStr ''a''), (''to'', JStr ''db'')],
     JObj [(''from'', JStr ''a''), (''to'', JStr ''x'')]])])\<rparr>"

definition mesh_edge :: "string \<Rightarrow> string \<Rightarrow> edge_input" where
  "mesh_edge s d = \<lparr>ei_From = s, ei_To = d, ei_Port = 0, ei_Proto = []\<rparr>"

lemma mesh_decoded: "decode topology_decoder mesh_request [] = ([mesh_edge ''a'' ''db'', mesh_edge ''a'' ''x''], False)"
  by code_simp


end
