(* ===== verification/Api_Refusals.thy ===== *)
theory Api_Refusals
  imports Api_Guard
begin

text \<open>
  Refusals: a request that is answered with a status of the class 4xx has changed no row, no node, no relationship
  and no queue, whichever handler answered it and at whatever point; only the audit trail may have got its entry.
\<close>

section \<open>Answers of the class 4xx\<close>

definition refusal :: "int \<Rightarrow> bool" where
  "refusal c \<longleftrightarrow> 400 \<le> c \<and> c < 500"

text \<open>Either the answer is no refusal, or at most queries came before it.\<close>

definition unrefused :: "exchange \<Rightarrow> exchange \<Rightarrow> bool" where
  "unrefused x y \<longleftrightarrow> (fresh (fst x) \<longrightarrow> \<not> refusal (status_of (fst y)))"

definition careful :: "exchange \<Rightarrow> exchange \<Rightarrow> bool" where
  "careful x y \<longleftrightarrow> unrefused x y \<or> rtranclp read_step (core_of x) (core_of y)"

named_theorems careful_intros \<open>no change before a refusal\<close>

lemma careful_unrefused: "unrefused x y \<Longrightarrow> careful x y"
  by (simp add: careful_def)

lemma careful_answers: "answers read_step x y \<Longrightarrow> careful x y"
  by (simp add: careful_def answers_def keeps_def)

lemma careful_reply [careful_intros]: "careful x (reply f x)"
  by (cases x) (simp add: careful_def reply_def)

lemma careful_error [careful_intros]: "careful x (storeError a e x)" "careful x (notFoundOrError a e x)"
  unfolding storeError_def notFoundOrError_def by (rule careful_reply)+

lemma careful_if [careful_intros]: "careful x y \<Longrightarrow> careful x z \<Longrightarrow> careful x (if b then y else z)"
  by simp

lemma careful_decode [careful_intros]:
  "(\<And>i. careful x (A i)) \<Longrightarrow> (\<And>i. careful x (B i)) \<Longrightarrow> careful x (case p of (i, True) \<Rightarrow> A i | (i, False) \<Rightarrow> B i)"
  by (auto split: prod.split bool.split)

lemma careful_enabled [careful_intros]:
  "(\<And>g y. api_graph a = Some g \<Longrightarrow> careful y (h g y)) \<Longrightarrow> careful x (with_graph_enabled a h x)"
  by (auto simp: with_graph_enabled_def split: option.split intro: careful_reply)

lemma unrefused_JSON: "\<not> refusal c \<Longrightarrow> unrefused x (reply (writeJSON c v) x)"
  by (simp add: unrefused_def reply_def status_writeJSON)

lemma unrefused_serverError: "unrefused x (reply (serverError e) x)" "unrefused x (storeError a e' x)"
  unfolding storeError_def serverError_def by (intro unrefused_JSON; simp add: refusal_def)+

lemma unrefused_fault: "e \<noteq> ErrNotFound \<Longrightarrow> unrefused x (notFoundOrError a e x)"
  by (simp add: notFoundOrError_def unrefused_serverError)

text \<open>A call leaves the writer alone, so what comes after it is judged as before it.\<close>

lemma unrefused_call:
  assumes "fst (snd c) = fst x" and "\<And>e y. unrefused y (A e y)" and "\<And>v y. unrefused y (B v y)"
  shows "unrefused x (case c of (Inl e, y) \<Rightarrow> A e y | (Inr v, y) \<Rightarrow> B v y)"
  using assms unfolding unrefused_def by (cases c; cases "fst c") auto

lemma call_writer [simp]:
  "fst (snd (with_store f x)) = fst x" "fst (snd (with_graph h x)) = fst x" "fst (snd (with_queue q x)) = fst x"
  by (cases x; simp add: with_store_def with_graph_def with_queue_def on_core_def case_prod_unfold Let_def)+

text \<open>After a call there is no refusal, or it has read at most.\<close>

lemma careful_call:
  assumes "fst (snd c) = fst x"
    and "\<And>e y. c = (Inl e, y) \<Longrightarrow> unrefused y (A e y) \<or> (rtranclp read_step (core_of x) (core_of y) \<and> careful y (A e y))"
    and "\<And>v y. c = (Inr v, y) \<Longrightarrow> unrefused y (B v y) \<or> (rtranclp read_step (core_of x) (core_of y) \<and> careful y (B v y))"
  shows "careful x (case c of (Inl e, y) \<Rightarrow> A e y | (Inr v, y) \<Rightarrow> B v y)"
proof -
  obtain r y where c: "c = (r, y)" by (cases c)
  have "fst y = fst x" using assms(1) by (simp add: c)
  then have s: "unrefused y z \<Longrightarrow> unrefused x z" for z by (simp add: unrefused_def)
  have "careful x z" if "unrefused y z \<or> (rtranclp read_step (core_of x) (core_of y) \<and> careful y z)" for z
    using that s [of z] unfolding careful_def by (meson rtranclp_trans)
  then show ?thesis using assms(2,3) [of _ y] by (cases r) (simp_all add: c)
qed

lemma careful_read_store [careful_intros]:
  assumes "\<And>c. rtranclp read_step c (c\<lparr>s_db := snd (f (s_db c))\<rparr>)" and "\<And>e y. careful y (A e y)" and "\<And>v y. careful y (B v y)"
  shows "careful x (case with_store f x of (Inl e, y) \<Rightarrow> A e y | (Inr v, y) \<Rightarrow> B v y)"
proof -
  have "rtranclp read_step (core_of x) (core_of (snd (with_store f x)))"
    using assms(1) by (cases x) (auto simp: with_store_exchange)
  then show ?thesis using assms(2,3) by (intro careful_call) auto
qed

text \<open>A failing write may have taken effect, but then the answer is a 500; only what is not found is refused.\<close>

lemma careful_write_store:
  assumes "\<And>d. fst (f d) = Inl ErrNotFound \<Longrightarrow> snd (f d) = d\<lparr>tick := Suc (tick d)\<rparr>"
    and "\<And>e y. careful y (A e y)" and "\<And>e y. e \<noteq> ErrNotFound \<Longrightarrow> unrefused y (A e y)" and "\<And>v y. unrefused y (B v y)"
  shows "careful x (case with_store f x of (Inl e, y) \<Rightarrow> A e y | (Inr v, y) \<Rightarrow> B v y)"
proof (rule careful_call)
  fix e y
  assume c: "with_store f x = (Inl e, y)"
  show "unrefused y (A e y) \<or> (rtranclp read_step (core_of x) (core_of y) \<and> careful y (A e y))"
  proof (cases "e = ErrNotFound")
    case True
    then have "rtranclp read_step (core_of x) (core_of y)"
      using assms(1) c by (cases x) (auto simp: with_store_exchange intro!: r_into_rtranclp read_step.query)
    then show ?thesis using assms(2) by blast
  qed (use assms(3) in blast)
qed (use assms(4) in simp_all)

lemma careful_write_graph:
  assumes "\<And>e y. unrefused y (A e y)"
    and "\<And>g v y. fst (f g) = Inr v \<Longrightarrow> unrefused y (B v y) \<or> (snd (f g) = g\<lparr>g_tick := Suc (g_tick g)\<rparr> \<and> careful y (B v y))"
  shows "careful x (case with_graph f x of (Inl e, y) \<Rightarrow> A e y | (Inr v, y) \<Rightarrow> B v y)"
proof -
  obtain w kc c l where x: "x = (w, kc, c, l)" by (metis surj_pair)
  have tick: "rtranclp read_step c (c\<lparr>s_graph := snd (f (s_graph c))\<rparr>)"
    if "snd (f (s_graph c)) = (s_graph c)\<lparr>g_tick := Suc (g_tick (s_graph c))\<rparr>"
    unfolding that by (intro r_into_rtranclp read_step.graph_query)
  show ?thesis
  proof (rule careful_call)
    show "unrefused y (B v y) \<or> (rtranclp read_step (core_of x) (core_of y) \<and> careful y (B v y))"
      if "with_graph f x = (Inr v, y)" for v y
      using assms(2) [of "s_graph c" v y] tick that unfolding x with_graph_exchange by auto
  qed (use assms(1) in \<open>auto simp: x with_graph_exchange\<close>)
qed

section \<open>Failing calls\<close>

lemma store_failures:
  "fst (CreateAsset E v d) = Inl ErrNotFound \<Longrightarrow> snd (CreateAsset E v d) = d\<lparr>tick := Suc (tick d)\<rparr>"
  "fst (SetAssetAuthorization E i b d) = Inl ErrNotFound \<Longrightarrow> snd (SetAssetAuthorization E i b d) = d\<lparr>tick := Suc (tick d)\<rparr>"
  "fst (CreateScanJob E j d) = Inl ErrNotFound \<Longrightarrow> snd (CreateScanJob E j d) = d\<lparr>tick := Suc (tick d)\<rparr>"
  "fst (UpdateFindingStatus E i st d) = Inl ErrNotFound \<Longrightarrow> snd (UpdateFindingStatus E i st d) = d\<lparr>tick := Suc (tick d)\<rparr>"
  by (auto simp: CreateAsset_def SetAssetAuthorization_def CreateScanJob_def UpdateFindingStatus_def call_def Let_def
      split: if_splits option.splits)

lemma edge_failures:
  "fst (UpsertEscalation env i j t c w g) = Inr False \<Longrightarrow> snd (UpsertEscalation env i j t c w g) = g\<lparr>g_tick := Suc (g_tick g)\<rparr>"
  "fst (UpsertCredentialReuse env i j w g) = Inr False \<Longrightarrow> snd (UpsertCredentialReuse env i j w g) = g\<lparr>g_tick := Suc (g_tick g)\<rparr>"
  by (auto simp: UpsertEscalation_def UpsertCredentialReuse_def transaction_def Let_def
      split: option.splits if_splits prod.splits)

section \<open>Handlers\<close>

text \<open>Once the graph is synchronised there is nothing to refuse: errors of the databases are not the caller's.\<close>

lemma unrefused_pair:
  assumes "fst (snd c) = fst x" and "\<And>e y. unrefused y (A e y)" and "\<And>u v y. unrefused y (B u v y)"
  shows "unrefused x (case c of (Inl e, y) \<Rightarrow> A e y | (Inr (u, v), y) \<Rightarrow> B u v y)"
proof -
  have "unrefused x (case c of (Inl e, y) \<Rightarrow> A e y | (Inr p, y) \<Rightarrow> (case p of (u, v) \<Rightarrow> B u v y))"
    by (rule unrefused_call) (use assms in \<open>auto split: prod.split\<close>)
  then show ?thesis by (simp cong: sum.case_cong)
qed

lemma loop_writer:
  "api_graph a = Some g \<Longrightarrow> fst (snd (sync_assets a g ass m n x)) = fst x"
  "api_graph a = Some g \<Longrightarrow> fst (snd (import_edges a g i es k ps x)) = fst x"
  using sync_assets_calls [of a g x ass m n] import_edges_calls [of a g x i es k ps] by (simp_all add: calls_def)

lemma graphSync_careful: "careful x (graphSync a ps r x)"
  unfolding graphSync_def
proof (rule careful_enabled, rule careful_read_store)
  fix g y rows z
  assume g: "api_graph a = Some g"
  show "careful z (case sync_assets a g rows 0 0 z of (Inl err, x) \<Rightarrow> reply (serverError err) x
      | (Inr (m, n), x) \<Rightarrow> reply (writeJSON 200 (j_map [(''assets'', j_int m), (''vulnerabilities'', j_int n)])) x)"
    by (rule careful_unrefused, rule unrefused_pair)
      (simp_all add: loop_writer [OF g] unrefused_serverError unrefused_JSON refusal_def)
qed (rule store_reads careful_error)+

lemma importTopology_careful: "careful x (importTopology a ps r x)"
  unfolding importTopology_def
proof (rule careful_enabled, rule careful_decode)
  fix g y es
  assume g: "api_graph a = Some g"
  show "careful y (case import_edges a g 0 es 0 [] y of (Inl err, x) \<Rightarrow> reply (serverError err) x
      | (Inr (imported, problems), x) \<Rightarrow>
          reply (writeJSON 200 (j_map [(''imported'', j_int imported), (''problems'', j_slice j_str problems)])) x)"
    by (rule careful_unrefused, rule unrefused_pair)
      (simp_all add: loop_writer [OF g] unrefused_serverError unrefused_JSON refusal_def)
qed (rule careful_reply)

lemma unrefused_edge:
  assumes "\<And>g. fst (f g) = Inr False \<Longrightarrow> snd (f g) = g\<lparr>g_tick := Suc (g_tick g)\<rparr>"
  shows "careful x (case with_graph f x of (Inl err, x) \<Rightarrow> reply (serverError err) x
    | (Inr ok, x) \<Rightarrow> if \<not> ok then reply accounts_missing x else reply (writeJSON 201 v) x)"
  by (rule careful_write_graph) (use assms in \<open>auto simp: careful_reply unrefused_serverError intro!: unrefused_JSON simp: refusal_def\<close>)

lemma createAccount_careful: "careful x (createAccount a ps r x)"
  unfolding createAccount_def Let_def
  by (intro careful_enabled careful_decode careful_if careful_reply careful_read_store store_reads careful_error
      careful_unrefused unrefused_call unrefused_serverError unrefused_JSON) (simp_all add: refusal_def)

lemma writing_careful:
  "careful x (createAsset a ps r x)"
  "careful x (startScan a ps r x)"
  "careful x (updateFindingStatus a ps r x)"
  "careful x (authorizeAsset a ps r x)"
  "careful x (addReachability a ps r x)"
  "careful x (addEscalation a ps r x)"
  "careful x (addCredentialReuse a ps r x)"
  unfolding createAsset_def startScan_def updateFindingStatus_def authorizeAsset_def addReachability_def addEscalation_def
    addCredentialReuse_def Let_def
  subgoal by (intro careful_decode careful_if careful_reply careful_write_store store_failures careful_error unrefused_serverError unrefused_fault unrefused_JSON)
      (simp_all add: refusal_def)
  subgoal by (intro careful_read_store store_reads careful_write_store store_failures careful_error unrefused_call
        unrefused_serverError unrefused_fault unrefused_JSON) (simp_all add: refusal_def)
  subgoal by (intro careful_decode careful_if careful_reply careful_write_store store_failures careful_error unrefused_serverError unrefused_fault unrefused_JSON)
      (simp_all add: refusal_def)
  subgoal by (intro careful_decode careful_if careful_reply careful_write_store store_failures careful_error unrefused_serverError unrefused_fault unrefused_JSON)
      (simp_all add: refusal_def)
  subgoal by (intro careful_enabled careful_decode careful_if careful_reply careful_read_store store_reads careful_error
        careful_unrefused unrefused_call unrefused_serverError unrefused_JSON) (simp_all add: refusal_def)
  subgoal by (intro careful_enabled careful_decode careful_if careful_reply unrefused_edge edge_failures)
  subgoal by (intro careful_enabled careful_decode careful_if careful_reply unrefused_edge edge_failures)
  done

lemma endpoint_careful:
  assumes "i < length api_routes"
  shows "careful x (snd (snd (api_routes ! i)) a ps r x)"
proof -
  have "list_all (\<lambda>((m, _), _, h). m = MethodGet \<or> careful x (h a ps r x)) api_routes"
    by (simp add: api_routes_def writing_careful graphSync_careful importTopology_careful createAccount_careful)
  then have "fst (fst (api_routes ! i)) = MethodGet \<or> careful x (snd (snd (api_routes ! i)) a ps r x)"
    using assms by (simp add: list_all_length case_prod_unfold)
  then show ?thesis using endpoint_answers(2) [OF assms] careful_answers by blast
qed

section \<open>Requests\<close>

text \<open>The two states have the same assets, jobs, findings, nodes, relationships and queues: the audit trail is left out, and only
  calls may have been counted.\<close>

definition rows_kept :: "core \<Rightarrow> core \<Rightarrow> bool" where
  "rows_kept c c' \<longleftrightarrow>
     assets (s_db c') = assets (s_db c) \<and> scan_jobs (s_db c') = scan_jobs (s_db c) \<and> findings (s_db c') = findings (s_db c) \<and>
     s_graph c' = (s_graph c)\<lparr>g_tick := g_tick (s_graph c')\<rparr> \<and> s_redis c' = s_redis c"

lemma reads_rows_kept: "rtranclp read_step c c' \<Longrightarrow> rows_kept c c'"
  using read_steps_frame [of c c'] by (auto simp: rows_kept_def)

lemma same_data_rows: "rows_kept c d \<Longrightarrow> same_data d c' \<Longrightarrow> rows_kept c c'"
  by (simp add: rows_kept_def same_data_def)

lemma rows_kept_refl: "rows_kept c c"
  by (simp add: rows_kept_def)



end
