(* ===== verification/Api_Projection.thy ===== *)
theory Api_Projection
  imports Api_Topology
begin

text \<open>
  The synchronisation of the graph (\<open>graphSync\<close> in internal/api/api.go): after it the graph is a projection of the
  database, one node per asset and per finding with the values of its row, and one relationship from
  each asset to each of its findings.
\<close>

section \<open>The projection\<close>

definition asset_row :: "Asset \<Rightarrow> asset_node" where
  "asset_row x =
     \<lparr>an_id = a_ID x, an_name = a_Name x, an_target = a_Target x, an_criticality = a_Criticality x, an_exposure = Exposure x\<rparr>"

definition vuln_row :: "Finding \<Rightarrow> vuln_node" where
  "vuln_row f =
     \<lparr>vn_id = f_ID f, vn_title = f_Title f, vn_cwe = f_CWE f, vn_cvss = f_CVSS f, vn_risk = f_RiskScore f,
      vn_kev = f_KnownExploit f, vn_severity = f_Severity f\<rparr>"

definition shows_asset :: "graph \<Rightarrow> Asset \<Rightarrow> bool" where
  "shows_asset gr x \<longleftrightarrow> rows_at an_id (a_ID x) (g_assets gr) = [asset_row x]"

definition shows_finding :: "graph \<Rightarrow> Finding \<Rightarrow> bool" where
  "shows_finding gr f \<longleftrightarrow> rows_at vn_id (f_ID f) (g_vulns gr) = [vuln_row f]"

abbreviation vuln_nodes :: "graph \<Rightarrow> string set" where
  "vuln_nodes gr \<equiv> vn_id ` set (g_vulns gr)"

text \<open>What a synchronisation never touches.\<close>

definition others :: "graph \<Rightarrow> graph" where
  "others gr = gr\<lparr>g_assets := [], g_vulns := [], has_vuln := [], g_tick := 0\<rparr>"

text \<open>The second graph is the first with the assets \<open>X\<close> and the findings \<open>F\<close> projected into it.\<close>

definition gains :: "graph \<Rightarrow> graph \<Rightarrow> Asset set \<Rightarrow> Finding set \<Rightarrow> bool" where
  "gains gr gr' X F \<longleftrightarrow>
     (graph_ok gr \<longrightarrow> graph_ok gr') \<and> others gr' = others gr \<and>
     asset_nodes gr' = asset_nodes gr \<union> a_ID ` X \<and> vuln_nodes gr' = vuln_nodes gr \<union> f_ID ` F \<and>
     set (has_vuln gr') = set (has_vuln gr) \<union> (\<lambda>f. (f_AssetID f, f_ID f)) ` F \<and>
     (graph_ok gr \<longrightarrow> (\<forall>x \<in> X. shows_asset gr' x) \<and> (\<forall>f \<in> F. shows_finding gr' f)) \<and>
     (\<forall>x. a_ID x \<notin> a_ID ` X \<longrightarrow> shows_asset gr x \<longrightarrow> shows_asset gr' x) \<and>
     (\<forall>f. f_ID f \<notin> f_ID ` F \<longrightarrow> shows_finding gr f \<longrightarrow> shows_finding gr' f)"

lemma gains_refl: "gains gr gr {} {}"
  by (simp add: gains_def)

lemma gains_ok: "gains gr gr' X F \<Longrightarrow> graph_ok gr \<Longrightarrow> graph_ok gr'"
  by (simp add: gains_def)

lemma gains_shows:
  "gains gr gr' X F \<Longrightarrow> graph_ok gr \<Longrightarrow> x \<in> X \<Longrightarrow> shows_asset gr' x"
  "gains gr gr' X F \<Longrightarrow> graph_ok gr \<Longrightarrow> f \<in> F \<Longrightarrow> shows_finding gr' f"
  by (simp_all add: gains_def)

lemma gains_keeps:
  "gains gr gr' X F \<Longrightarrow> a_ID x \<notin> a_ID ` X \<Longrightarrow> shows_asset gr x \<Longrightarrow> shows_asset gr' x"
  "gains gr gr' X F \<Longrightarrow> f_ID f \<notin> f_ID ` F \<Longrightarrow> shows_finding gr f \<Longrightarrow> shows_finding gr' f"
  by (simp_all add: gains_def)

lemma gains_sets:
  assumes "gains gr gr' X F"
  shows "others gr' = others gr" "asset_nodes gr' = asset_nodes gr \<union> a_ID ` X" "vuln_nodes gr' = vuln_nodes gr \<union> f_ID ` F"
    "set (has_vuln gr') = set (has_vuln gr) \<union> (\<lambda>f. (f_AssetID f, f_ID f)) ` F"
  using assms by (simp_all add: gains_def)

lemma gains_trans:
  assumes g: "gains gr gr1 X F" and h: "gains gr1 gr2 Y G" and X: "a_ID ` X \<inter> a_ID ` Y = {}" and F: "f_ID ` F \<inter> f_ID ` G = {}"
  shows "gains gr gr2 (X \<union> Y) (F \<union> G)"
proof -
  have "shows_asset gr2 x" if ok: "graph_ok gr" and x: "x \<in> X \<union> Y" for x
  proof (cases "x \<in> Y")
    case False
    with x X have "x \<in> X" "a_ID x \<notin> a_ID ` Y" by auto
    then show ?thesis using gains_keeps(1) [OF h] gains_shows(1) [OF g ok] by simp
  qed (rule gains_shows(1) [OF h gains_ok [OF g ok]])
  moreover have "shows_finding gr2 f" if ok: "graph_ok gr" and f: "f \<in> F \<union> G" for f
  proof (cases "f \<in> G")
    case False
    with f F have "f \<in> F" "f_ID f \<notin> f_ID ` G" by auto
    then show ?thesis using gains_keeps(2) [OF h] gains_shows(2) [OF g ok] by simp
  qed (rule gains_shows(2) [OF h gains_ok [OF g ok]])
  ultimately show ?thesis
    unfolding gains_def gains_sets [OF h] gains_sets [OF g]
    using gains_ok [OF g] gains_ok [OF h] gains_keeps [OF g] gains_keeps [OF h] by (simp add: image_Un Un_assoc)
qed

section \<open>One statement\<close>

lemma rows_at_merge_new:
  assumes "distinct (map key rs)"
  shows "rows_at key (key new) (merge_row key new (\<lambda>_. new) rs) = [new]"
proof -
  have "rows_at key (key new) rs = [] \<or> (\<exists>r. rows_at key (key new) rs = [r])"
    using assms
  proof (induction rs)
    case (Cons r rs)
    show ?case
    proof (cases "key r = key new")
      case True
      with Cons.prems have "filter (\<lambda>r. key r = key new) rs = []" by (auto simp: filter_empty_conv image_iff)
      with True show ?thesis by (simp add: rows_at_def)
    qed (use Cons in \<open>simp add: rows_at_def\<close>)
  qed (simp add: rows_at_def)
  then show ?thesis using merge_row_same [of key new "\<lambda>_. new" rs] by auto
qed

lemma sync_asset_gains:
  assumes "all_well a g"
  shows "gains gr (snd (SyncAsset g x gr)) {x} {}"
proof -
  have s: "snd (SyncAsset g x gr) = gr\<lparr>g_tick := Suc (g_tick gr), g_assets := merge_row an_id (asset_row x) (\<lambda>_. asset_row x) (g_assets gr)\<rparr>"
    using assms by (simp add: SyncAsset_def transaction_def all_well_def Let_def asset_row_def)
  have i: "an_id (asset_row x) = a_ID x" by (simp add: asset_row_def)
  have "graph_ok gr \<Longrightarrow> graph_ok (snd (SyncAsset g x gr))" by (rule graph_step_ok) (rule graph_step.intros)
  moreover have "shows_asset (snd (SyncAsset g x gr)) x" if "graph_ok gr"
    using rows_at_merge_new [of an_id "g_assets gr" "asset_row x"] that by (simp add: s shows_asset_def i graph_ok_def Let_def)
  moreover have "shows_asset (snd (SyncAsset g x gr)) y" if "a_ID y \<noteq> a_ID x" "shows_asset gr y" for y
    using that merge_row_other [of an_id "asset_row x" "\<lambda>_. asset_row x" "a_ID y" "g_assets gr"] by (simp add: s shows_asset_def i)
  ultimately show ?thesis
    using merge_row_keys [of an_id "asset_row x" "\<lambda>_. asset_row x" "g_assets gr"]
    by (simp add: gains_def s i others_def shows_finding_def)
qed

lemma sync_finding_gains:
  assumes "all_well a g" and "f_AssetID f \<in> asset_nodes gr"
  shows "gains gr (snd (SyncFinding g f gr)) {} {f}" and "fst (SyncFinding g f gr) = Inr ()"
proof -
  have h: "has_row an_id (f_AssetID f) (g_assets gr)" using assms(2) by (simp add: has_row_iff)
  have s: "snd (SyncFinding g f gr) = gr\<lparr>g_tick := Suc (g_tick gr), g_vulns := merge_row vn_id (vuln_row f) (\<lambda>_. vuln_row f) (g_vulns gr),
      has_vuln := merge_pair (f_AssetID f, f_ID f) (has_vuln gr)\<rparr>"
    using assms h by (simp add: SyncFinding_def transaction_def all_well_def Let_def vuln_row_def)
  show "fst (SyncFinding g f gr) = Inr ()" using assms h by (simp add: SyncFinding_def transaction_def all_well_def Let_def)
  have i: "vn_id (vuln_row f) = f_ID f" by (simp add: vuln_row_def)
  have "graph_ok gr \<Longrightarrow> graph_ok (snd (SyncFinding g f gr))" by (rule graph_step_ok) (rule graph_step.intros)
  moreover have "shows_finding (snd (SyncFinding g f gr)) f" if "graph_ok gr"
    using rows_at_merge_new [of vn_id "g_vulns gr" "vuln_row f"] that by (simp add: s shows_finding_def i graph_ok_def Let_def)
  moreover have "shows_finding (snd (SyncFinding g f gr)) y" if "f_ID y \<noteq> f_ID f" "shows_finding gr y" for y
    using that merge_row_other [of vn_id "vuln_row f" "\<lambda>_. vuln_row f" "f_ID y" "g_vulns gr"] by (simp add: s shows_finding_def i)
  ultimately show "gains gr (snd (SyncFinding g f gr)) {} {f}"
    using merge_row_keys [of vn_id "vuln_row f" "\<lambda>_. vuln_row f" "g_vulns gr"]
    by (simp add: gains_def s i others_def shows_asset_def)
qed

section \<open>The two loops\<close>

lemma two_stores: "c\<lparr>s_graph := gr, s_db := d\<rparr> = c\<lparr>s_db := d, s_graph := gr\<rparr>"
  by simp

lemma sync_findings_gains:
  assumes "all_well a g" and "distinct (map f_ID fs)" and "\<forall>f \<in> set fs. f_AssetID f \<in> asset_nodes (s_graph c)"
  shows "\<exists>gr. sync_findings g fs n (w, kc, c, l) = (Inr (n + int (length fs)), w, kc, c\<lparr>s_graph := gr\<rparr>, l) \<and>
    gains (s_graph c) gr {} (set fs)"
  using assms(2,3)
proof (induction fs arbitrary: n c)
  case Nil
  have "c = c\<lparr>s_graph := s_graph c\<rparr>" by simp
  then show ?case using gains_refl by (auto intro!: exI [of _ "s_graph c"])
next
  case (Cons f fs)
  define gr where "gr = snd (SyncFinding g f (s_graph c))"
  have f: "gains (s_graph c) gr {} {f}" "SyncFinding g f (s_graph c) = (Inr (), gr)"
    using sync_finding_gains [OF assms(1), of f "s_graph c"] Cons.prems(2) by (simp_all add: gr_def prod_eq_iff)
  then have "\<forall>f \<in> set fs. f_AssetID f \<in> asset_nodes gr" using Cons.prems(2) by (simp add: gains_def)
  then obtain gr' where gr': "sync_findings g fs (n + 1) (w, kc, c\<lparr>s_graph := gr\<rparr>, l) =
      (Inr (n + 1 + int (length fs)), w, kc, c\<lparr>s_graph := gr'\<rparr>, l)" "gains gr gr' {} (set fs)"
    using Cons.IH [of "c\<lparr>s_graph := gr\<rparr>" "n + 1"] Cons.prems(1) by auto
  have "gains (s_graph c) gr' ({} \<union> {}) ({f} \<union> set fs)"
    by (rule gains_trans [OF f(1) gr'(2)]) (use Cons.prems(1) in auto)
  then show ?case using gr'(1) f(2) by (intro exI [of _ gr']) (simp add: with_graph_exchange)
qed

text \<open>The findings of a set of assets.\<close>

definition found_on :: "Asset set \<Rightarrow> db \<Rightarrow> Finding list" where
  "found_on X d = filter (\<lambda>f. f_AssetID f \<in> a_ID ` X) (findings d)"

lemma found_on_tick [simp]: "found_on X (d\<lparr>tick := t\<rparr>) = found_on X d"
  by (simp add: found_on_def)

lemma found_on_insert:
  assumes "a_ID x \<notin> a_ID ` X"
  shows "mset (found_on (insert x X) d) = mset (found_on {x} d) + mset (found_on X d)"
proof -
  have "mset (filter (\<lambda>f. f_AssetID f \<in> a_ID ` insert x X) fs) =
      mset (filter (\<lambda>f. f_AssetID f \<in> a_ID ` {x}) fs) + mset (filter (\<lambda>f. f_AssetID f \<in> a_ID ` X) fs)" for fs
    using assms by (induction fs) auto
  then show ?thesis by (simp add: found_on_def)
qed

lemma found_on_apart:
  assumes "distinct (map f_ID (findings d))" and "a_ID ` X \<inter> a_ID ` Y = {}"
  shows "f_ID ` set (found_on X d) \<inter> f_ID ` set (found_on Y d) = {}"
proof -
  have "f_ID f \<noteq> f_ID h" if "f \<in> set (found_on X d)" "h \<in> set (found_on Y d)" for f h
  proof
    assume "f_ID f = f_ID h"
    then have "f = h" using that assms(1) by (simp add: found_on_def distinct_map inj_on_def)
    then show False using that assms(2) by (simp add: found_on_def disjoint_iff)
  qed
  then show ?thesis by blast
qed

lemma list_of_asset:
  assumes "all_well a g" and "a_ID x \<noteq> []" and "text_ok (api_store a) (a_ID x)" and "text_ok (api_store a) []"
  obtains fs where "ListFindings (api_store a) (a_ID x) [] 0 0 d = (Inr fs, d\<lparr>tick := Suc (tick d)\<rparr>)" "mset fs = mset (found_on {x} d)"
proof -
  have "mset (select_findings (a_ID x) [] d) = mset (found_on {x} d)"
    using assms(2) by (simp add: select_findings_def found_on_def)
  then show thesis using that assms by (simp add: ListFindings_def call_def all_well_def Let_def select_findings_def)
qed

definition listable :: "env \<Rightarrow> Asset set \<Rightarrow> bool" where
  "listable D X \<longleftrightarrow> text_ok D [] \<and> (\<forall>x \<in> X. a_ID x \<noteq> [] \<and> text_ok D (a_ID x))"

lemma sync_assets_gains:
  assumes "all_well a g" and "distinct (map a_ID xs)" and "listable (api_store a) (set xs)" and "distinct (map f_ID (findings (s_db c)))"
  shows "\<exists>t gr. sync_assets a g xs m n (w, kc, c, l) =
      (Inr (m + int (length xs), n + int (length (found_on (set xs) (s_db c)))), w, kc, c\<lparr>s_db := (s_db c)\<lparr>tick := t\<rparr>, s_graph := gr\<rparr>, l) \<and>
    gains (s_graph c) gr (set xs) (set (found_on (set xs) (s_db c)))"
  using assms(2-4)
proof (induction xs arbitrary: m n c)
  case Nil
  have "c = c\<lparr>s_db := (s_db c)\<lparr>tick := tick (s_db c)\<rparr>, s_graph := s_graph c\<rparr>" by simp
  then show ?case using gains_refl by (auto simp: found_on_def intro!: exI [of _ "tick (s_db c)"] exI [of _ "s_graph c"])
next
  case (Cons x xs)
  let ?F = "found_on (set xs) (s_db c)"
  define gr1 where "gr1 = snd (SyncAsset g x (s_graph c))"
  have x: "gains (s_graph c) gr1 {x} {}" using sync_asset_gains [OF assms(1)] by (simp add: gr1_def)
  have x': "SyncAsset g x (s_graph c) = (Inr (), gr1)"
    using assms(1) by (simp add: gr1_def SyncAsset_def transaction_def all_well_def Let_def)
  obtain fs where fs: "ListFindings (api_store a) (a_ID x) [] 0 0 (s_db c) = (Inr fs, (s_db c)\<lparr>tick := Suc (tick (s_db c))\<rparr>)"
      "mset fs = mset (found_on {x} (s_db c))"
    using list_of_asset [OF assms(1), of x "s_db c"] Cons.prems(2) by (auto simp: listable_def)
  have set: "set fs = set (found_on {x} (s_db c))" using fs(2) by (metis set_mset_mset)
  have "mset (map f_ID fs) = mset (map f_ID (found_on {x} (s_db c)))" using fs(2) by simp
  then have "distinct (map f_ID fs)" using Cons.prems(3) by (metis distinct_map_filter found_on_def mset_eq_imp_distinct_iff)
  then obtain gr2 where gr2: "sync_findings g fs n (w, kc, c\<lparr>s_db := (s_db c)\<lparr>tick := Suc (tick (s_db c))\<rparr>, s_graph := gr1\<rparr>, l) =
      (Inr (n + int (length fs)), w, kc, c\<lparr>s_db := (s_db c)\<lparr>tick := Suc (tick (s_db c))\<rparr>, s_graph := gr2\<rparr>, l)" "gains gr1 gr2 {} (set fs)"
    using sync_findings_gains [OF assms(1), of fs "c\<lparr>s_db := (s_db c)\<lparr>tick := Suc (tick (s_db c))\<rparr>, s_graph := gr1\<rparr>" n w kc l]
      gains_sets(2) [OF x] by (auto simp: set found_on_def)
  let ?c2 = "c\<lparr>s_db := (s_db c)\<lparr>tick := Suc (tick (s_db c))\<rparr>, s_graph := gr2\<rparr>"
  have "\<exists>t gr3. sync_assets a g xs (m + 1) (n + int (length fs)) (w, kc, ?c2, l) =
      (Inr (m + 1 + int (length xs), n + int (length fs) + int (length (found_on (set xs) (s_db ?c2)))),
       w, kc, ?c2\<lparr>s_db := (s_db ?c2)\<lparr>tick := t\<rparr>, s_graph := gr3\<rparr>, l) \<and>
      gains (s_graph ?c2) gr3 (set xs) (set (found_on (set xs) (s_db ?c2)))"
    by (rule Cons.IH) (use Cons.prems in \<open>simp_all add: listable_def\<close>)
  then obtain t gr3 where h: "sync_assets a g xs (m + 1) (n + int (length fs)) (w, kc, ?c2, l) =
      (Inr (m + 1 + int (length xs), n + int (length fs) + int (length (found_on (set xs) (s_db ?c2)))),
       w, kc, ?c2\<lparr>s_db := (s_db ?c2)\<lparr>tick := t\<rparr>, s_graph := gr3\<rparr>, l)"
      "gains (s_graph ?c2) gr3 (set xs) (set (found_on (set xs) (s_db ?c2)))"
    by blast
  have gr3: "sync_assets a g xs (m + 1) (n + int (length fs)) (w, kc, ?c2, l) =
      (Inr (m + 1 + int (length xs), n + int (length fs) + int (length ?F)), w, kc, c\<lparr>s_db := (s_db c)\<lparr>tick := t\<rparr>, s_graph := gr3\<rparr>, l)"
      "gains gr2 gr3 (set xs) (set ?F)"
    using h by simp_all
  have new: "a_ID x \<notin> a_ID ` set xs" using Cons.prems(1) by simp
  then have both: "mset (found_on (set (x # xs)) (s_db c)) = mset (fs @ ?F)"
    using found_on_insert [of x "set xs" "s_db c"] fs(2) by simp
  have all: "({} \<union> set fs) \<union> set ?F = set (found_on (set (x # xs)) (s_db c))"
    and n: "length (found_on (set (x # xs)) (s_db c)) = length fs + length ?F"
    using arg_cong [OF both, of set_mset] arg_cong [OF both, of size] by simp_all
  have "f_ID ` set fs \<inter> f_ID ` set ?F = {}"
    unfolding set by (rule found_on_apart) (use Cons.prems new in simp_all)
  then have "gains (s_graph c) gr3 (({x} \<union> {}) \<union> set xs) (({} \<union> set fs) \<union> set ?F)"
    by (intro gains_trans [OF gains_trans [OF x gr2(2)] gr3(2)]) (use new in auto)
  then have g: "gains (s_graph c) gr3 (set (x # xs)) (set (found_on (set (x # xs)) (s_db c)))" unfolding all by simp
  show ?case unfolding n
    by (intro exI [of _ t] exI [of _ gr3] conjI g)
      (simp add: with_graph_exchange with_store_exchange two_stores x' fs(1) gr2(1) gr3(1))
qed

section \<open>The whole request\<close>

lemma found_on_all:
  assumes "refs_ok d" and "set xs = set (assets d)"
  shows "found_on (set xs) d = findings d"
  using assms by (auto simp: found_on_def refs_ok_def at.has_key_def filter_id_conv image_iff)

text \<open>C13: The synchronisation makes the graph a projection of the database: when the database satisfies its
  invariant and the statements succeed, the answer is 200 with the number of assets and of findings; the nodes of
  the graph are those of before and one for every row, carrying the values of the row, with one relationship from
  the asset of a finding to the finding; nothing else of the graph and no row of the database changes.\<close>

theorem graph_sync_projects:
  assumes "api_graph a = Some g" and "all_well a g" and "db_inv (api_store a) (s_db c)"
    and "listable (api_store a) (set (assets (s_db c)))"
  shows "\<exists>t gr. graphSync a ps r (w, kc, c, l) =
      (writeJSON 200 (j_map [(''assets'', j_int (int (length (assets (s_db c))))),
         (''vulnerabilities'', j_int (int (length (findings (s_db c)))))]) w,
       kc, c\<lparr>s_db := (s_db c)\<lparr>tick := t\<rparr>, s_graph := gr\<rparr>, l) \<and>
    others gr = others (s_graph c) \<and>
    asset_nodes gr = asset_nodes (s_graph c) \<union> a_ID ` set (assets (s_db c)) \<and>
    vuln_nodes gr = vuln_nodes (s_graph c) \<union> f_ID ` set (findings (s_db c)) \<and>
    set (has_vuln gr) = set (has_vuln (s_graph c)) \<union> (\<lambda>f. (f_AssetID f, f_ID f)) ` set (findings (s_db c)) \<and>
    (graph_ok (s_graph c) \<longrightarrow> graph_ok gr \<and>
       list_all (shows_asset gr) (assets (s_db c)) \<and> list_all (shows_finding gr) (findings (s_db c)))"
proof -
  let ?xs = "order_desc a_CreatedAt (assets (s_db c))"
  let ?d = "(s_db c)\<lparr>tick := Suc (tick (s_db c))\<rparr>"
  have inv: "refs_ok (s_db c)" "distinct (map a_ID (assets (s_db c)))" "distinct (map f_ID (findings (s_db c)))"
    using assms(3) by (simp_all add: db_inv_def at.keys_distinct_def ft.keys_distinct_def)
  have len: "length ?xs = length (assets (s_db c))" by (metis order_desc_mset size_mset)
  have "mset (map a_ID ?xs) = mset (map a_ID (assets (s_db c)))" by simp
  then have xs: "distinct (map a_ID ?xs)" using inv(2) by (metis mset_eq_imp_distinct_iff)
  have all: "found_on (set ?xs) (s_db c) = findings (s_db c)" by (rule found_on_all [OF inv(1)]) simp
  have list: "with_store (ListAssets (api_store a)) (w, kc, c, l) = (Inr ?xs, w, kc, c\<lparr>s_db := ?d\<rparr>, l)"
    using assms(2) by (simp add: with_store_exchange ListAssets_def call_def all_well_def)
  have "\<exists>t gr. sync_assets a g ?xs 0 0 (w, kc, c\<lparr>s_db := ?d\<rparr>, l) =
      (Inr (0 + int (length ?xs), 0 + int (length (found_on (set ?xs) (s_db (c\<lparr>s_db := ?d\<rparr>))))), w, kc,
       (c\<lparr>s_db := ?d\<rparr>)\<lparr>s_db := (s_db (c\<lparr>s_db := ?d\<rparr>))\<lparr>tick := t\<rparr>, s_graph := gr\<rparr>, l) \<and>
    gains (s_graph (c\<lparr>s_db := ?d\<rparr>)) gr (set ?xs) (set (found_on (set ?xs) (s_db (c\<lparr>s_db := ?d\<rparr>))))"
    by (rule sync_assets_gains) (use assms(2,4) xs inv(3) in simp_all)
  then obtain t gr where h: "sync_assets a g ?xs 0 0 (w, kc, c\<lparr>s_db := ?d\<rparr>, l) =
      (Inr (int (length (assets (s_db c))), int (length (findings (s_db c)))), w, kc, c\<lparr>s_db := (s_db c)\<lparr>tick := t\<rparr>, s_graph := gr\<rparr>, l)"
    and gr: "gains (s_graph c) gr (set (assets (s_db c))) (set (findings (s_db c)))"
    by (simp add: all [simplified] len) blast
  have "graphSync a ps r (w, kc, c, l) =
      (writeJSON 200 (j_map [(''assets'', j_int (int (length (assets (s_db c))))),
         (''vulnerabilities'', j_int (int (length (findings (s_db c)))))]) w,
       kc, c\<lparr>s_db := (s_db c)\<lparr>tick := t\<rparr>, s_graph := gr\<rparr>, l)"
    using assms(1) by (simp add: graphSync_def with_graph_enabled_def list h reply_def)
  then show ?thesis
    using gains_sets [OF gr] gains_ok [OF gr] gains_shows [OF gr]
    by (intro exI [of _ t] exI [of _ gr]) (simp add: list_all_iff)
qed

definition shown_db :: db where
  "shown_db = snd (CreateFinding sample_store (Finding_zero\<lparr>f_ScanJobID := ''1'', f_AssetID := ''0'', f_Title := ''x''\<rparr>)
     (snd (CreateScanJob sample_store \<lparr>j_ID = [], j_AssetID = ''0'', j_Profile = ProfileQuick, j_Scanners = [], j_Status = [], j_Error = [],
        j_UsedMock = False, j_CreatedAt = 0, j_StartedAt = None, j_FinishedAt = None\<rparr>
       (snd (CreateAsset sample_store demo_asset db_empty)))))"

lemma shown_rows:
  "map a_ID (assets shown_db) = [''0'']" "map f_ID (findings shown_db) = [''2'']" "map f_AssetID (findings shown_db) = [''0'']"
  by code_simp+

theorem graph_sync_projects_witness:
  "\<exists>w s'. graphSync mesh_api (\<lambda>_. []) (demo_request []) (new_writer, no_keys, sample_core\<lparr>s_db := shown_db\<rparr>, sample_local) = (w, s') \<and>
     asset_nodes (s_graph (fst (snd s'))) = {''0''} \<and> set (has_vuln (s_graph (fst (snd s')))) = {(''0'', ''2'')}"
proof -
  have g: "api_graph mesh_api = Some (sample_graph_env [])" by (simp add: mesh_api_def)
  have w: "all_well mesh_api (sample_graph_env [])"
    by (simp add: all_well_def mesh_api_def sample_store_def sample_graph_env_def)
  have i: "db_inv (api_store mesh_api) (s_db (sample_core\<lparr>s_db := shown_db\<rparr>))"
    by (simp add: shown_db_def mesh_api_def) (intro inv_intros db_empty_inv)
  have a: "a_ID ` set (assets shown_db) = {''0''}" using shown_rows(1) by (metis list.set_map list.simps(15) empty_set)
  have "(\<lambda>f. (f_AssetID f, f_ID f)) ` set (findings shown_db) = set (zip (map f_AssetID (findings shown_db)) (map f_ID (findings shown_db)))"
    by (simp add: zip_map_map zip_same_conv_map)
  then have f: "(\<lambda>f. (f_AssetID f, f_ID f)) ` set (findings shown_db) = {(''0'', ''2'')}" by (simp add: shown_rows)
  have "a_ID x = ''0''" if "x \<in> set (assets shown_db)" for x using a that by blast
  then have l: "listable (api_store mesh_api) (set (assets (s_db (sample_core\<lparr>s_db := shown_db\<rparr>))))"
    by (simp add: listable_def mesh_api_def sample_store_def demo_env_def)
  let ?c = "sample_core\<lparr>s_db := shown_db\<rparr>"
  have sg: "s_graph (c\<lparr>s_graph := gr\<rparr>) = gr" for c gr by simp
  have "\<exists>w s'. graphSync mesh_api (\<lambda>_. []) (demo_request []) (new_writer, no_keys, ?c, sample_local) = (w, s') \<and>
      asset_nodes (s_graph (fst (snd s'))) = asset_nodes (s_graph ?c) \<union> a_ID ` set (assets (s_db ?c)) \<and>
      set (has_vuln (s_graph (fst (snd s')))) = set (has_vuln (s_graph ?c)) \<union> (\<lambda>f. (f_AssetID f, f_ID f)) ` set (findings (s_db ?c))"
    using graph_sync_projects [OF g w i l, of "\<lambda>_. []" "demo_request []" new_writer no_keys sample_local]
    by (elim exE conjE) (intro exI conjI, assumption, simp_all only: fst_conv snd_conv sg)
  moreover have "s_db ?c = shown_db" "s_graph ?c = graph_empty" by (simp_all add: sample_core_def)
  ultimately show ?thesis unfolding a f by (simp only: a f) (simp add: graph_empty_def)
qed

end
