(* ===== verification/Go_Decimal.thy ===== *)
theory Go_Decimal
  imports Go_Encode
begin

text \<open>
  The numbers and the values that \<open>Go_Encode\<close> writes are JSON: a float is written as a number literal, and so
  every value the program encodes reads back, its texts made valid UTF-8.
\<close>

section \<open>The decimal exponent\<close>

lemma show_nat_bounds:
  "n < 10 ^ length (show_nat n)" "0 < n \<Longrightarrow> 10 ^ (length (show_nat n) - 1) \<le> n"
proof -
  have "n < 10 ^ length (show_nat n) \<and> (0 < n \<longrightarrow> 10 ^ (length (show_nat n) - 1) \<le> n)"
  proof (induction n rule: show_nat.induct)
    case (1 n)
    show ?case
    proof (cases "n < 10")
      case True
      then show ?thesis by (simp add: show_nat.simps)
    next
      case False
      then have s: "show_nat n = show_nat (n div 10) @ [digit_char (n mod 10)]" by (subst show_nat.simps) simp
      obtain k where k: "length (show_nat (n div 10)) = Suc k" by (cases "show_nat (n div 10)") auto
      have "n div 10 < 10 ^ Suc k" "10 ^ k \<le> n div 10" using 1 False k by auto
      then have "n < 10 * 10 ^ Suc k" "10 * 10 ^ k \<le> n" by linarith+
      then show ?thesis by (simp add: s k)
    qed
  qed
  then show "n < 10 ^ length (show_nat n)" "0 < n \<Longrightarrow> 10 ^ (length (show_nat n) - 1) \<le> n" by simp_all
qed

lemma dec_exp_bounds:
  assumes "0 < q"
  shows "10 powi (dec_exp q - 1) \<le> q" and "q < 10 powi (dec_exp q)"
proof -
  obtain n d where nd: "quotient_of q = (n, d)" by (cases "quotient_of q")
  have d: "0 < d" and q: "q = of_int n / of_int d" using quotient_of_denom_pos [OF nd] quotient_of_div [OF nd] by auto
  have n: "0 < n" using assms d by (simp add: q zero_less_divide_iff)
  define i j where "i = length (show_nat (nat n))" and "j = length (show_nat (nat d))"
  define N D :: rat where "N = of_int n" and "D = of_int d"
  have pos: "0 < i" "0 < j" by (simp_all add: i_def j_def)
  have "nat n < 10 ^ i" "10 ^ (i - 1) \<le> nat n" "nat d < 10 ^ j" "10 ^ (j - 1) \<le> nat d"
    using show_nat_bounds [of "nat n"] show_nat_bounds [of "nat d"] n d by (simp_all add: i_def j_def)
  then have "of_nat (nat n) < (of_nat (10 ^ i) :: rat)" "of_nat (10 ^ (i - 1)) \<le> (of_nat (nat n) :: rat)"
      "of_nat (nat d) < (of_nat (10 ^ j) :: rat)" "of_nat (10 ^ (j - 1)) \<le> (of_nat (nat d) :: rat)"
    by (simp_all only: of_nat_less_iff of_nat_le_iff)
  then have b: "N < 10 ^ i" "10 ^ (i - 1) \<le> N" "D < 10 ^ j" "10 ^ (j - 1) \<le> D"
    using n d by (simp_all add: N_def D_def)
  have D: "0 < D" "0 \<le> N" using d n by (simp_all add: D_def N_def)
  let ?e = "int i - int j"
  have p: "(10::rat) powi (int i - int j) = 10 ^ i / 10 ^ j" by (simp add: power_int_diff)
  have s: "(10::rat) ^ i = 10 * 10 ^ (i - 1)" "(10::rat) ^ j = 10 * 10 ^ (j - 1)" using pos by (cases i; simp; cases j; simp)+
  have p1: "(10::rat) powi (?e + 1) = 10 * (10 ^ i / 10 ^ j)" using power_int_add [of "10::rat" ?e 1] by (simp add: p)
  have p2: "(10::rat) powi (?e - 1) = 10 ^ i / 10 ^ j / 10" using power_int_diff [of "10::rat" ?e 1] by (simp add: p)
  have up: "q < 10 powi (?e + 1)"
  proof -
    have "N * 10 ^ j < 10 ^ i * (10 * D)" using b D s(2) by (intro mult_less_le_imp_less) auto
    then show ?thesis using D unfolding p1 by (simp add: q N_def [symmetric] D_def [symmetric] field_simps)
  qed
  have low: "10 powi (?e - 1) \<le> q"
  proof -
    have "10 ^ i * D \<le> (10 * N) * 10 ^ j" using b D s(1) by (intro mult_mono) auto
    then show ?thesis using D unfolding p2 by (simp add: q N_def [symmetric] D_def [symmetric] field_simps)
  qed
  have e: "dec_exp q = (if 10 powi ?e \<le> q then ?e + 1 else ?e)" by (simp add: dec_exp_def nd i_def j_def)
  show "10 powi (dec_exp q - 1) \<le> q" "q < 10 powi (dec_exp q)"
    using up low by (auto simp: e)
qed

section \<open>The digits\<close>

lemma digit_candidates_pos:
  assumes "0 < q" and "0 < n" and "m \<in> set (digit_candidates q n)"
  shows "0 < m"
proof -
  have "(10::rat) powi (dec_exp q - int n) \<le> 10 powi (dec_exp q - 1)" using assms(2) by (intro power_int_increasing) auto
  then have "10 powi (dec_exp q - int n) \<le> q" using dec_exp_bounds(1) [OF assms(1)] by linarith
  then have "1 \<le> q / 10 powi (dec_exp q - int n)" by (simp add: pos_le_divide_eq zero_less_power_int)
  then have "1 \<le> \<lfloor>q / 10 powi (dec_exp q - int n)\<rfloor>" by (simp add: le_floor_iff)
  then have "0 < nat \<lfloor>q / 10 powi (dec_exp q - int n)\<rfloor>" by simp
  then show ?thesis using assms(3) by (auto simp: digit_candidates_def Let_def split: if_splits)
qed

lemma shortest_from_pos: "0 < q \<Longrightarrow> 0 < n \<Longrightarrow> 0 < fst (shortest_from f n q)"
proof (induction f arbitrary: n)
  case 0
  then have "hd (digit_candidates q n) \<in> set (digit_candidates q n)" by (auto simp: digit_candidates_def Let_def)
  with digit_candidates_pos [OF 0] show ?case by simp
next
  case (Suc f)
  then show ?case using digit_candidates_pos [OF Suc.prems] by (auto split: option.split dest: find_SomeD)
qed

text \<open>Significant digits: at least one, and none of them a leading zero.\<close>

definition significant :: "string \<Rightarrow> bool" where
  "significant ds \<longleftrightarrow> ds \<noteq> [] \<and> list_all is_digit ds \<and> (hd ds = CHR ''0'' \<longrightarrow> length ds = 1)"

lemma shortest_significant:
  assumes "0 \<le> q" and "shortest q = (ds, p)"
  shows "significant ds" and "hd ds = CHR ''0'' \<Longrightarrow> p = 1"
proof -
  have "significant ds \<and> (hd ds = CHR ''0'' \<longrightarrow> p = 1)"
  proof (cases "q = 0")
    case True
    then show ?thesis using assms(2) by (auto simp: shortest_def significant_def is_digit_def)
  next
    case False
    obtain m e where m: "shortest_from 16 1 q = (m, e)" by (cases "shortest_from 16 1 q")
    then have "0 < m" using shortest_from_pos [of q 1 16] assms(1) False by simp
    then have h: "hd (show_nat m) \<noteq> CHR ''0''" using show_nat_hd_zero by blast
    have ds: "ds = trim_right_char (CHR ''0'') (show_nat m)" using assms(2) False by (simp add: shortest_def m [unfolded One_nat_def] Let_def)
    obtain k where k: "show_nat m = ds @ replicate k (CHR ''0'')" using trim_right_char_decomp ds by metis
    have "ds \<noteq> []"
    proof
      assume "ds = []"
      then have "show_nat m = replicate k (CHR ''0'')" "k \<noteq> 0" using k show_nat_nonempty [of m] by auto
      then show False using h by (cases k) auto
    qed
    moreover have "list_all is_digit ds" using show_nat_digits [of m] unfolding k by simp
    moreover have "hd ds \<noteq> CHR ''0''" using h k \<open>ds \<noteq> []\<close> by simp
    ultimately show ?thesis by (simp add: significant_def)
  qed
  then show "significant ds" "hd ds = CHR ''0'' \<Longrightarrow> p = 1" by simp_all
qed

section \<open>Number literals\<close>

text \<open>A literal from its parts: an integer, a fraction and an exponent, the last two optional.\<close>

definition fraction :: "string \<Rightarrow> bool" where
  "fraction f \<longleftrightarrow> f = [] \<or> (\<exists>ds. f = CHR ''.'' # ds \<and> ds \<noteq> [] \<and> list_all is_digit ds)"

definition exponent :: "string \<Rightarrow> bool" where
  "exponent e \<longleftrightarrow> e = [] \<or> (\<exists>s ds. e = CHR ''e'' # s # ds \<and> s \<in> {CHR ''+'', CHR ''-''} \<and> ds \<noteq> [] \<and> list_all is_digit ds)"

lemma digits_of_stop:
  assumes "list_all is_digit ds" and "r = [] \<or> \<not> is_digit (hd r)"
  shows "digits_of (ds @ r) = (ds, r)"
proof -
  have "takeWhile is_digit r = []" "dropWhile is_digit r = r" using assms(2) by (cases r; simp)+
  then show ?thesis using assms(1) by (induction ds) (auto simp: digits_of_def)
qed

lemma exponent_head: "exponent e \<Longrightarrow> e = [] \<or> hd e = CHR ''e''"
  by (auto simp: exponent_def)

lemma not_digits: "\<not> is_digit (CHR ''.'')" "\<not> is_digit (CHR ''e'')" "\<not> is_digit (CHR ''-'')"
  by (simp_all add: is_digit_def)

lemma number_exp_parts: "exponent e \<Longrightarrow> number_exp e = Some (e, [])"
  using digits_of_stop [of _ "[]"] by (auto simp: exponent_def number_exp_def Let_def)

lemma number_frac_parts:
  assumes "fraction f" and "exponent e"
  shows "number_frac (f @ e) = Some (f, e)"
proof -
  have e: "e = [] \<or> \<not> is_digit (hd e)" using exponent_head [OF assms(2)] not_digits by auto
  have "take 1 e \<noteq> ''.''" using exponent_head [OF assms(2)] by (cases e) auto
  then show ?thesis using assms(1) digits_of_stop [OF _ e] by (auto simp: fraction_def number_frac_def Let_def)
qed

lemma number_int_parts:
  assumes "significant ds" and "fraction f" and "exponent e"
  shows "number_int (ds @ f @ e) = Some (ds, f @ e)"
proof -
  have r: "f @ e = [] \<or> \<not> is_digit (hd (f @ e))"
    using exponent_head [OF assms(3)] not_digits assms(2) by (auto simp: fraction_def)
  have "digits_of (ds @ f @ e) = (ds, f @ e)" using assms(1) by (intro digits_of_stop r) (simp add: significant_def)
  then show ?thesis using assms(1) by (cases ds) (auto simp: number_int_def significant_def)
qed

lemma number_lit_parts:
  assumes "significant ds" and "fraction f" and "exponent e" and "sg = [] \<or> sg = ''-''"
  shows "number_lit (sg @ ds @ f @ e)"
proof -
  obtain c t where ds: "ds = c # t" and "is_digit c" using assms(1) by (cases ds) (auto simp: significant_def)
  then have "c \<noteq> CHR ''-''" using not_digits by auto
  then show ?thesis using assms(4) number_int_parts [OF assms(1-3)] number_frac_parts [OF assms(2,3)] number_exp_parts [OF assms(3)]
    by (auto simp: number_lit_def parse_number_def ds)
qed

lemma significant_digits: "significant ds \<Longrightarrow> list_all is_digit ds" "significant ds \<Longrightarrow> ds \<noteq> []"
  by (simp_all add: significant_def)

lemma zero_digit: "is_digit (CHR ''0'')"
  by (simp add: is_digit_def)

lemma zeros_digits: "list_all is_digit (replicate k (CHR ''0''))"
  by (simp add: list_all_iff zero_digit)

lemma fixed_point_parts:
  assumes "significant ds" and "hd ds = CHR ''0'' \<Longrightarrow> p = 1"
  shows "\<exists>i f. fixed_point ds p = i @ f @ [] \<and> significant i \<and> fraction f"
proof -
  note d = significant_digits [OF assms(1)]
  consider "p \<le> 0" | "0 < p" "int (length ds) \<le> p" | "0 < p" "p < int (length ds)" by linarith
  then show ?thesis
  proof cases
    case 1
    then show ?thesis using d zeros_digits
      by (intro exI [of _ "''0''"] exI [of _ "CHR ''.'' # replicate (nat (- p)) (CHR ''0'') @ ds"])
        (simp add: fixed_point_def significant_def fraction_def is_digit_def)
  next
    case 2
    let ?i = "ds @ replicate (nat p - length ds) (CHR ''0'')"
    have "hd ds = CHR ''0'' \<longrightarrow> length ?i = 1" using assms by (auto simp: significant_def)
    then have "significant ?i" using d zeros_digits unfolding significant_def by (metis append_is_Nil_conv hd_append2 list_all_append)
    moreover have "fixed_point ds p = ?i @ [] @ []" using 2 by (simp add: fixed_point_def)
    moreover have "fraction []" by (simp add: fraction_def)
    ultimately show ?thesis by metis
  next
    case 3
    then have "hd ds \<noteq> CHR ''0''" using assms by (auto simp: significant_def)
    moreover have "hd (take (nat p) ds) = hd ds" using 3 by (cases ds; cases "nat p") auto
    moreover have "list_all is_digit (take (nat p) ds)" "list_all is_digit (drop (nat p) ds)"
      using d(1) by (auto simp: list_all_iff dest: in_set_takeD in_set_dropD)
    ultimately show ?thesis using 3 d(2)
      by (intro exI [of _ "take (nat p) ds"] exI [of _ "CHR ''.'' # drop (nat p) ds"])
        (simp add: fixed_point_def significant_def fraction_def zero_digit)
  qed
qed

lemma pad_two:
  "list_all is_digit (pad_nat 2 k)" "pad_nat 2 k \<noteq> []"
  "k < 10 \<Longrightarrow> \<exists>c. pad_nat 2 k = [CHR ''0'', c] \<and> is_digit c"
  using show_nat_digits [of k] zeros_digits [of "2 - length (show_nat k)"]
  by (auto simp: pad_nat_def show_nat.simps digit_char_props)

definition sci_parts :: "string \<Rightarrow> bool" where
  "sci_parts s \<longleftrightarrow> (\<exists>i f e. s = i @ f @ e \<and> significant i \<and> fraction f \<and> exponent e)"

lemma sci_partsI: "significant i \<Longrightarrow> fraction f \<Longrightarrow> exponent e \<Longrightarrow> sci_parts (i @ f @ e)"
  unfolding sci_parts_def by blast

lemma scientific_parts:
  assumes "significant ds"
  shows "sci_parts (scientific ds p)"
    and "- 9 \<le> p - 1 \<Longrightarrow> p - 1 < 0 \<Longrightarrow> sci_parts (take (length (scientific ds p) - 2) (scientific ds p) @ [last (scientific ds p)])"
proof -
  note d = significant_digits [OF assms]
  let ?i = "take 1 ds" and ?f = "if length ds \<le> 1 then [] else CHR ''.'' # drop 1 ds"
  let ?s = "if p - 1 < 0 then CHR ''-'' else CHR ''+''"
  have s: "scientific ds p = ?i @ ?f @ CHR ''e'' # ?s # pad_nat 2 (nat \<bar>p - 1\<bar>)"
    by (simp add: scientific_def Let_def)
  have i: "significant ?i" using assms by (cases ds) (auto simp: significant_def)
  have f: "fraction ?f" using d by (cases ds) (auto simp: fraction_def)
  have e: "exponent (CHR ''e'' # ?s # r)" if "r \<noteq> []" "list_all is_digit r" for r using that by (auto simp: exponent_def)
  show "sci_parts (scientific ds p)" unfolding s by (intro sci_partsI i f e pad_two)
  assume "- 9 \<le> p - 1" "p - 1 < 0"
  then have "nat \<bar>p - 1\<bar> < 10" by linarith
  then obtain c where c: "pad_nat 2 (nat \<bar>p - 1\<bar>) = [CHR ''0'', c]" "is_digit c" using pad_two(3) by blast
  have eq: "take (length (scientific ds p) - 2) (scientific ds p) @ [last (scientific ds p)] = ?i @ ?f @ CHR ''e'' # ?s # [c]"
    by (simp add: s c)
  show "sci_parts (take (length (scientific ds p) - 2) (scientific ds p) @ [last (scientific ds p)])"
    unfolding eq by (intro sci_partsI i f e) (simp_all add: c)
qed

theorem j_float_literal: "j_float x = Some v \<Longrightarrow> \<exists>t. v = JNum t \<and> number_lit t"
proof (cases x)
  case (Fin q)
  obtain ds p where s: "shortest \<bar>q\<bar> = (ds, p)" by (cases "shortest \<bar>q\<bar>")
  have d: "significant ds" "hd ds = CHR ''0'' \<Longrightarrow> p = 1" using shortest_significant [OF _ s] by simp_all
  have "exponent []" by (simp add: exponent_def)
  then have f: "sci_parts (fixed_point ds p)" using fixed_point_parts [OF d] sci_partsI by metis
  have lit: "number_lit ((if q < 0 then ''-'' else []) @ t)" if "sci_parts t" for t
  proof -
    obtain i f e where t: "t = i @ f @ e" "significant i" "fraction f" "exponent e" using \<open>sci_parts t\<close> unfolding sci_parts_def by blast
    show ?thesis unfolding t(1) by (rule number_lit_parts [OF t(2-4)]) simp
  qed
  show "j_float x = Some v \<Longrightarrow> \<exists>t. v = JNum t \<and> number_lit t"
    using lit [OF f] lit [OF scientific_parts(1) [OF d(1), of p]] lit [OF scientific_parts(2) [OF d(1), of p]]
    by (auto simp: Fin s Let_def split: if_splits)
qed auto

end
