(* ===== verification/Api_Answers.thy ===== *)
theory Api_Answers
  imports Go_Decimal Api_Refusals
begin

text \<open>
  The types of the answers: what a handler of the API writes is a JSON document with the content type of one, and an
  error is an object with one text; only the report is CSV.
\<close>

section \<open>Values that JSON has a form for\<close>

definition fits :: "json option \<Rightarrow> bool" where
  "fits v \<longleftrightarrow> (case v of None \<Rightarrow> True | Some j \<Rightarrow> writable j)"

definition fit_members :: "member \<Rightarrow> bool" where
  "fit_members m \<longleftrightarrow> list_all (\<lambda>(k, v). fits v) m"

lemma fits_basic [simp]: "fits (j_str s)" "fits (j_bool b)" "fits (j_int n)" "fits (Some JNull)" "fits None"
  by (simp_all add: fits_def number_lit_itoa)

lemma fits_float [simp]: "fits (j_float x)"
  using j_float_literal [of x] by (cases "j_float x") (auto simp: fits_def)

lemma fits_time [simp]: "fits (j_time t)"
  by (simp add: j_time_def Let_def split: prod.split)

lemma writables_iff: "writables vs \<longleftrightarrow> (\<forall>v \<in> set vs. writable v)"
  by (induction vs) auto

lemma members_writable_iff: "members_writable ms \<longleftrightarrow> (\<forall>(k, v) \<in> set ms. writable v)"
  by (induction ms) auto

lemma those_Some: "those vs = Some ws \<Longrightarrow> set vs = Some ` set ws"
  by (induction vs arbitrary: ws) (auto split: option.splits)

lemma fits_list [simp]:
  assumes "\<And>x. fits (f x)"
  shows "fits (j_list f xs)" and "fits (j_slice f xs)"
proof -
  have "writable v" if "those (map f xs) = Some vs" "v \<in> set vs" for v vs
  proof -
    have "Some v \<in> f ` set xs" using those_Some [OF that(1)] that(2) by auto
    then obtain x where "f x = Some v" by (metis imageE)
    then show ?thesis using assms [of x] by (simp add: fits_def)
  qed
  then show "fits (j_list f xs)" by (auto simp: fits_def j_list_def writables_iff split: option.split)
  then show "fits (j_slice f xs)" by (simp add: j_slice_def)
qed

lemma fits_obj [simp]:
  assumes "list_all fit_members ms"
  shows "fits (j_obj ms)"
proof -
  have "writable v" if "those (map (\<lambda>(k, v). map_option (Pair k) v) (concat ms)) = Some kvs" "(k, v) \<in> set kvs" for k v kvs
  proof -
    have "Some (k, v) \<in> (\<lambda>(k, v). map_option (Pair k) v) ` set (concat ms)" using those_Some [OF that(1)] that(2) by auto
    then obtain p where p: "p \<in> set (concat ms)" "(\<lambda>(k, v). map_option (Pair k) v) p = Some (k, v)" by (metis imageE)
    have "p = (k, Some v)" using p(2) by (auto split: prod.splits)
    with p(1) obtain m where m: "m \<in> set ms" "(k, Some v) \<in> set m" by auto
    with m(1) show ?thesis using assms by (fastforce simp: fit_members_def fits_def list_all_iff)
  qed
  then show ?thesis by (auto simp: fits_def j_obj_def members_writable_iff split: option.split)
qed

lemma fit_members_simps [simp]:
  "fit_members (fld k v) = fits v" "fits v \<Longrightarrow> fit_members (opt_fld b k v)" "fit_members (str_fld k s)" "fit_members []"
  by (simp_all add: fit_members_def fld_def opt_fld_def str_fld_def)

lemma fits_map [simp]: "fit_members kvs \<Longrightarrow> fits (j_map kvs)"
  unfolding j_map_def by (rule fits_obj) (simp add: fit_members_def list_all_iff)

lemma fit_members_Cons [simp]: "fit_members ((k, v) # m) \<longleftrightarrow> fits v \<and> fit_members m"
  by (simp add: fit_members_def)

lemma fit_members_option [simp]: "(\<And>x. fits (f x)) \<Longrightarrow> fit_members (case o' of None \<Rightarrow> [] | Some x \<Rightarrow> fld k (f x))"
  by (simp split: option.split)

lemma fits_data [simp]:
  "fits (asset_json v1)" "fits (job_json b v2)" "fits (ref_json v3)" "fits (guide_json v4)" "fits (entry_json v6)"
  "fits (account_json v7)" "fits (hop_json v8)" "fits (step_json v10)" "fits (node_json v11)" "fits (export_node_json v13)"
  "fits (export_edge_json v14)"
  by (simp_all add: asset_json_def job_json_def ref_json_def guide_json_def entry_json_def account_json_def hop_json_def
      step_json_def node_json_def export_node_json_def export_edge_json_def)

lemma fits_compound [simp]: "fits (finding_json v5)" "fits (path_json v9)" "fits (privesc_json v12)"
  by (simp_all add: finding_json_def path_json_def privesc_json_def)

section \<open>Answers\<close>

definition content_type :: "Writer \<Rightarrow> string" where
  "content_type w = get_first (w_headers w) ''Content-Type''"

definition error_document :: "string \<Rightarrow> bool" where
  "error_document b \<longleftrightarrow> (\<exists>t. parse_json b = Some (JObj [(''error'', JStr t)]))"

text \<open>A value without a form in JSON (a number that is not finite, a year beyond 9999) leaves the body empty.\<close>

definition typed :: "bool \<Rightarrow> Writer \<Rightarrow> bool" where
  "typed report w \<longleftrightarrow>
     (if 400 \<le> status_of w then content_type w = ''application/json'' \<and> error_document (w_body w)
      else content_type w = ''application/json'' \<and> (w_body w = [] \<or> parse_json (w_body w) \<noteq> None) \<or>
           report \<and> content_type w = ''text/csv; charset=utf-8'')"

definition untouched :: "Writer \<Rightarrow> bool" where
  "untouched w \<longleftrightarrow> w_code w = None \<and> w_body w = []"

definition speaks :: "bool \<Rightarrow> exchange \<Rightarrow> exchange \<Rightarrow> bool" where
  "speaks rp x y \<longleftrightarrow> (untouched (fst x) \<longrightarrow> typed rp (fst y))"

named_theorems speaks_intros \<open>handlers whose answers are documents\<close>

lemma writeJSON_untouched:
  assumes "untouched w"
  shows "status_of (writeJSON c v w) = c" and "content_type (writeJSON c v w) = ''application/json''"
    and "w_body (writeJSON c v w) = (case v of None \<Rightarrow> [] | Some j \<Rightarrow> enc j @ [CHR 0x0A])"
proof -
  have "map_of (filter (\<lambda>(k', _). k' \<noteq> k) xs @ [(k, v)]) k = Some v" for k v and xs :: "(string \<times> string) list"
    by (induction xs) auto
  then show "content_type (writeJSON c v w) = ''application/json''"
    using assms by (simp add: writeJSON_def writer_defs untouched_def content_type_def get_first_def split: option.split)
qed (use assms in \<open>simp_all add: writeJSON_def writer_defs status_of_def untouched_def split: option.split\<close>)

lemma speaks_document [speaks_intros]: "c < 400 \<Longrightarrow> fits v \<Longrightarrow> speaks rp x (reply (writeJSON c v) x)"
  by (auto simp: speaks_def typed_def reply_def writeJSON_untouched parse_enc_line fits_def split: option.split)

lemma error_text: "utf8_fix ''error'' = ''error''"
  by (rule utf8_fix_ascii) (auto simp: byte_simps)

lemma speaks_problem: "400 \<le> c \<Longrightarrow> speaks rp x (reply (writeJSON c (j_map [(''error'', j_str t)])) x)"
proof -
  let ?d = "JObj [(''error'', JStr t)]"
  have "error_document (enc ?d @ [CHR 0x0A])"
    unfolding error_document_def using parse_enc_line [of ?d] by (simp add: error_text del: enc.simps enc_members.simps)
  moreover have "j_map [(''error'', j_str t)] = Some ?d" by (simp add: j_map_def j_obj_def)
  ultimately show "400 \<le> c \<Longrightarrow> ?thesis"
    by (simp add: speaks_def typed_def reply_def writeJSON_untouched del: enc.simps)
qed

lemma speaks_error [speaks_intros]:
  "speaks rp x (reply (badRequest t) x)" "speaks rp x (reply (serverError t) x)" "speaks rp x (reply graphDisabled x)"
  "speaks rp x (reply accounts_missing x)" "speaks rp x (storeError a e x)" "speaks rp x (notFoundOrError a e x)"
  unfolding badRequest_def serverError_def graphDisabled_def accounts_missing_def storeError_def notFoundOrError_def
  by (simp_all add: speaks_problem)

lemma speaks_if [speaks_intros]: "speaks rp x y \<Longrightarrow> speaks rp x z \<Longrightarrow> speaks rp x (if b then y else z)"
  by simp

lemma speaks_decode [speaks_intros]:
  "(\<And>i. speaks rp x (A i)) \<Longrightarrow> (\<And>i. speaks rp x (B i)) \<Longrightarrow> speaks rp x (case p of (i, True) \<Rightarrow> A i | (i, False) \<Rightarrow> B i)"
  by (auto split: prod.split bool.split)

lemma speaks_enabled [speaks_intros]:
  "(\<And>g y. api_graph a = Some g \<Longrightarrow> speaks rp y (h g y)) \<Longrightarrow> speaks rp x (with_graph_enabled a h x)"
  by (auto simp: with_graph_enabled_def split: option.split intro: speaks_error)

lemma speaks_call:
  assumes "fst (snd c) = fst x" and "\<And>e y. speaks rp y (A e y)" and "\<And>v y. speaks rp y (B v y)"
  shows "speaks rp x (case c of (Inl e, y) \<Rightarrow> A e y | (Inr v, y) \<Rightarrow> B v y)"
  using assms unfolding speaks_def by (cases c; cases "fst c") auto

lemmas speaks_calls [speaks_intros] =
  speaks_call [OF call_writer(1)] speaks_call [OF call_writer(2)] speaks_call [OF call_writer(3)]

lemma speaks_pair:
  assumes "fst (snd c) = fst x" and "\<And>e y. speaks rp y (A e y)" and "\<And>u v y. speaks rp y (B u v y)"
  shows "speaks rp x (case c of (Inl e, y) \<Rightarrow> A e y | (Inr (u, v), y) \<Rightarrow> B u v y)"
proof -
  have "speaks rp x (case c of (Inl e, y) \<Rightarrow> A e y | (Inr p, y) \<Rightarrow> (case p of (u, v) \<Rightarrow> B u v y))"
    by (rule speaks_call) (use assms in \<open>auto split: prod.split\<close>)
  then show ?thesis by (simp cong: sum.case_cong)
qed

lemma speaks_page [speaks_intros]:
  assumes "\<And>page. fits (v page)"
  shows "speaks rp x (case paginate r rows (fst x) of (page, w) \<Rightarrow> (writeJSON 200 (v page) w, snd x))"
proof -
  obtain page w where p: "paginate r rows (fst x) = (page, w)" by (cases "paginate r rows (fst x)")
  then have "w = header_set ''X-Total-Count'' (itoa (int (length rows))) (fst x)"
    by (auto simp: paginate_def Let_def split: prod.splits if_splits)
  then have "untouched (fst x) \<Longrightarrow> untouched w" by (simp add: untouched_def header_set_def)
  then show ?thesis using speaks_document [of 200 "v page" rp "(w, snd x)"] assms by (simp add: p speaks_def reply_def)
qed

section \<open>Handlers\<close>

lemma exportFindings_speaks: "speaks True x (exportFindings a ps r x)"
  unfolding exportFindings_def
proof (rule speaks_calls)
  have csv: "map_of (filter (\<lambda>(k', _). k' \<noteq> l) (filter (\<lambda>(k', _). k' \<noteq> k) xs @ [(k, v)]) @ [(l, u)]) k = Some v"
    if "k \<noteq> l" for k l v u and xs :: "(string \<times> string) list"
    using that by (induction xs) auto
  show "speaks True y (reply (\<lambda>w. let w = header_set ''Content-Type'' ''text/csv; charset=utf-8'' w;
      w = header_set ''Content-Disposition'' ''attachment; filename=\"amankan-findings.csv\"'' w
    in write_body (b y) w) y)" for y b
    using csv [of "''Content-Type''" "''Content-Disposition''" "w_headers (fst y)" "''text/csv; charset=utf-8''"]
    by (simp add: speaks_def reply_def typed_def untouched_def writer_defs status_of_def content_type_def get_first_def)
qed (rule speaks_error)

lemma exportGraph_speaks: "speaks rp x (exportGraph a ps r x)"
  unfolding exportGraph_def
proof (rule speaks_enabled)
  fix g y
  obtain e ns es z where e: "with_graph (ExportGraph g) y = ((e, ns, es), z)" by (metis prod_cases3 surj_pair)
  then have z: "fst z = fst y" using call_writer(2) [of "ExportGraph g" y] by simp
  have "fits (j_obj [fld ''nodes'' (j_list export_node_json ns), fld ''edges'' (j_list export_edge_json es)])" by simp
  note d = speaks_document [OF _ this, of 200 rp z] and f = speaks_error(2) [of rp z "the e"]
  show "speaks rp y (case with_graph (ExportGraph g) y of ((Some err, _), x) \<Rightarrow> reply (serverError err) x
       | ((None, nodes, edges), x) \<Rightarrow>
           reply (writeJSON 200 (j_obj [fld ''nodes'' (j_list export_node_json nodes), fld ''edges'' (j_list export_edge_json edges)])) x)"
    using d f z by (cases e) (simp_all add: e speaks_def)
qed

lemma graphSync_speaks: "speaks rp x (graphSync a ps r x)"
  unfolding graphSync_def
proof (rule speaks_enabled, rule speaks_calls)
  fix g y rows z
  assume g: "api_graph a = Some g"
  show "speaks rp z (case sync_assets a g rows 0 0 z of (Inl err, x) \<Rightarrow> reply (serverError err) x
      | (Inr (m, n), x) \<Rightarrow> reply (writeJSON 200 (j_map [(''assets'', j_int m), (''vulnerabilities'', j_int n)])) x)"
    by (rule speaks_pair) (simp_all add: loop_writer [OF g] speaks_error speaks_document)
qed (rule speaks_error)

lemma importTopology_speaks: "speaks rp x (importTopology a ps r x)"
  unfolding importTopology_def
proof (rule speaks_enabled, rule speaks_decode)
  fix g y es
  assume g: "api_graph a = Some g"
  show "speaks rp y (case import_edges a g 0 es 0 [] y of (Inl err, x) \<Rightarrow> reply (serverError err) x
      | (Inr (imported, problems), x) \<Rightarrow>
          reply (writeJSON 200 (j_map [(''imported'', j_int imported), (''problems'', j_slice j_str problems)])) x)"
    by (rule speaks_pair) (simp_all add: loop_writer [OF g] speaks_error speaks_document)
qed (rule speaks_error)

lemma reading_speaks:
  "speaks rp x (listAssets a ps r x)" "speaks rp x (getAsset a ps r x)" "speaks rp x (listScans a ps r x)"
  "speaks rp x (getScan a ps r x)" "speaks rp x (listFindings a ps r x)" "speaks rp x (complianceForCWE a ps r x)"
  "speaks rp x (attackPaths a ps r x)" "speaks rp x (listAccounts a ps r x)" "speaks rp x (privEscPath a ps r x)"
  "speaks rp x (listAudit a ps r x)" "speaks rp x (verifyAudit a ps r x)"
  unfolding listAssets_def getAsset_def listScans_def getScan_def listFindings_def complianceForCWE_def attackPaths_def
    listAccounts_def privEscPath_def listAudit_def verifyAudit_def Let_def
  subgoal by (intro speaks_intros) simp_all
  subgoal by (intro speaks_intros) simp_all
  subgoal by (intro speaks_intros) simp_all
  subgoal by (intro speaks_intros) simp_all
  subgoal by (cases "pageParams r", simp only: prod.case) (intro speaks_intros; simp)
  subgoal by (intro speaks_intros) simp_all
  subgoal by (intro speaks_intros) simp_all
  subgoal by (intro speaks_intros) simp_all
  subgoal by (intro speaks_intros) simp_all
  subgoal by (intro speaks_intros) simp_all
  subgoal by (rule speaks_calls, rule speaks_error) (auto split: prod.split intro!: speaks_document)
  done

lemma writing_speaks:
  "speaks rp x (createAsset a ps r x)" "speaks rp x (startScan a ps r x)" "speaks rp x (updateFindingStatus a ps r x)"
  "speaks rp x (authorizeAsset a ps r x)" "speaks rp x (addReachability a ps r x)" "speaks rp x (createAccount a ps r x)"
  "speaks rp x (addEscalation a ps r x)" "speaks rp x (addCredentialReuse a ps r x)"
  unfolding createAsset_def startScan_def updateFindingStatus_def authorizeAsset_def addReachability_def createAccount_def
    addEscalation_def addCredentialReuse_def Let_def
  subgoal by (intro speaks_intros) simp_all
  subgoal by (intro speaks_intros) simp_all
  subgoal by (intro speaks_intros) simp_all
  subgoal by (intro speaks_intros) simp_all
  subgoal by (intro speaks_intros) simp_all
  subgoal by (intro speaks_intros) simp_all
  subgoal by (intro speaks_intros) simp_all
  subgoal by (intro speaks_intros) simp_all
  done



end
