(* ===== verification/Startup.thy ===== *)
theory Startup
  imports Api_System
begin

text \<open>
  How the two programs start: \<open>cmd/api/main.go\<close> and \<open>cmd/worker/main.go\<close> up to their loops, with
  \<open>internal/db/db.go\<close> and \<open>graph.Connect\<close>, which they call.  What is outside (the environment variables, the
  drivers of the databases, the files and the feeds) is a record of functions.  Log lines, signals and the
  shutdown are left out.
\<close>

section \<open>The outside\<close>

text \<open>
  The result of a call that may fail is the text of its error, if any.  What a database or a queue does later is
  found by its address; a script of the migrations changes the database and may fail.
\<close>

record boot_env =
  getenv :: environ
  pool_new :: "string \<Rightarrow> string option"
  pool_ping :: "string \<Rightarrow> string option"
  migration_dir :: "string + (string \<times> bool) list"
  migration_file :: "string \<Rightarrow> string + string"
  pool_exec :: "string \<Rightarrow> db \<Rightarrow> string option \<times> db"
  redis_up :: "string \<Rightarrow> string \<Rightarrow> string option"
  driver_new :: "string \<Rightarrow> string \<Rightarrow> string \<Rightarrow> string option"
  driver_verify :: "string \<Rightarrow> string option"
  read_path :: "string \<Rightarrow> string + string"
  http_client :: http_get
  json_error :: "string \<Rightarrow> string"
  gzip_reader :: "string \<Rightarrow> string + string"
  store_at :: "string \<Rightarrow> env"
  graph_at :: "string \<Rightarrow> graph_env"
  redis_at :: "string \<Rightarrow> nat \<Rightarrow> bool"
  redis_lost_at :: "string \<Rightarrow> nat \<Rightarrow> nat"
  oidc_at :: oidc_env
  api_at :: api_env
  engine_at :: engine_env

section \<open>The database\<close>

definition Connect_db :: "boot_env \<Rightarrow> string \<Rightarrow> string option" where
  "Connect_db B url =
     (case pool_new B url of
        Some e \<Rightarrow> Some (''open pool: '' @ e)
      | None \<Rightarrow> (case pool_ping B url of Some e \<Rightarrow> Some (''ping: '' @ e) | None \<Rightarrow> None))"

text \<open>The loop over the sorted names.\<close>

fun apply_migrations :: "boot_env \<Rightarrow> string list \<Rightarrow> db \<Rightarrow> string option \<times> db" where
  "apply_migrations B [] d = (None, d)"
| "apply_migrations B (n # ns) d =
     (case migration_file B (''migrations/'' @ n) of
        Inl e \<Rightarrow> (Some e, d)
      | Inr sql \<Rightarrow>
          (case pool_exec B sql d of
             (Some e, d) \<Rightarrow> (Some (''apply '' @ n @ '': '' @ e), d)
           | (None, d) \<Rightarrow> apply_migrations B ns d))"

definition migration_names :: "(string \<times> bool) list \<Rightarrow> string list" where
  "migration_names es = sort (map fst (filter (\<lambda>(n, dir). \<not> dir) es))"

definition Migrate :: "boot_env \<Rightarrow> db \<Rightarrow> string option \<times> db" where
  "Migrate B d =
     (case migration_dir B of Inl e \<Rightarrow> (Some e, d) | Inr es \<Rightarrow> apply_migrations B (migration_names es) d)"

section \<open>The graph\<close>

definition constraint_stmts :: "string list" where
  "constraint_stmts =
     [''CREATE CONSTRAINT asset_id IF NOT EXISTS FOR (a:Asset) REQUIRE a.id IS UNIQUE'',
      ''CREATE CONSTRAINT vuln_id IF NOT EXISTS FOR (v:Vulnerability) REQUIRE v.id IS UNIQUE'',
      ''CREATE CONSTRAINT account_id IF NOT EXISTS FOR (acc:Account) REQUIRE acc.id IS UNIQUE'',
      ''CREATE CONSTRAINT credential_fp IF NOT EXISTS FOR (c:Credential) REQUIRE c.fingerprint IS UNIQUE'']"

text \<open>A constraint changes no node and no relationship.\<close>

fun ensureConstraints :: "graph_env \<Rightarrow> string list \<Rightarrow> graph \<Rightarrow> (string + unit) \<times> graph" where
  "ensureConstraints ge [] g = (Inr (), g)"
| "ensureConstraints ge (s # ss) g =
     (case transaction ge (\<lambda>t g. ((), g)) g of
        (Inl e, g) \<Rightarrow> (Inl e, g)
      | (Inr _, g) \<Rightarrow> ensureConstraints ge ss g)"

definition Connect_graph :: "boot_env \<Rightarrow> string \<Rightarrow> string \<Rightarrow> string \<Rightarrow> graph \<Rightarrow> (string + graph_env) \<times> graph" where
  "Connect_graph B uri user pass g =
     (case driver_new B uri user pass of
        Some e \<Rightarrow> (Inl (''new driver: '' @ e), g)
      | None \<Rightarrow>
          (case driver_verify B uri of
             Some e \<Rightarrow> (Inl (''verify connectivity: '' @ e), g)
           | None \<Rightarrow>
               (case ensureConstraints (graph_at B uri) constraint_stmts g of
                  (Inl e, g) \<Rightarrow> (Inl e, g)
                | (Inr _, g) \<Rightarrow> (Inr (graph_at B uri), g))))"

text \<open>Both programs go on without a graph that cannot be reached.\<close>

definition optional_graph :: "boot_env \<Rightarrow> Config \<Rightarrow> core \<Rightarrow> graph_env option \<times> core" where
  "optional_graph B cfg c =
     (if GraphEnabled cfg
      then (case Connect_graph B (Neo4jURI cfg) (Neo4jUser cfg) (Neo4jPass cfg) (s_graph c) of
              (Inl e, g) \<Rightarrow> (None, c\<lparr>s_graph := g\<rparr>)
            | (Inr ge, g) \<Rightarrow> (Some ge, c\<lparr>s_graph := g\<rparr>))
      else (None, c))"

definition new_queue :: "boot_env \<Rightarrow> Config \<Rightarrow> Queue" where
  "new_queue B cfg = \<lparr>q_key = QueueKey cfg, redis_fault = redis_at B (RedisAddr cfg), redis_lost = redis_lost_at B (RedisAddr cfg)\<rparr>"

section \<open>The API server\<close>

text \<open>The feeds: fetched, else from files, else the embedded set, which also stays when loading fails.\<close>

definition load_feeds :: "boot_env \<Rightarrow> Config \<Rightarrow> Feed" where
  "load_feeds B cfg =
     (if ThreatIntelFetch cfg
      then snd (FetchAndLoad (http_client B) (json_error B) (gzip_reader B) (KEVFeedURL cfg) (EPSSFeedURL cfg) global_feed)
      else if KEVFeedPath cfg \<noteq> [] \<or> EPSSFeedPath cfg \<noteq> []
      then snd (Load (read_path B) (json_error B) (KEVFeedPath cfg) (EPSSFeedPath cfg) global_feed)
      else global_feed)"

text \<open>The verifier starts with an empty key table.\<close>

definition make_provider :: "boot_env \<Rightarrow> Config \<Rightarrow> Provider \<times> key_cache" where
  "make_provider B cfg =
     (case choose_provider cfg of
        UseOIDC issuer audience \<Rightarrow>
          (let (v, kc) = NewOIDCVerifier \<lparr>cfg_Issuer = issuer, cfg_Audience = audience, cfg_JWKSURL = [], cfg_RoleMap = []\<rparr>
           in (Tokens (oidc_at B) v, kc))
      | UseKeys authn warnings \<Rightarrow> (ApiKeys authn, \<lparr>v_keys = [], v_fetched = False, v_tick = 0\<rparr>))"

text \<open>How \<open>main\<close> ends up: refused configuration, fatal error, migrations only, or listening, with TLS or without.\<close>

datatype api_start = Refused "string list" | Fatal string | Migrated | Listening API key_cache string bool

definition start_api :: "boot_env \<Rightarrow> bool \<Rightarrow> core \<Rightarrow> api_start \<times> core" where
  "start_api B migrateOnly c =
     (let cfg = Load_config (getenv B)
      in if Validate cfg \<noteq> [] then (Refused (Validate cfg), c)
         else (case Connect_db B (DatabaseURL cfg) of
             Some e \<Rightarrow> (Fatal (''database: '' @ e), c)
           | None \<Rightarrow>
               (case Migrate B (s_db c) of
                  (Some e, d) \<Rightarrow> (Fatal (''migrate: '' @ e), c\<lparr>s_db := d\<rparr>)
                | (None, d) \<Rightarrow>
                    let c = c\<lparr>s_db := d\<rparr>
                    in if migrateOnly then (Migrated, c)
                       else (case redis_up B (RedisAddr cfg) (RedisPassword cfg) of
                           Some e \<Rightarrow> (Fatal (''redis: '' @ e), c)
                         | None \<Rightarrow>
                             let (g, c) = optional_graph B cfg c;
                                 (provider, kc) = make_provider B cfg
                             in (Listening
                                   (New (store_at B (DatabaseURL cfg)) (new_queue B cfg) g (Some provider)
                                      (CORSOrigins cfg) (cfgRateLimit cfg) ((api_at B)\<lparr>feed := load_feeds B cfg\<rparr>))
                                   kc (HTTPAddr cfg) (TLSCert cfg \<noteq> [] \<and> TLSKey cfg \<noteq> []), c)))))"

section \<open>The worker\<close>

text \<open>
  The worker neither validates its configuration nor migrates nor loads feeds: its findings are flagged by the
  embedded set.
\<close>

datatype worker_start = WorkerFatal string | Working Processor Queue engine_env

definition start_worker :: "boot_env \<Rightarrow> core \<Rightarrow> worker_start \<times> core" where
  "start_worker B c =
     (let cfg = Load_config (getenv B)
      in case Connect_db B (DatabaseURL cfg) of
           Some e \<Rightarrow> (WorkerFatal (''database: '' @ e), c)
         | None \<Rightarrow>
             (case redis_up B (RedisAddr cfg) (RedisPassword cfg) of
                Some e \<Rightarrow> (WorkerFatal (''redis: '' @ e), c)
              | None \<Rightarrow>
                  let (g, c) = optional_graph B cfg c
                  in (Working (NewProcessor (store_at B (DatabaseURL cfg)) g cfg) (new_queue B cfg)
                        ((engine_at B)\<lparr>e_feed := (\<lambda>_. global_feed)\<rparr>), c)))"

section \<open>Migrations\<close>

lemma migration_names_mset: "mset es = mset es' \<Longrightarrow> migration_names es = migration_names es'"
proof -
  assume "mset es = mset es'"
  then have "mset (map fst (filter (\<lambda>(n, dir). \<not> dir) es)) = mset (map fst (filter (\<lambda>(n, dir). \<not> dir) es'))"
    by (metis mset_filter mset_map)
  then show "migration_names es = migration_names es'" unfolding migration_names_def by (intro properties_for_sort) simp_all
qed

text \<open>The scripts of some files have run.\<close>

definition all_done :: "boot_env \<Rightarrow> (string \<Rightarrow> db \<Rightarrow> bool) \<Rightarrow> string list \<Rightarrow> db \<Rightarrow> bool" where
  "all_done B has_run ns d \<longleftrightarrow> (\<forall>n \<in> set ns. \<exists>sql. migration_file B (''migrations/'' @ n) = Inr sql \<and> has_run sql d)"

text \<open>What \<open>IF NOT EXISTS\<close> gives: a script has run when it succeeded, stays so, and then does nothing.\<close>

definition idempotent_scripts :: "boot_env \<Rightarrow> (string \<Rightarrow> db \<Rightarrow> bool) \<Rightarrow> bool" where
  "idempotent_scripts B has_run \<longleftrightarrow>
     (\<forall>sql d d'. pool_exec B sql d = (None, d') \<longrightarrow> has_run sql d' \<and> (\<forall>s. has_run s d \<longrightarrow> has_run s d')) \<and>
     (\<forall>sql d. has_run sql d \<longrightarrow> pool_exec B sql d = (None, d))"

lemma apply_migrations_done:
  assumes "idempotent_scripts B has_run" and "apply_migrations B ns d = (None, d')"
  shows "all_done B has_run ns d' \<and> (\<forall>s. has_run s d \<longrightarrow> has_run s d')"
  using assms(2)
proof (induction ns arbitrary: d)
  case (Cons n ns)
  then obtain sql d1 where f: "migration_file B (''migrations/'' @ n) = Inr sql" "pool_exec B sql d = (None, d1)"
    and r: "apply_migrations B ns d1 = (None, d')"
    by (auto split: sum.splits prod.splits option.splits)
  then have "has_run sql d1" "\<forall>s. has_run s d \<longrightarrow> has_run s d1" using assms(1) unfolding idempotent_scripts_def by blast+
  with Cons.IH [OF r] f(1) show ?case by (auto simp: all_done_def)
qed (simp add: all_done_def)

lemma apply_migrations_again:
  assumes "idempotent_scripts B has_run" and "all_done B has_run ns d"
  shows "apply_migrations B ns d = (None, d)"
  using assms(2)
proof (induction ns)
  case (Cons n ns)
  then obtain sql where "migration_file B (''migrations/'' @ n) = Inr sql" "has_run sql d" by (auto simp: all_done_def)
  moreover have "pool_exec B sql d = (None, d)" using assms(1) \<open>has_run sql d\<close> unfolding idempotent_scripts_def by blast
  moreover have "apply_migrations B ns d = (None, d)" using Cons by (simp add: all_done_def)
  ultimately show ?case by simp
qed simp

lemma apply_migrations_file:
  "apply_migrations (B\<lparr>migration_dir := x\<rparr>) ns d = apply_migrations B ns d"
  by (induction ns arbitrary: d) (simp_all split: sum.splits prod.splits option.splits)

text \<open>Migrations run in the order of their names, however the directory lists them, and can run again: when scripts
  that have run do nothing (they are written with \<open>IF NOT EXISTS\<close>), a start after a successful one changes
  nothing, and neither does a start with fewer scripts or the same ones listed in another order.\<close>

theorem migrations_rerun:
  assumes "migration_dir B = Inr es" and "idempotent_scripts B has_run" and "Migrate B d = (None, d')"
  shows "sorted (migration_names es) \<and>
    (mset es1 = mset es \<longrightarrow> Migrate (B\<lparr>migration_dir := Inr es1\<rparr>) d = (None, d')) \<and>
    (set es2 \<subseteq> set es \<longrightarrow> Migrate (B\<lparr>migration_dir := Inr es2\<rparr>) d' = (None, d'))"
proof -
  have m: "apply_migrations B (migration_names es) d = (None, d')" using assms(1,3) by (simp add: Migrate_def)
  have "all_done B has_run (migration_names es) d'" using apply_migrations_done [OF assms(2) m] by blast
  then have "all_done B has_run (migration_names es2) d'" if "set es2 \<subseteq> set es"
    using that by (auto simp: all_done_def migration_names_def)
  then have "set es2 \<subseteq> set es \<longrightarrow> apply_migrations B (migration_names es2) d' = (None, d')"
    using apply_migrations_again [OF assms(2)] by blast
  then show ?thesis using m migration_names_mset [of es1 es]
    by (simp add: Migrate_def apply_migrations_file) (simp add: migration_names_def)
qed

section \<open>From the environment to the server\<close>

abbreviation settings :: "boot_env \<Rightarrow> Config" where
  "settings B \<equiv> Load_config (getenv B)"

lemma Listening_parts:
  assumes "start_api B m c = (Listening a kc addr tls, c1)"
  shows "Validate (settings B) = []" "make_provider B (settings B) = (api_auth a, kc)" "api_store a = store_at B (DatabaseURL (settings B))"
    "api_queue a = new_queue B (settings B)" "api_CORSOrigins a = CORSOrigins (settings B)" "api_RateLimit a = cfgRateLimit (settings B)"
    "api_env a = (api_at B)\<lparr>feed := load_feeds B (settings B)\<rparr>" "\<not> m" "tls = (TLSCert (settings B) \<noteq> [] \<and> TLSKey (settings B) \<noteq> [])"
  using assms(1) unfolding start_api_def
  by (auto simp: Let_def New_def split: if_splits option.splits prod.splits)

lemma Working_parts:
  assumes "start_worker B c = (Working p q E, c1)"
  shows "pr_store p = store_at B (DatabaseURL (settings B))" "q = new_queue B (settings B)" "E = (engine_at B)\<lparr>e_feed := (\<lambda>_. global_feed)\<rparr>"
    "pr_cfg p = settings B" "Production (pr_opts p) = IsProduction (settings B)"
  using assms(1) unfolding start_worker_def
  by (auto simp: Let_def NewProcessor_def split: if_splits option.splits prod.splits)

text \<open>The settings that switch authentication on: an issuer of tokens, or one well-formed key entry.\<close>

definition has_credentials :: "Config \<Rightarrow> bool" where
  "has_credentials cfg \<longleftrightarrow> OIDCIssuer cfg \<noteq> [] \<or> key_entries (APIKeys cfg) \<noteq> []"

lemma fold_update_nonempty: "xs \<noteq> [] \<or> ks \<noteq> [] \<Longrightarrow> fold (\<lambda>(k, p) ks. AList.update k p ks) xs ks \<noteq> []"
proof (induction xs arbitrary: ks)
  case (Cons x xs)
  have "AList.update (fst x) (snd x) ks \<noteq> []" by (cases ks) auto
  then show ?case using Cons.IH by (simp add: case_prod_unfold)
qed simp

lemma make_provider_enabled: "provider_enabled (fst (make_provider B cfg)) \<longleftrightarrow> has_credentials cfg"
proof (cases "OIDCIssuer cfg = []")
  case True
  have "fold (\<lambda>(k, p) ks. AList.update k p ks) xs [] \<noteq> [] \<longleftrightarrow> xs \<noteq> []" for xs :: "(string \<times> Principal) list"
    using fold_update_nonempty [of xs "[]"] by (cases xs) simp_all
  then show ?thesis using True
    by (simp add: make_provider_def choose_provider_def has_credentials_def case_prod_unfold Let_def ParseKeys_enabled ParseKeys_keys)
qed (simp add: make_provider_def choose_provider_def has_credentials_def NewOIDCVerifier_def Let_def)


section \<open>The worker and the feeds\<close>

text \<open>C40: The server and the worker of one environment share the database and the queue, but not the feeds: the server
  works with the feeds it has loaded, and every finding that the worker adds, whatever the settings say, is
  flagged as exploited by the embedded list alone.\<close>

theorem worker_misses_feeds:
  assumes "start_api B m c0 = (Listening a kc addr tls, c1)" and "start_worker B c2 = (Working p q E, c3)"
  shows "let s' = snd (worker_loop E p q n (r, s)) in
    pr_store p = api_store a \<and> q = api_queue a \<and> feed (api_env a) = load_feeds B (settings B) \<and>
    (\<forall>row \<in> set (findings (st_db s')) - set (findings (st_db s)). f_KnownExploit row = IsKEV global_feed (f_CVE row))"
proof -
  let ?s' = "snd (worker_loop E p q n (r, s))"
  note E = Working_parts(3) [OF assms(2)]
  have "f_KnownExploit row = IsKEV global_feed (f_CVE row)" if "scanned E p ?s' row" for row
  proof -
    obtain t' raw x jobID fs f where n: "Normalize (e_norm E) (e_feed E t') raw x jobID = Inr fs" "f \<in> set fs" and st: "stored_as f row"
      using \<open>scanned E p ?s' row\<close> unfolding scanned_def from_scan_def by blast
    have "f_KnownExploit f = IsKEV global_feed (f_CVE f)" using normalized_exploit [OF n] by (simp add: E)
    moreover have "f_KnownExploit row = f_KnownExploit f" "f_CVE row = f_CVE f"
      using arg_cong [OF st [unfolded stored_as_def], of f_KnownExploit] arg_cong [OF st [unfolded stored_as_def], of f_CVE]
      by (simp_all add: finding_row_def)
    ultimately show ?thesis by simp
  qed
  then have "\<forall>row \<in> set (findings (st_db ?s')) - set (findings (st_db s)). f_KnownExploit row = IsKEV global_feed (f_CVE row)"
    using worker_findings_scanned [of _ E p q n r s] by blast
  then show ?thesis using Listening_parts(3,4,7) [OF assms(1)] Working_parts(1,2) [OF assms(2)] by (simp add: Let_def)
qed

section \<open>A start\<close>

text \<open>A development environment with one key and two migrations; the directory lists the later one first.\<close>

definition sample_boot :: boot_env where
  "sample_boot =
     \<lparr>getenv = (\<lambda>k. if k = ''AMANKAN_API_KEYS'' then ''ops:s1:admin'' else []), pool_new = (\<lambda>_. None), pool_ping = (\<lambda>_. None),
      migration_dir = Inr [(''0002_audit.sql'', False), (''0001_init.sql'', False), (''old'', True)],
      migration_file = Inr, pool_exec = (\<lambda>sql d. (None, d)), redis_up = (\<lambda>_ _. None), driver_new = (\<lambda>_ _ _. None),
      driver_verify = (\<lambda>_. None), read_path = (\<lambda>_. Inl []), http_client = (\<lambda>_. Inl []), json_error = (\<lambda>_. []),
      gzip_reader = (\<lambda>_. Inl []), store_at = (\<lambda>_. sample_store), graph_at = (\<lambda>_. sample_graph_env []),
      redis_at = (\<lambda>_ _. False), redis_lost_at = (\<lambda>_ _. 0), oidc_at = Oidc.sample_env, api_at = sample_api_env, engine_at = work_engine\<rparr>"


lemma sample_settings:
  "Validate (settings sample_boot) = []" "OIDCIssuer (settings sample_boot) = []" "APIKeys (settings sample_boot) = ''ops:s1:admin''"
  by (simp_all add: Validate_def IsProduction_def equal_fold_def Load_config_def env_str_def sample_boot_def)

lemma sample_migrate: "Migrate sample_boot d = (None, d)"
proof -
  have "apply_migrations sample_boot ns d = (None, d)" for ns by (induction ns) (simp_all add: sample_boot_def)
  then show ?thesis by (simp add: Migrate_def) (simp add: sample_boot_def)
qed

lemma sample_listening: "\<exists>a kc addr tls c1. start_api sample_boot False c = (Listening a kc addr tls, c1)"
proof -
  have "Connect_db sample_boot url = None" "redis_up sample_boot x y = None" for url x y
    by (simp_all add: Connect_db_def sample_boot_def)
  then show ?thesis by (simp add: start_api_def sample_settings sample_migrate Let_def split: prod.split)
qed

lemma sample_working: "\<exists>p q E c1. start_worker sample_boot c = (Working p q E, c1)"
proof -
  have "Connect_db sample_boot url = None" "redis_up sample_boot x y = None" for url x y
    by (simp_all add: Connect_db_def sample_boot_def)
  then show ?thesis by (simp add: start_worker_def Let_def split: prod.split)
qed

lemma sample_credentials: "has_credentials (settings sample_boot)"
proof -
  have "trim_space ''ops:s1:admin'' = ''ops:s1:admin''" by (rule trim_space_visible) (auto simp: visible_def)
  moreover have "key_entry ''ops:s1:admin'' \<noteq> None" by code_simp
  moreover have "split_on (CHR '','') ''ops:s1:admin'' = [''ops:s1:admin'']" by simp
  ultimately show ?thesis by (auto simp: has_credentials_def sample_settings key_entries_def map_filter_simps)
qed

theorem migrations_rerun_witness:
  "migration_names [(''0002_audit.sql'', False), (''0001_init.sql'', False), (''old'', True)] = [''0001_init.sql'', ''0002_audit.sql''] \<and>
   Migrate (sample_boot\<lparr>migration_dir := Inr [(''0001_init.sql'', False), (''0002_audit.sql'', False), (''old'', True)]\<rparr>) db_empty
     = (None, db_empty)"
proof
  show "migration_names [(''0002_audit.sql'', False), (''0001_init.sql'', False), (''old'', True)] = [''0001_init.sql'', ''0002_audit.sql'']"
    by code_simp
  have d: "migration_dir sample_boot = Inr [(''0002_audit.sql'', False), (''0001_init.sql'', False), (''old'', True)]"
    by (simp add: sample_boot_def)
  have "idempotent_scripts sample_boot (\<lambda>_ _. True)" by (simp add: idempotent_scripts_def sample_boot_def)
  from migrations_rerun [OF d this sample_migrate [of db_empty],
      of "[(''0001_init.sql'', False), (''0002_audit.sql'', False), (''old'', True)]"]
  show "Migrate (sample_boot\<lparr>migration_dir := Inr [(''0001_init.sql'', False), (''0002_audit.sql'', False), (''old'', True)]\<rparr>) db_empty
     = (None, db_empty)" by simp
qed


theorem worker_misses_feeds_witness:
  "\<exists>a kc addr tls c1 p q E c3. start_api sample_boot False sample_core = (Listening a kc addr tls, c1) \<and>
     start_worker sample_boot c1 = (Working p q E, c3) \<and> pr_store p = api_store a \<and> q = api_queue a"
proof -
  obtain a kc addr tls c1 where s: "start_api sample_boot False sample_core = (Listening a kc addr tls, c1)"
    using sample_listening by blast
  obtain p q E c3 where w: "start_worker sample_boot c1 = (Working p q E, c3)" using sample_working by blast
  from worker_misses_feeds [OF s w, of 0 work_redis work_state] s w show ?thesis by (auto simp: Let_def)
qed

end
