(* ===== verification/Spec2Isabelle.thy ===== *)
theory Spec2Isabelle
  imports
    Sla Risk Compliance Threat_Intel Audit_Chain Store Config Job_Queue Oidc Scanner Normalize
    Graph_Derive Graph_Paths Engine_Outcome Api_System Api_Output Api_Topology Api_Refusals Api_Projection Api_Answers Startup
begin

text \<open>
  Verification of Amankan, a vulnerability-management service in Go: an API server (\<open>cmd/api\<close>) takes assets
  and scan requests, a worker (\<open>cmd/worker\<close>) runs the scanners and stores scored findings, PostgreSQL
  keeps the rows and the audit trail, Neo4j the attack graph, Redis the queue of jobs between the two.

  How the program is modelled.

  A Go function that returns a value and an error is a HOL function into a sum, \<open>Inl\<close> the error; one that
  changes a database is a function that also returns the database; a middleware is a function on handlers.  The
  definitions have the names of the Go code and its branches in its order.  Strings are lists of
  bytes; \<open>float64\<close> is IEEE 754 binary64 (\<open>Go_Float\<close>), exact and executable; instants are
  nanoseconds.  The language's library is modelled as far as it is called: \<open>Go_Strings\<close>, \<open>Go_Strconv\<close>,
  \<open>Go_Time\<close>, \<open>Go_Json\<close>, \<open>Go_Xml\<close>, \<open>Go_Net\<close>, \<open>Go_Sha256\<close>, \<open>Go_Crypto\<close>, \<open>Go_Http\<close>,
  \<open>Go_Encode\<close>.  What is not in the repository is an argument: the clocks, the identifier generators,
  the failures of every database call, transaction and queue call (any of them may fail at any time), name resolution and TLS
  handshakes, the programs \<open>nmap\<close>, \<open>nuclei\<close> and \<open>gitleaks\<close>, the answers to the HTTP fetches of keys and feeds, the router
  \<open>chi\<close>, the Dijkstra procedure of APOC, the order of rows Neo4j leaves open, and the texts of
  errors that come from libraries.

  The parts, their theories, and what is shown.

  \<^item> Domain model (internal/models): \<open>Models\<close>.  \<open>Amankan_Prelude\<close> has what all share.
  \<^item> Threat intelligence (internal/threatintel): \<open>Threat_Intel\<close>, the KEV and EPSS lookups and the loaders;
    a fetched feed is exact, and a failed fetch changes nothing.
  \<^item> Risk, SLA and compliance (internal/risk, internal/sla, internal/compliance): \<open>Risk\<close>, \<open>Sla\<close>,
    \<open>Compliance\<close>.  The score is a tenth between 0 and 10, monotone, and within a rounding bound of the
    exact formula; the days remaining are whole days; the tables are complete.
  \<^item> Audit chain (internal/audit): \<open>Audit_Chain\<close>.  Verification accepts exactly the intact chains; the last
    hash commits to the whole log; an edit is found where it was made (up to an explicit SHA-256
    collision, never an assumption that there is none).
  \<^item> Store (internal/store, with the schema of internal/db/migrations): \<open>Store\<close>.  Tables are lists of
    rows; every method is a transition with the schema's checks and references; integrity is
    an invariant of all of them; appending keeps the chain when the column keeps the timestamp, and breaks it
    when it does not.
  \<^item> Authentication, hardening, configuration (internal/auth, internal/config): \<open>Auth\<close>, \<open>Oidc\<close>,
    \<open>Hardening\<close>, \<open>Config\<close>.  Keys and tokens are two instances of one interface, the locale
    \<open>auth_provider\<close>, from which the guards of both follow; a token is accepted only with a valid RS256
    signature, and the signature binds its claims.
  \<^item> Queue (internal/queue): \<open>Job_Queue\<close>, a refinement of a first-in first-out sequence.
  \<^item> Scanners and normalization (internal/scanner, internal/normalize): \<open>Scanner\<close>, \<open>Normalize\<close>.  A scan
    records its contacts, so that "no unauthorised host is contacted" and "no made-up result" are statements; the
    reports the adapters write are read back without loss.
  \<^item> Attack graph (internal/graph): \<open>Graph\<close>, \<open>Graph_Derive\<close>, \<open>Graph_Paths\<close>.  Every Cypher statement is
    a transition on a property graph; the paths found are exactly the attack walks of a declarative
    definition; derived edges keep the cheapest escalation.
  \<^item> Engine and worker (internal/engine, cmd/worker): \<open>Engine\<close> has the code, \<open>Engine_Spec\<close> the life
    cycle of a job as a step relation that the code refines whatever fails, \<open>Engine_Outcome\<close> how a job
    ends when the database works.
  \<^item> REST API (internal/api): \<open>Api_Base\<close> (state, helpers, JSON), \<open>Api_Handlers\<close> (every handler),
    \<open>Api_Router\<close> (middlewares, routes, the chain).  \<open>Api_Spec\<close> and \<open>Api_Chain\<close> reduce a request to steps
    on the databases; \<open>Api_Guard\<close> has access control, the audit of mutations, reads that change
    nothing, and the counters; \<open>Api_Output\<close> paging and the CSV report; \<open>Api_Topology\<close> the import of a topology;
    \<open>Api_Refusals\<close> that an answer of the class 4xx has changed nothing; \<open>Api_Projection\<close> that the synchronisation
    makes the graph a projection of the database; \<open>Api_Answers\<close> that every handler answers with a JSON document, an
    error with an object of one text, and only the export with CSV (with \<open>Go_Decimal\<close>: what is written for a float
    is a number literal).
  \<^item> The system (\<open>Api_System\<close>): runs of requests and worker turns keep both databases sound; an accepted
    scan ends; a failed push leaves an orphan.
  \<^item> Startup (cmd/api, cmd/worker, internal/db): \<open>Startup\<close>, from the environment variables to a listening
    server or a working worker, with the migrations.

  State.  \<open>db\<close>, \<open>graph\<close> and \<open>redis\<close> are what the three databases hold, together the record \<open>core\<close>; each has
  a counter of calls, by which the environment says what fails and what time it is.  \<open>local\<close> is what the server
  process keeps: the counters, the buckets of the rate limiter, the number of the request; the key cache of the
  token verifier stands beside it.  The worker sees the same databases through \<open>worker_view\<close>.

  Bounds.  \<open>shortest_from\<close> looks for the shortest decimal digits with fuel 16, that is up to 17 digits, the most
  that Go prints.  The paths of the graph are bounded as in the code (8 hops, 50
  rows).  The worker's loop takes the number of turns; that it drains the queue is proved for as many
  turns as jobs wait.  All other recursion is structural or has its measure.

  Not modelled.  Requests are served one after the other: the mutex of the limiter and of the key cache and the
  atomic counters make the single steps atomic, but interleavings within a handler are not explored.
  Log lines, request ids, the recovery of panics, signals and the graceful shutdown, the pool's and the drivers'
  internals, reading files and request bodies to their limits are left out; a cancelled context shows as failing calls.
  The web console, the deployment files, the scripts and the documents are not Go code of the service.
\<close>

end
